(* ===== verification/Js_Prelude.thy ===== *)
theory Js_Prelude
  imports Main "HOL-Library.Code_Target_Numeral" "HOL-Library.Char_ord" "HOL-Library.List_Lexorder"
begin

text \<open>
  The part of the JavaScript language and of its standard library that the browser
  application under src/files uses everywhere: exceptions as values, strings with
  \<open>split\<close>, \<open>join\<close>, \<open>indexOf\<close> and \<open>replace\<close>, decimal printing and \<open>parseInt\<close>.
  A JavaScript string is modelled as a list of Latin-1 characters (Isabelle's type
  \<open>string\<close>) where the code only compares, splits and joins it, and as the list of its UTF-16
  code units (\<open>units\<close>) in the components that encode text: SHA-256, cookies and users.
\<close>

section \<open>Collections of rewrite rules\<close>

named_theorems str_simps \<open>rules about split, join, printing and parsing of strings\<close>
named_theorems obj_simps \<open>rules about JavaScript objects\<close>
named_theorems app_simps \<open>frame rules of the operations on the application state\<close>

section \<open>Exceptions\<close>

text \<open>
  A call either returns normally or throws. What a throwing call already wrote stays
  written, so an operation on a state returns the outcome together with the new state.
\<close>

datatype js_error =
    TypeError string
  | ReferenceError string
  | SyntaxError string
  | URIError
  | ErrorMsg string

datatype 'a outcome = Ok 'a | Throw js_error

fun is_ok :: "'a outcome \<Rightarrow> bool" where
  "is_ok (Ok _) = True"
| "is_ok (Throw _) = False"

fun error_message :: "js_error \<Rightarrow> string" where
  "error_message (TypeError m) = m"
| "error_message (ReferenceError m) = m"
| "error_message (SyntaxError m) = m"
| "error_message URIError = ''URI malformed''"
| "error_message (ErrorMsg m) = m"

fun bind_outcome :: "'a outcome \<Rightarrow> ('a \<Rightarrow> 'b outcome) \<Rightarrow> 'b outcome" where
  "bind_outcome (Ok x) f = f x"
| "bind_outcome (Throw e) f = Throw e"

lemma bind_outcome_eq_Ok:
  "bind_outcome r f = Ok y \<longleftrightarrow> (\<exists>x. r = Ok x \<and> f x = Ok y)"
  by (cases r) auto

section \<open>Splitting and joining strings\<close>

type_synonym units = "int list"

definition u16 :: "string \<Rightarrow> units" where
  "u16 s = map (\<lambda>c. int (of_char c)) s"

definition code_units :: "units \<Rightarrow> bool" where
  "code_units s \<longleftrightarrow> (\<forall>c\<in>set s. 0 \<le> c \<and> c < 65536)"

text \<open>\<open>s.split(c)\<close> for a one-character separator: never empty, the empty string gives one piece.\<close>

fun split_chr :: "'a \<Rightarrow> 'a list \<Rightarrow> 'a list list" where
  "split_chr c [] = [[]]"
| "split_chr c (x # xs) =
     (if x = c then [] # split_chr c xs
      else (case split_chr c xs of
              [] \<Rightarrow> [[x]]
            | p # ps \<Rightarrow> (x # p) # ps))"

text \<open>\<open>s.split(c, n)\<close> keeps the first \<open>n\<close> pieces and drops the rest.\<close>

definition split_lim :: "char \<Rightarrow> nat \<Rightarrow> string \<Rightarrow> string list" where
  "split_lim c n s = take n (split_chr c s)"

fun join_str :: "'a list \<Rightarrow> 'a list list \<Rightarrow> 'a list" where
  "join_str sep [] = []"
| "join_str sep [p] = p"
| "join_str sep (p # q # ps) = p @ sep @ join_str sep (q # ps)"

lemma split_chr_nonempty [simp]: "split_chr c s \<noteq> []"
  by (induction s) (auto split: list.splits)

lemma split_chr_notin [str_simps]: "c \<notin> set s \<Longrightarrow> split_chr c s = [s]"
  by (induction s) auto

lemma split_chr_append_sep [str_simps]:
  "c \<notin> set p \<Longrightarrow> split_chr c (p @ c # s) = p # split_chr c s"
  by (induction p) auto

lemma split_join [str_simps]:
  "ps \<noteq> [] \<Longrightarrow> \<forall>p\<in>set ps. c \<notin> set p \<Longrightarrow> split_chr c (join_str [c] ps) = ps"
proof (induction "[c]" ps rule: join_str.induct)
  case (3 p q ps)
  then show ?case by (simp add: split_chr_append_sep)
qed (simp_all add: split_chr_notin)

lemma join_split: "join_str [c] (split_chr c s) = s"
proof (induction s)
  case (Cons x s)
  obtain p ps where pps: "split_chr c s = p # ps"
    by (cases "split_chr c s") auto
  with Cons show ?case by (cases ps) auto
qed simp

lemma split_chr_pieces: "p \<in> set (split_chr c s) \<Longrightarrow> c \<notin> set p \<and> set p \<subseteq> set s"
proof (induction s arbitrary: p)
  case (Cons x s)
  obtain q qs where qqs: "split_chr c s = q # qs"
    by (cases "split_chr c s") auto
  with Cons.prems show ?case
  proof (cases "x = c")
    case True
    with Cons.prems Cons.IH [of p] show ?thesis by auto
  next
    case False
    with Cons.prems qqs have "p = x # q \<or> p \<in> set qs" by auto
    with False Cons.IH [of q] Cons.IH [of p] qqs show ?thesis by auto
  qed
qed simp

lemma set_join_str:
  "set (join_str sep ps) \<subseteq> \<Union> (set ` set ps) \<union> set sep"
  by (induction sep ps rule: join_str.induct) auto

lemma join_str_Cons: "ps \<noteq> [] \<Longrightarrow> join_str sep (p # ps) = p @ sep @ join_str sep ps"
  by (cases ps) auto

lemma join_str_snoc: "ps \<noteq> [] \<Longrightarrow> join_str sep (ps @ [p]) = join_str sep ps @ sep @ p"
  by (induction sep ps rule: join_str.induct) auto

lemma join_str_append:
  "ps \<noteq> [] \<Longrightarrow> qs \<noteq> [] \<Longrightarrow>
   join_str sep (ps @ qs) = join_str sep ps @ sep @ join_str sep qs"
  by (induction sep ps rule: join_str.induct) (auto simp: join_str_Cons)

section \<open>Searching and replacing\<close>

fun starts_with :: "'a list \<Rightarrow> 'a list \<Rightarrow> bool" where
  "starts_with [] s = True"
| "starts_with (p # ps) [] = False"
| "starts_with (p # ps) (x # xs) = (p = x \<and> starts_with ps xs)"

lemma starts_with_iff: "starts_with p s \<longleftrightarrow> (\<exists>t. s = p @ t)"
  by (induction p s rule: starts_with.induct) auto

text \<open>\<open>s.indexOf(p)\<close>; \<open>None\<close> is the result -1.\<close>

fun index_of :: "string \<Rightarrow> string \<Rightarrow> nat option" where
  "index_of p [] = (if p = [] then Some 0 else None)"
| "index_of p (x # xs) =
     (if starts_with p (x # xs) then Some 0 else map_option Suc (index_of p xs))"

lemma index_of_Some:
  "index_of p s = Some i \<Longrightarrow> s = take i s @ p @ drop (i + length p) s"
proof (induction p s arbitrary: i rule: index_of.induct)
  case (2 p x xs)
  then show ?case
    by (auto simp: starts_with_iff split: if_splits)
qed (simp split: if_splits)

text \<open>
  \<open>s.replace(p, r)\<close> with a string pattern: the first occurrence only, and the dollar
  patterns of the replacement text are expanded (there are no capture groups, so a dollar
  followed by a digit stands for itself).
\<close>

fun expand_repl :: "string \<Rightarrow> string \<Rightarrow> string \<Rightarrow> string \<Rightarrow> string" where
  "expand_repl m pre post (a # b # r) =
     (if a = CHR ''$'' then
        (if b = CHR ''$'' then CHR ''$'' # expand_repl m pre post r
         else if b = CHR ''&'' then m @ expand_repl m pre post r
         else if b = CHR 0x60 then pre @ expand_repl m pre post r
         else if b = CHR 0x27 then post @ expand_repl m pre post r
         else a # expand_repl m pre post (b # r))
      else a # expand_repl m pre post (b # r))"
| "expand_repl m pre post r = r"

definition replace_first :: "string \<Rightarrow> string \<Rightarrow> string \<Rightarrow> string" where
  "replace_first p r s =
     (case index_of p s of
        None \<Rightarrow> s
      | Some i \<Rightarrow>
          (let pre = take i s; post = drop (i + length p) s
           in pre @ expand_repl p pre post r @ post))"

lemma expand_repl_plain: "CHR ''$'' \<notin> set r \<Longrightarrow> expand_repl m pre post r = r"
  by (induction m pre post r rule: expand_repl.induct) auto

section \<open>Decimal numbers\<close>

definition digit_chr :: "nat \<Rightarrow> char" where
  "digit_chr d = char_of (48 + d)"

definition is_digit :: "char \<Rightarrow> bool" where
  "is_digit c \<longleftrightarrow> 48 \<le> (of_char c :: nat) \<and> (of_char c :: nat) \<le> 57"

definition digit_val :: "char \<Rightarrow> nat" where
  "digit_val c = of_char c - 48"

fun nat_str :: "nat \<Rightarrow> string" where
  "nat_str n = (if n < 10 then [digit_chr n] else nat_str (n div 10) @ [digit_chr (n mod 10)])"

declare nat_str.simps [simp del]

definition int_str :: "int \<Rightarrow> string" where
  "int_str i = (if i < 0 then CHR ''-'' # nat_str (nat (- i)) else nat_str (nat i))"

definition digits_val :: "string \<Rightarrow> nat" where
  "digits_val ds = foldl (\<lambda>a c. a * 10 + digit_val c) 0 ds"

lemma of_digit_chr: "d < 10 \<Longrightarrow> (of_char (digit_chr d) :: nat) = 48 + d"
  by (simp add: digit_chr_def)

lemma is_digit_digit_chr [simp]: "d < 10 \<Longrightarrow> is_digit (digit_chr d)"
  by (simp add: is_digit_def of_digit_chr)

lemma digit_val_digit_chr [simp]: "d < 10 \<Longrightarrow> digit_val (digit_chr d) = d"
  by (simp add: digit_val_def of_digit_chr)

lemma nat_str_nonempty [simp]: "nat_str n \<noteq> []"
  by (subst nat_str.simps) simp

lemma nat_str_digits: "c \<in> set (nat_str n) \<Longrightarrow> is_digit c"
proof (induction n rule: nat_str.induct)
  case (1 n)
  then show ?case by (subst (asm) nat_str.simps) (auto split: if_splits)
qed

lemma digits_val_snoc: "digits_val (ds @ [c]) = digits_val ds * 10 + digit_val c"
  by (simp add: digits_val_def)

lemma digits_val_nat_str [str_simps]: "digits_val (nat_str n) = n"
proof (induction n rule: nat_str.induct)
  case (1 n)
  show ?case
  proof (cases "n < 10")
    case True
    then show ?thesis by (subst nat_str.simps) (simp add: digits_val_def)
  next
    case False
    with 1 show ?thesis
      by (subst nat_str.simps) (simp add: digits_val_snoc)
  qed
qed

lemma nat_str_inject [simp]: "nat_str m = nat_str n \<longleftrightarrow> m = n"
  by (metis digits_val_nat_str)

text \<open>White space that \<open>parseInt\<close> skips.\<close>

definition is_space :: "char \<Rightarrow> bool" where
  "is_space c \<longleftrightarrow> (of_char c :: nat) \<in> {9, 10, 11, 12, 13, 32, 160}"

definition hex_val :: "char \<Rightarrow> nat option" where
  "hex_val c =
     (let k = of_char c :: nat in
      if 48 \<le> k \<and> k \<le> 57 then Some (k - 48)
      else if 65 \<le> k \<and> k \<le> 70 then Some (k - 55)
      else if 97 \<le> k \<and> k \<le> 102 then Some (k - 87)
      else None)"

definition hexs_val :: "string \<Rightarrow> nat" where
  "hexs_val ds = foldl (\<lambda>a c. a * 16 + (case hex_val c of None \<Rightarrow> 0 | Some v \<Rightarrow> v)) 0 ds"

definition sign_split :: "string \<Rightarrow> int \<times> string" where
  "sign_split s =
     (case s of
        [] \<Rightarrow> (1, [])
      | c # r \<Rightarrow> (if c = CHR ''-'' then (-1, r) else if c = CHR ''+'' then (1, r) else (1, s)))"

text \<open>\<open>parseInt(s, 10)\<close>; \<open>None\<close> is NaN.\<close>

definition parse_int10 :: "string \<Rightarrow> int option" where
  "parse_int10 s =
     (let (sg, r) = sign_split (dropWhile is_space s); ds = takeWhile is_digit r
      in if ds = [] then None else Some (sg * int (digits_val ds)))"

text \<open>\<open>parseInt(s)\<close> without a radix reads a \<open>0x\<close> prefix as hexadecimal.\<close>

definition parse_int :: "string \<Rightarrow> int option" where
  "parse_int s =
     (let (sg, r) = sign_split (dropWhile is_space s)
      in if starts_with ''0x'' r \<or> starts_with ''0X'' r
         then (let hs = takeWhile (\<lambda>c. hex_val c \<noteq> None) (drop 2 r)
               in if hs = [] then None else Some (sg * int (hexs_val hs)))
         else (let ds = takeWhile is_digit r
               in if ds = [] then None else Some (sg * int (digits_val ds))))"

lemma is_digit_not_space: "is_digit c \<Longrightarrow> \<not> is_space c"
  by (auto simp: is_digit_def is_space_def)

lemma is_digit_neq:
  assumes "is_digit c"
  shows "c \<noteq> CHR ''-''" "c \<noteq> CHR ''+''" "c \<noteq> CHR ''x''" "c \<noteq> CHR ''X''"
    "c \<noteq> CHR '',''" "c \<noteq> CHR '';''" "c \<noteq> CHR ''='' " "c \<noteq> CHR ''&''" "c \<noteq> CHR ''%''"
  using assms by (auto simp: is_digit_def)

lemma nat_str_head: "\<exists>c r. nat_str n = c # r \<and> is_digit c"
  using nat_str_nonempty [of n] nat_str_digits [of _ n] by (cases "nat_str n") auto

lemma dropWhile_space_nat_str [simp]: "dropWhile is_space (nat_str n) = nat_str n"
  using nat_str_head [of n] by (auto simp: is_digit_not_space)

lemma sign_split_nat_str [simp]: "sign_split (nat_str n) = (1, nat_str n)"
  using nat_str_head [of n] by (auto simp: sign_split_def is_digit_neq)

lemma takeWhile_nat_str [simp]: "takeWhile is_digit (nat_str n) = nat_str n"
  by (simp add: takeWhile_eq_all_conv nat_str_digits)

lemma nat_str_no_letter: "c = CHR ''x'' \<or> c = CHR ''X'' \<Longrightarrow> c \<notin> set (nat_str n)"
  using nat_str_digits [of c n] is_digit_neq(3,4) [of c] by blast

lemma nat_str_no_hex [simp]:
  "\<not> starts_with ''0x'' (nat_str n)" "\<not> starts_with ''0X'' (nat_str n)"
proof -
  show "\<not> starts_with ''0x'' (nat_str n)"
    using nat_str_no_letter [of "CHR ''x''" n] by (auto simp only: starts_with_iff) simp
  show "\<not> starts_with ''0X'' (nat_str n)"
    using nat_str_no_letter [of "CHR ''X''" n] by (auto simp only: starts_with_iff) simp
qed

lemma parse_int10_nat_str [str_simps]: "parse_int10 (nat_str n) = Some (int n)"
  by (simp add: parse_int10_def digits_val_nat_str)

lemma parse_int_nat_str [str_simps]: "parse_int (nat_str n) = Some (int n)"
  by (simp add: parse_int_def digits_val_nat_str)

lemma is_space_minus [simp]: "\<not> is_space CHR ''-''"
  by (simp add: is_space_def)

lemma parse_int_int_str [str_simps]: "parse_int (int_str i) = Some i"
proof (cases "i < 0")
  case True
  then show ?thesis
    by (simp add: int_str_def parse_int_def sign_split_def digits_val_nat_str)
qed (simp add: int_str_def parse_int_nat_str)

text \<open>The low bits of the bytes of UTF-8.\<close>

lemma lead_mod:
  "0 \<le> y \<Longrightarrow> y < 32 \<Longrightarrow> (192 + y) mod 32 = y" "0 \<le> y \<Longrightarrow> y < 16 \<Longrightarrow> (224 + y) mod 16 = y"
  "0 \<le> y \<Longrightarrow> y < 64 \<Longrightarrow> (128 + y) mod 64 = y" for y :: int
proof -
  show "0 \<le> y \<Longrightarrow> y < 32 \<Longrightarrow> (192 + y) mod 32 = y" using mod_mult_self2 [of y 32 6] by (simp add: add.commute)
  show "0 \<le> y \<Longrightarrow> y < 16 \<Longrightarrow> (224 + y) mod 16 = y" using mod_mult_self2 [of y 16 14] by (simp add: add.commute)
  show "0 \<le> y \<Longrightarrow> y < 64 \<Longrightarrow> (128 + y) mod 64 = y" using mod_mult_self2 [of y 64 2] by (simp add: add.commute)
qed

section \<open>Machines and their invariants\<close>

text \<open>
  A browser page is a machine whose steps are event handlers. What every handler keeps holds
  whenever the page is idle, and a handler that only ever adds to a history keeps its prefix.
\<close>

locale machine =
  fixes init :: "'s \<Rightarrow> bool"
    and step :: "'s \<Rightarrow> 's \<Rightarrow> bool"
    and inv :: "'s \<Rightarrow> bool"
  assumes inv_init: "init s \<Longrightarrow> inv s"
    and inv_step: "inv s \<Longrightarrow> step s t \<Longrightarrow> inv t"
begin

lemma inv_steps: "step\<^sup>*\<^sup>* s t \<Longrightarrow> inv s \<Longrightarrow> inv t"
  by (induction rule: rtranclp_induct) (auto intro: inv_step)

lemma inv_reach: "init s \<Longrightarrow> step\<^sup>*\<^sup>* s t \<Longrightarrow> inv t"
  using inv_steps inv_init by blast

lemma monotone_reach:
  assumes "step\<^sup>*\<^sup>* s t" "inv s" "\<And>a b. inv a \<Longrightarrow> step a b \<Longrightarrow> P a \<Longrightarrow> P b" "P s"
  shows "P t"
  using assms(1)
proof (induction rule: rtranclp_induct)
  case (step a b)
  then show ?case using assms inv_steps [OF step.hyps(1)] by blast
qed (rule assms(4))

end

end
