(* ===== verification/Js_Object.thy ===== *)
theory Js_Object
  imports Js_Prelude
begin

text \<open>
  JavaScript objects used as dictionaries. An object is the list of its own properties in
  creation order; \<open>for (k in o)\<close> and \<open>Object.keys\<close> visit the array-index keys in
  ascending order first and then the other keys in creation order. A property read
  \<open>o[k]\<close> also sees the members every object inherits from \<open>Object.prototype\<close>, which
  the code's tests \<open>if (o[k])\<close> and \<open>k in o\<close> do not exclude. Objects whose keys are all
  small integers (the loader's callback table) are kept sorted, which is their visiting order.
  The laws both kinds of object share are the locale \<open>js_dict\<close>.
\<close>

section \<open>String-keyed objects\<close>

type_synonym 'v jsobj = "(string \<times> 'v) list"

definition is_index :: "string \<Rightarrow> bool" where
  "is_index k \<longleftrightarrow> k \<noteq> [] \<and> list_all is_digit k \<and> (k = ''0'' \<or> hd k \<noteq> CHR ''0'')
     \<and> digits_val k < 4294967295"

fun oset :: "string \<Rightarrow> 'v \<Rightarrow> 'v jsobj \<Rightarrow> 'v jsobj" where
  "oset k v [] = [(k, v)]"
| "oset k v ((k', v') # o') = (if k = k' then (k, v) # o' else (k', v') # oset k v o')"

definition oget :: "'v jsobj \<Rightarrow> string \<Rightarrow> 'v option" where
  "oget ob k = map_of ob k"

definition odel :: "string \<Rightarrow> 'v jsobj \<Rightarrow> 'v jsobj" where
  "odel k ob = filter (\<lambda>p. fst p \<noteq> k) ob"

definition order_keys :: "string list \<Rightarrow> string list" where
  "order_keys ks =
     sort_key digits_val (filter is_index ks) @ filter (\<lambda>k. \<not> is_index k) ks"

text \<open>The visiting order of \<open>for (k in o)\<close>.\<close>

definition okeys :: "'v jsobj \<Rightarrow> string list" where
  "okeys ob = order_keys (map fst ob)"

definition wf_obj :: "'v jsobj \<Rightarrow> bool" where
  "wf_obj ob \<longleftrightarrow> distinct (map fst ob)"

text \<open>The members every ordinary object inherits.\<close>

definition object_proto :: "string list" where
  "object_proto = [''constructor'', ''__defineGetter__'', ''__defineSetter__'',
     ''hasOwnProperty'', ''__lookupGetter__'', ''__lookupSetter__'', ''isPrototypeOf'',
     ''propertyIsEnumerable'', ''toString'', ''valueOf'', ''__proto__'', ''toLocaleString'']"

definition inherited :: "string \<Rightarrow> bool" where
  "inherited k \<longleftrightarrow> k \<in> set object_proto"

text \<open>\<open>if (o[k])\<close> for an object that holds only truthy values (functions, arrays, objects).\<close>

definition otruthy :: "'v jsobj \<Rightarrow> string \<Rightarrow> bool" where
  "otruthy ob k \<longleftrightarrow> oget ob k \<noteq> None \<or> inherited k"

lemma map_of_oset: "map_of (oset k v ob) = (map_of ob)(k \<mapsto> v)"
  by (induction k v ob rule: oset.induct) auto

lemma oget_oset [obj_simps]: "oget (oset k v ob) k' = (if k' = k then Some v else oget ob k')"
  by (simp add: oget_def map_of_oset)

lemma oget_odel [obj_simps]: "oget (odel k ob) k' = (if k' = k then None else oget ob k')"
  by (induction ob) (auto simp: oget_def odel_def)

lemma fst_oset: "fst ` set (oset k v ob) = insert k (fst ` set ob)"
  by (induction k v ob rule: oset.induct) auto

lemma map_fst_oset:
  "map fst (oset k v ob) = (if k \<in> fst ` set ob then map fst ob else map fst ob @ [k])"
  by (induction k v ob rule: oset.induct) auto

lemma map_fst_odel: "map fst (odel k ob) = filter (\<lambda>x. x \<noteq> k) (map fst ob)"
  by (induction ob) (auto simp: odel_def)

lemma set_order_keys [simp]: "set (order_keys ks) = set ks"
  by (auto simp: order_keys_def)

lemma length_order_keys [simp]: "length (order_keys ks) = length ks"
  using sum_length_filter_compl [of is_index ks] by (simp add: order_keys_def)

lemma distinct_order_keys [simp]: "distinct (order_keys ks) = distinct ks"
  by (metis length_order_keys set_order_keys card_distinct distinct_card)

lemma okeys_iff: "k \<in> set (okeys ob) \<longleftrightarrow> oget ob k \<noteq> None"
  by (simp add: okeys_def oget_def map_of_eq_None_iff)

lemma okeys_oset [obj_simps]: "set (okeys (oset k v ob)) = insert k (set (okeys ob))"
  by (simp add: okeys_def fst_oset)

lemma okeys_odel [obj_simps]: "set (okeys (odel k ob)) = set (okeys ob) - {k}"
  by (auto simp: okeys_def odel_def)

lemma okeys_Nil [simp]: "okeys [] = []"
  by (simp add: okeys_def order_keys_def)

lemma okeys_eq_Nil [simp]: "okeys ob = [] \<longleftrightarrow> ob = []"
  by (metis length_0_conv length_map length_order_keys okeys_def)

lemma wf_obj_Nil [simp]: "wf_obj []"
  by (simp add: wf_obj_def)

lemma wf_obj_oset [simp]: "wf_obj ob \<Longrightarrow> wf_obj (oset k v ob)"
  by (auto simp: wf_obj_def map_fst_oset)

lemma wf_obj_odel [simp]: "wf_obj ob \<Longrightarrow> wf_obj (odel k ob)"
  by (simp add: wf_obj_def map_fst_odel)

lemma distinct_okeys: "wf_obj ob \<Longrightarrow> distinct (okeys ob)"
  by (simp add: wf_obj_def okeys_def)

lemma length_okeys_oset:
  "length (okeys (oset k v ob)) = (if oget ob k = None then Suc (length (okeys ob)) else length (okeys ob))"
  using map_fst_oset [of k v ob]
  by (auto simp: okeys_def oget_def map_of_eq_None_iff dest: arg_cong [where f = length])

lemma length_okeys_odel:
  assumes "wf_obj ob"
  shows "length (okeys (odel k ob)) = length (okeys ob) - (if oget ob k = None then 0 else 1)"
proof -
  have "length (okeys (odel k ob)) = card (set (okeys ob) - {k})"
    using assms distinct_card [OF distinct_okeys [of "odel k ob"]] by (simp add: okeys_odel)
  moreover have "card (set (okeys ob)) = length (okeys ob)"
    using assms by (simp add: distinct_card distinct_okeys)
  ultimately show ?thesis
    using okeys_iff [of k ob] by (auto simp: card_Diff_singleton_if)
qed

section \<open>Integer-keyed objects\<close>

type_synonym 'v iobj = "(nat \<times> 'v) list"

fun iset :: "nat \<Rightarrow> 'v \<Rightarrow> 'v iobj \<Rightarrow> 'v iobj" where
  "iset k v [] = [(k, v)]"
| "iset k v ((k', v') # o') =
     (if k < k' then (k, v) # (k', v') # o'
      else if k = k' then (k, v) # o' else (k', v') # iset k v o')"

definition iget :: "'v iobj \<Rightarrow> nat \<Rightarrow> 'v option" where
  "iget ob k = map_of ob k"

definition idel :: "nat \<Rightarrow> 'v iobj \<Rightarrow> 'v iobj" where
  "idel k ob = filter (\<lambda>p. fst p \<noteq> k) ob"

definition ikeys :: "'v iobj \<Rightarrow> nat list" where
  "ikeys ob = map fst ob"

definition wf_iobj :: "'v iobj \<Rightarrow> bool" where
  "wf_iobj ob \<longleftrightarrow> sorted_wrt (<) (map fst ob)"

lemma map_of_iset: "map_of (iset k v ob) = (map_of ob)(k \<mapsto> v)"
  by (induction k v ob rule: iset.induct) auto

lemma fst_iset: "fst ` set (iset k v ob) = insert k (fst ` set ob)"
  by (induction k v ob rule: iset.induct) auto

lemma wf_iobj_iset: "wf_iobj ob \<Longrightarrow> wf_iobj (iset k v ob)"
  unfolding wf_iobj_def
proof (induction k v ob rule: iset.induct)
  case (2 k v k' v' ob)
  have "x \<in> insert k (fst ` set ob)" if "x \<in> set (map fst (iset k v ob))" for x
    using that fst_iset [of k v ob] by auto
  with 2 show ?case by (fastforce)
qed simp

lemma set_iset: "set (iset k v ob) \<subseteq> insert (k, v) (set ob)"
  by (induction k v ob rule: iset.induct) auto

lemma iset_new:
  "iget ob k = None \<Longrightarrow> set (iset k v ob) = insert (k, v) (set ob)"
  by (induction k v ob rule: iset.induct) (auto simp: iget_def split: if_splits)

lemma idel_map_of: "map_of (idel k ob) k' = (if k' = k then None else map_of ob k')"
  by (induction ob) (auto simp: idel_def)

lemma wf_iobj_idel: "wf_iobj ob \<Longrightarrow> wf_iobj (idel k ob)"
  by (simp add: wf_iobj_def idel_def sorted_wrt_map sorted_wrt_filter)

section \<open>The dictionary interface\<close>

text \<open>
  What the code relies on when it uses an object as a dictionary: a read sees the last
  write, and the enumeration lists exactly the present keys, each once.
\<close>

locale js_dict =
  fixes emp :: "'d"
    and get :: "'d \<Rightarrow> 'k \<Rightarrow> 'v option"
    and put :: "'k \<Rightarrow> 'v \<Rightarrow> 'd \<Rightarrow> 'd"
    and del :: "'k \<Rightarrow> 'd \<Rightarrow> 'd"
    and enum :: "'d \<Rightarrow> 'k list"
    and inv :: "'d \<Rightarrow> bool"
  assumes get_emp: "get emp k = None"
    and get_put: "get (put k v d) k' = (if k' = k then Some v else get d k')"
    and get_del: "get (del k d) k' = (if k' = k then None else get d k')"
    and inv_emp: "inv emp"
    and inv_put: "inv d \<Longrightarrow> inv (put k v d)"
    and inv_del: "inv d \<Longrightarrow> inv (del k d)"
    and enum_iff: "k \<in> set (enum d) \<longleftrightarrow> get d k \<noteq> None"
    and enum_distinct: "inv d \<Longrightarrow> distinct (enum d)"
begin

lemma enum_put_set: "set (enum (put k v d)) = insert k (set (enum d))"
  by (auto simp: enum_iff get_put split: if_splits)

lemma enum_del_set: "set (enum (del k d)) = set (enum d) - {k}"
  by (auto simp: enum_iff get_del split: if_splits)

lemma enum_emp: "enum emp = []"
  using enum_iff [of _ emp] get_emp by (metis last_in_set)

lemma inv_fold_put: "inv d \<Longrightarrow> inv (fold (\<lambda>(k, v). put k v) kvs d)"
  by (induction kvs arbitrary: d) (auto simp: inv_put)

lemma get_fold_put:
  "get (fold (\<lambda>(k, v). put k v) kvs d) k =
     (case map_of (rev kvs) k of None \<Rightarrow> get d k | Some v \<Rightarrow> Some v)"
  by (induction kvs arbitrary: d) (auto simp: get_put map_add_def split: option.splits)

lemma enum_fold_put:
  "set (enum (fold (\<lambda>(k, v). put k v) kvs d)) = fst ` set kvs \<union> set (enum d)"
  by (induction kvs arbitrary: d) (auto simp: enum_put_set)

lemma enum_card: "inv d \<Longrightarrow> length (enum d) = card {k. get d k \<noteq> None}"
proof -
  assume "inv d"
  then have "length (enum d) = card (set (enum d))"
    by (simp add: enum_distinct distinct_card)
  moreover have "set (enum d) = {k. get d k \<noteq> None}"
    using enum_iff by auto
  ultimately show ?thesis by simp
qed

end

interpretation sobj: js_dict "[] :: 'v jsobj" oget oset odel okeys wf_obj
proof unfold_locales
  fix ob :: "'v jsobj" and k k' :: string and v :: 'v
  show "oget ([] :: 'v jsobj) k = None" by (simp add: oget_def)
  show "oget (oset k v ob) k' = (if k' = k then Some v else oget ob k')" by (rule oget_oset)
  show "oget (odel k ob) k' = (if k' = k then None else oget ob k')" by (rule oget_odel)
  show "(k \<in> set (okeys ob)) = (oget ob k \<noteq> None)" by (rule okeys_iff)
qed (simp_all add: distinct_okeys)

interpretation nobj: js_dict "[] :: 'v iobj" iget iset idel ikeys wf_iobj
proof unfold_locales
  fix ob :: "'v iobj" and k k' :: nat and v :: 'v
  show "iget ([] :: 'v iobj) k = None" by (simp add: iget_def)
  show "iget (iset k v ob) k' = (if k' = k then Some v else iget ob k')"
    by (simp add: iget_def map_of_iset)
  show "iget (idel k ob) k' = (if k' = k then None else iget ob k')"
    by (simp add: iget_def idel_map_of)
  show "wf_iobj ([] :: 'v iobj)" by (simp add: wf_iobj_def)
  show "wf_iobj ob \<Longrightarrow> wf_iobj (iset k v ob)" by (rule wf_iobj_iset)
  show "wf_iobj ob \<Longrightarrow> wf_iobj (idel k ob)" by (rule wf_iobj_idel)
  show "(k \<in> set (ikeys ob)) = (iget ob k \<noteq> None)"
    by (simp add: ikeys_def iget_def map_of_eq_None_iff)
  show "wf_iobj ob \<Longrightarrow> distinct (ikeys ob)"
    by (simp add: wf_iobj_def ikeys_def strict_sorted_iff)
qed

section \<open>Index keys of arrays\<close>

lemma nat_str_no_leading_zero: "nat_str n = ''0'' \<or> hd (nat_str n) \<noteq> CHR ''0''"
proof (induction n rule: nat_str.induct)
  case (1 n)
  show ?case
  proof (cases "n < 10")
    case True
    have "digit_chr n = CHR ''0'' \<Longrightarrow> n = 0"
      using True of_digit_chr [of n] by simp
    moreover have "digit_chr 0 = CHR ''0''" by code_simp
    ultimately show ?thesis using True by (subst (1 2) nat_str.simps) auto
  next
    case False
    have "nat_str (n div 10) \<noteq> ''0''"
    proof
      assume "nat_str (n div 10) = ''0''"
      then have "digits_val (nat_str (n div 10)) = digits_val ''0''" by simp
      moreover have "digits_val ''0'' = 0" by code_simp
      ultimately have "n div 10 = 0" by (simp add: digits_val_nat_str)
      with False show False by simp
    qed
    with False 1 show ?thesis by (subst (2) nat_str.simps) simp
  qed
qed

lemma is_index_nat_str [simp]: "n < 4294967295 \<Longrightarrow> is_index (nat_str n)"
  using nat_str_no_leading_zero [of n]
  by (simp add: is_index_def digits_val_nat_str list_all_iff nat_str_digits)

text \<open>An array-like object with the keys 0, 1, \dots is visited in index order.\<close>

lemma order_keys_indices:
  assumes "n \<le> 4294967295" and "\<forall>k\<in>set ks. \<not> is_index k"
  shows "order_keys (map nat_str [0..<n] @ ks) = map nat_str [0..<n] @ ks"
proof -
  have "filter is_index (map nat_str [0..<n]) = map nat_str [0..<n]"
    and none: "filter (\<lambda>k. \<not> is_index k) (map nat_str [0..<n]) = []"
    using assms(1) by (auto simp: filter_empty_conv filter_id_conv)
  moreover have "filter is_index ks = []" "filter (\<lambda>k. \<not> is_index k) ks = ks"
    using assms(2) by (auto simp: filter_empty_conv filter_id_conv)
  moreover have "sort_key digits_val (map nat_str [0..<n]) = map nat_str [0..<n]"
    by (rule sort_key_id_if_sorted) (simp add: comp_def digits_val_nat_str)
  ultimately show ?thesis by (simp add: order_keys_def)
qed

end
