(* ===== verification/Loader.thy ===== *)
theory Loader
  imports Js_Object
begin

text \<open>
  The Loader of src/files/graph.js, which batches the counter reads of all graphs into one
  HTTP request at a time: the callback table, the keys to get, the deadline timer, the
  request in flight, and the handlers \<open>addToNextGet\<close>, \<open>onTimer\<close>, \<open>startRequest\<close>,
  \<open>onXhrComplete\<close> and \<open>deliverData\<close>. Callbacks are values of a type parameter, run
  by an argument of the completion handler; the browser's timeouts are part of the state, so
  that a forgotten timer would be visible. The machine's steps are the relation \<open>ld_step\<close>.
\<close>

section \<open>State\<close>

record 'cb cb_obj =
  co_keys :: "string list"
  co_cb :: "'cb"
  co_id :: nat
  co_maxSamples :: int

text \<open>A request carries what its completion handler closes over and the body that is sent.\<close>

record 'cb request =
  rq_gotten :: "'cb cb_obj list jsobj"
  rq_cbObjs :: "'cb cb_obj iobj"
  rq_start :: "int option"
  rq_stop :: "int option"
  rq_keys :: "string list"
  rq_maxSamples :: int

record 'cb loader =
  ld_nextEvent :: "nat option"
  ld_nextEventTime :: int
  ld_getting :: "'cb cb_obj list jsobj"
  ld_cbObjs :: "'cb cb_obj iobj"
  ld_xhr :: "'cb request option"
  ld_id :: nat
  ld_timers :: "(nat \<times> int) list"
  ld_fresh :: nat

text \<open>What the completed XMLHttpRequest holds; \<open>None\<close> as body: the text is not JSON.\<close>

record 'd reply =
  rp_status :: int
  rp_statusText :: string
  rp_body :: "'d option"

definition new_Loader :: "'cb loader" where
  "new_Loader = \<lparr>ld_nextEvent = None, ld_nextEventTime = 0, ld_getting = [], ld_cbObjs = [],
     ld_xhr = None, ld_id = 0, ld_timers = [], ld_fresh = 1\<rparr>"

section \<open>Timeouts of the browser\<close>

definition set_timeout :: "int \<Rightarrow> 'cb loader \<Rightarrow> nat \<times> 'cb loader" where
  "set_timeout delay l =
     (ld_fresh l, l\<lparr>ld_timers := ld_timers l @ [(ld_fresh l, delay)], ld_fresh := Suc (ld_fresh l)\<rparr>)"

definition clear_timeout :: "nat option \<Rightarrow> 'cb loader \<Rightarrow> 'cb loader" where
  "clear_timeout h l =
     (case h of None \<Rightarrow> l | Some t \<Rightarrow> l\<lparr>ld_timers := filter (\<lambda>p. fst p \<noteq> t) (ld_timers l)\<rparr>)"

section \<open>Operations\<close>

text \<open>
  The loop over the keys. A key that every object inherits finds a value that is not an
  array, so the push throws and the rest of the handler does not run.
\<close>

fun enqueue_keys ::
  "'cb cb_obj \<Rightarrow> string list \<Rightarrow> 'cb cb_obj list jsobj \<Rightarrow> unit outcome \<times> 'cb cb_obj list jsobj"
where
  "enqueue_keys c [] g = (Ok (), g)"
| "enqueue_keys c (key # ks) g =
     (case oget g key of
        Some cs \<Rightarrow> enqueue_keys c ks (oset key (cs @ [c]) g)
      | None \<Rightarrow>
          (if inherited key then (Throw (TypeError ''push is not a function''), g)
           else enqueue_keys c ks (oset key [c] g)))"

definition next_id :: "nat \<Rightarrow> nat" where
  "next_id i = (let i' = i + 1 in if i' > 1000000 then 0 else i')"

definition arm_timer :: "int \<Rightarrow> int \<Rightarrow> 'cb loader \<Rightarrow> 'cb loader" where
  "arm_timer now deadline l =
     (let l1 = (if ld_nextEventTime l > deadline
                then (clear_timeout (ld_nextEvent l) l)\<lparr>ld_nextEvent := None, ld_nextEventTime := 0\<rparr>
                else l)
      in if ld_nextEvent l1 = None
         then (case set_timeout (deadline - now) (l1\<lparr>ld_nextEventTime := deadline\<rparr>) of
                 (h, l2) \<Rightarrow> l2\<lparr>ld_nextEvent := Some h\<rparr>)
         else l1)"

definition addToNextGet ::
  "int \<Rightarrow> string list \<Rightarrow> int \<Rightarrow> int \<Rightarrow> 'cb \<Rightarrow> 'cb loader \<Rightarrow> unit outcome \<times> 'cb loader"
where
  "addToNextGet now ks maxTime maxSamples cb l =
     (let i = next_id (ld_id l);
          deadline = now + maxTime;
          c = \<lparr>co_keys = ks, co_cb = cb, co_id = i, co_maxSamples = maxSamples\<rparr>;
          l1 = l\<lparr>ld_id := i, ld_cbObjs := iset i c (ld_cbObjs l)\<rparr>
      in case enqueue_keys c ks (ld_getting l1) of
           (Throw e, g) \<Rightarrow> (Throw e, l1\<lparr>ld_getting := g\<rparr>)
         | (Ok _, g) \<Rightarrow> (Ok (), arm_timer now deadline (l1\<lparr>ld_getting := g\<rparr>)))"

text \<open>The largest sample count asked for, at least one.\<close>

definition request_maxSamples :: "'cb cb_obj iobj \<Rightarrow> int" where
  "request_maxSamples cs =
     foldl (\<lambda>m p. if co_maxSamples (snd p) > m then co_maxSamples (snd p) else m) 1 cs"

definition ms_to_sec :: "int option \<Rightarrow> int option" where
  "ms_to_sec t = map_option (\<lambda>x. x div 1000) t"

definition startRequest :: "int option \<times> int option \<Rightarrow> 'cb loader \<Rightarrow> unit outcome \<times> 'cb loader" where
  "startRequest cur l =
     (if ld_xhr l \<noteq> None then
        (Throw (ErrorMsg ''Attempt to re-start Loader XMLHttpRequest()''), l)
      else if ld_getting l = [] then (Ok (), l)
      else
        (let gotten = ld_getting l; cbObjs = ld_cbObjs l;
             rq = \<lparr>rq_gotten = gotten, rq_cbObjs = cbObjs,
                   rq_start = ms_to_sec (fst cur), rq_stop = ms_to_sec (snd cur),
                   rq_keys = okeys gotten, rq_maxSamples = request_maxSamples cbObjs\<rparr>
         in (Ok (), l\<lparr>ld_getting := [], ld_cbObjs := [], ld_xhr := Some rq\<rparr>)))"

definition onTimer :: "int option \<times> int option \<Rightarrow> 'cb loader \<Rightarrow> unit outcome \<times> 'cb loader" where
  "onTimer cur l =
     (let l1 = l\<lparr>ld_nextEvent := None, ld_nextEventTime := 0\<rparr>
      in if ld_xhr l1 \<noteq> None then (Ok (), l1) else startRequest cur l1)"

text \<open>Callbacks run in the order of their identifiers; one that throws ends the loop.\<close>

fun deliverData ::
  "('cb \<Rightarrow> 'd \<Rightarrow> 'w \<Rightarrow> unit outcome \<times> 'w) \<Rightarrow> 'd \<Rightarrow> 'cb cb_obj iobj \<Rightarrow> 'w \<Rightarrow> unit outcome \<times> 'w"
where
  "deliverData run d [] w = (Ok (), w)"
| "deliverData run d ((i, c) # cs) w =
     (case run (co_cb c) d w of
        (Throw e, w') \<Rightarrow> (Throw e, w')
      | (Ok _, w') \<Rightarrow> deliverData run d cs w')"

definition http_error :: "'d reply \<Rightarrow> js_error" where
  "http_error r =
     ErrorMsg (''Error getting data from server:'' @ [CHR 0x0A] @ int_str (rp_status r) @ '' '' @ rp_statusText r)"

definition onXhrComplete ::
  "('cb \<Rightarrow> 'd \<Rightarrow> 'w \<Rightarrow> unit outcome \<times> 'w) \<Rightarrow> int option \<times> int option \<Rightarrow> 'd reply \<Rightarrow>
   'cb request \<Rightarrow> 'w \<Rightarrow> 'cb loader \<Rightarrow> unit outcome \<times> 'w \<times> 'cb loader"
where
  "onXhrComplete run cur r rq w l =
     (let l1 = l\<lparr>ld_xhr := None\<rparr>
      in if rp_status r > 299 then (Throw (http_error r), w, l1)
         else (case rp_body r of
                 None \<Rightarrow> (Throw (SyntaxError ''JSON.parse''), w, l1)
               | Some d \<Rightarrow>
                   (case deliverData run d (rq_cbObjs rq) w of
                      (Throw e, w') \<Rightarrow> (Throw e, w', l1)
                    | (Ok _, w') \<Rightarrow>
                        (case startRequest cur l1 of (oc, l2) \<Rightarrow> (oc, w', l2)))))"

section \<open>The loader as a machine\<close>

text \<open>
  One step is one event of the browser: a graph asks for data, the pending timeout fires, the
  request in flight completes. The boolean label says whether the handler returned normally.
\<close>

inductive ld_step ::
  "('cb \<Rightarrow> 'd \<Rightarrow> 'w \<Rightarrow> unit outcome \<times> 'w) \<Rightarrow> bool \<Rightarrow>
   'w \<times> 'cb loader \<Rightarrow> 'w \<times> 'cb loader \<Rightarrow> bool"
  for run
where
  add: "\<forall>k\<in>set ks. \<not> inherited k \<Longrightarrow> addToNextGet now ks maxTime maxSamples cb l = (oc, l') \<Longrightarrow>
    ld_step run (is_ok oc) (w, l) (w, l')"
| fire: "(h, delay) \<in> set (ld_timers l) \<Longrightarrow>
    onTimer cur (l\<lparr>ld_timers := filter (\<lambda>p. fst p \<noteq> h) (ld_timers l)\<rparr>) = (oc, l') \<Longrightarrow>
    ld_step run (is_ok oc) (w, l) (w, l')"
| complete: "ld_xhr l = Some rq \<Longrightarrow> onXhrComplete run cur r rq w l = (oc, w', l') \<Longrightarrow>
    ld_step run (is_ok oc) (w, l) (w', l')"

inductive ld_reach ::
  "('cb \<Rightarrow> 'd \<Rightarrow> 'w \<Rightarrow> unit outcome \<times> 'w) \<Rightarrow> 'w \<Rightarrow> bool \<Rightarrow> 'w \<times> 'cb loader \<Rightarrow> bool"
  for run w0
where
  init: "ld_reach run w0 True (w0, new_Loader)"
| step: "ld_reach run w0 ok s \<Longrightarrow> ld_step run b s s' \<Longrightarrow> ld_reach run w0 (ok \<and> b) s'"

inductive_cases ld_stepE: "ld_step run b (w, l) (w', l')"

section \<open>Invariants\<close>

definition covers :: "'cb cb_obj iobj \<Rightarrow> 'cb cb_obj list jsobj \<Rightarrow> bool" where
  "covers cs g \<longleftrightarrow> (\<forall>p\<in>set cs. set (co_keys (snd p)) \<subseteq> set (okeys g))"

text \<open>A request asks for every key of every callback it will answer, with enough samples.\<close>

definition rq_ok :: "'cb request \<Rightarrow> bool" where
  "rq_ok rq \<longleftrightarrow> rq_keys rq \<noteq> [] \<and> distinct (rq_keys rq) \<and> wf_iobj (rq_cbObjs rq) \<and>
     1 \<le> rq_maxSamples rq \<and>
     (\<forall>p\<in>set (rq_cbObjs rq).
        set (co_keys (snd p)) \<subseteq> set (rq_keys rq) \<and> co_maxSamples (snd p) \<le> rq_maxSamples rq)"

definition timer_ok :: "'cb loader \<Rightarrow> bool" where
  "timer_ok l \<longleftrightarrow>
     map fst (ld_timers l) = (case ld_nextEvent l of None \<Rightarrow> [] | Some h \<Rightarrow> [h]) \<and>
     (ld_nextEvent l = None \<longrightarrow> ld_nextEventTime l = 0)"

definition ld_inv :: "'cb loader \<Rightarrow> bool" where
  "ld_inv l \<longleftrightarrow> wf_obj (ld_getting l) \<and> wf_iobj (ld_cbObjs l) \<and> ld_id l \<le> 1000000 \<and>
     covers (ld_cbObjs l) (ld_getting l) \<and> timer_ok l \<and>
     (case ld_xhr l of None \<Rightarrow> True | Some rq \<Rightarrow> rq_ok rq)"

text \<open>Nothing is left waiting without a timer or a request that will pick it up.\<close>

definition ld_live :: "'cb loader \<Rightarrow> bool" where
  "ld_live l \<longleftrightarrow> ld_getting l = [] \<or> ld_nextEvent l \<noteq> None \<or> ld_xhr l \<noteq> None"

lemma timer_ok_timers:
  "timer_ok l \<Longrightarrow> (h, d) \<in> set (ld_timers l) \<Longrightarrow>
     ld_nextEvent l = Some h \<and> filter (\<lambda>p. fst p \<noteq> h) (ld_timers l) = []"
  by (auto simp: timer_ok_def split: option.splits)

lemma enqueue_keys_ok:
  assumes "\<forall>k\<in>set ks. \<not> inherited k"
  shows "\<exists>g'. enqueue_keys c ks g = (Ok (), g') \<and> set (okeys g') = set ks \<union> set (okeys g)
     \<and> (wf_obj g \<longrightarrow> wf_obj g')"
  using assms
  by (induction c ks g rule: enqueue_keys.induct) (auto simp: obj_simps split: option.splits)

lemma enqueue_keys_inherited:
  assumes "inherited key" and "oget g key = None" and "\<forall>k\<in>set ks. \<not> inherited k"
  shows "\<exists>e g'. enqueue_keys c (ks @ [key]) g = (Throw e, g')"
  using assms
proof (induction ks arbitrary: g)
  case (Cons k ks)
  then have "k \<noteq> key" by auto
  with Cons show ?case by (auto simp: obj_simps split: option.splits)
qed simp

lemma next_id_bound: "i \<le> 1000000 \<Longrightarrow> next_id i \<le> 1000000"
  by (simp add: next_id_def Let_def)

lemma arm_timer_frame [app_simps]:
  "ld_getting (arm_timer now d l) = ld_getting l" "ld_cbObjs (arm_timer now d l) = ld_cbObjs l"
  "ld_xhr (arm_timer now d l) = ld_xhr l" "ld_id (arm_timer now d l) = ld_id l"
  by (auto simp: arm_timer_def set_timeout_def clear_timeout_def Let_def split: option.splits)

lemma arm_timer_deadline:
  "ld_nextEvent (arm_timer now d l) \<noteq> None \<and> ld_nextEventTime (arm_timer now d l) \<le> d"
  by (auto simp: arm_timer_def set_timeout_def clear_timeout_def Let_def split: option.splits)

lemma arm_timer_ok: "timer_ok l \<Longrightarrow> timer_ok (arm_timer now d l)"
  by (auto simp: timer_ok_def arm_timer_def set_timeout_def clear_timeout_def Let_def
      split: option.splits)

lemma timer_ok_frame [simp]:
  "timer_ok (l\<lparr>ld_getting := g\<rparr>) = timer_ok l" "timer_ok (l\<lparr>ld_cbObjs := cs\<rparr>) = timer_ok l"
  "timer_ok (l\<lparr>ld_xhr := x\<rparr>) = timer_ok l" "timer_ok (l\<lparr>ld_id := i\<rparr>) = timer_ok l"
  by (simp_all add: timer_ok_def)

lemma addToNextGet_eq:
  assumes "\<forall>k\<in>set ks. \<not> inherited k"
  shows "\<exists>g'. addToNextGet now ks mt ms cb l =
      (Ok (), arm_timer now (now + mt)
         (l\<lparr>ld_id := next_id (ld_id l),
            ld_cbObjs := iset (next_id (ld_id l))
              \<lparr>co_keys = ks, co_cb = cb, co_id = next_id (ld_id l), co_maxSamples = ms\<rparr> (ld_cbObjs l),
            ld_getting := g'\<rparr>))
     \<and> set (okeys g') = set ks \<union> set (okeys (ld_getting l)) \<and> (wf_obj (ld_getting l) \<longrightarrow> wf_obj g')"
  using enqueue_keys_ok [OF assms,
      of "\<lparr>co_keys = ks, co_cb = cb, co_id = next_id (ld_id l), co_maxSamples = ms\<rparr>" "ld_getting l"]
  by (auto simp: addToNextGet_def Let_def)

lemma addToNextGet_inv:
  assumes ok: "\<forall>k\<in>set ks. \<not> inherited k" and inv: "ld_inv l"
    and eq: "addToNextGet now ks mt ms cb l = (oc, l')"
  shows "ld_inv l' \<and> ld_live l' \<and> oc = Ok ()"
proof -
  obtain g' where g': "oc = Ok ()"
    "l' = arm_timer now (now + mt)
         (l\<lparr>ld_id := next_id (ld_id l),
            ld_cbObjs := iset (next_id (ld_id l))
              \<lparr>co_keys = ks, co_cb = cb, co_id = next_id (ld_id l), co_maxSamples = ms\<rparr> (ld_cbObjs l),
            ld_getting := g'\<rparr>)"
    "set (okeys g') = set ks \<union> set (okeys (ld_getting l))" "wf_obj (ld_getting l) \<longrightarrow> wf_obj g'"
    using addToNextGet_eq [OF ok, of now mt ms cb l] eq by auto
  have "covers (ld_cbObjs l') (ld_getting l')"
    using inv set_iset [of "next_id (ld_id l)" _ "ld_cbObjs l"] g'(3)
    by (fastforce simp: g'(2) app_simps covers_def ld_inv_def)
  moreover have "timer_ok l'"
    using inv by (simp add: g'(2) ld_inv_def arm_timer_ok)
  ultimately have "ld_inv l'"
    using inv g' by (simp add: ld_inv_def app_simps wf_iobj_iset next_id_bound)
  moreover have "ld_live l'"
    unfolding g'(2) ld_live_def using arm_timer_deadline by blast
  ultimately show ?thesis using g'(1) by simp
qed

lemma request_maxSamples_ge_aux:
  "m \<le> foldl (\<lambda>m p. if co_maxSamples (snd p) > m then co_maxSamples (snd p) else m) m cs \<and>
   (\<forall>p\<in>set cs. co_maxSamples (snd p)
      \<le> foldl (\<lambda>m p. if co_maxSamples (snd p) > m then co_maxSamples (snd p) else m) m cs)"
proof (induction cs arbitrary: m)
  case (Cons p cs)
  from Cons.IH [of "if co_maxSamples (snd p) > m then co_maxSamples (snd p) else m"]
  show ?case by (auto split: if_splits)
qed simp

lemma request_maxSamples_ge:
  "1 \<le> request_maxSamples cs" "p \<in> set cs \<Longrightarrow> co_maxSamples (snd p) \<le> request_maxSamples cs"
  using request_maxSamples_ge_aux [of 1 cs] by (auto simp: request_maxSamples_def)

lemma startRequest_inv:
  assumes "ld_inv l" and "ld_xhr l = None" and "startRequest cur l = (oc, l')"
  shows "ld_inv l' \<and> ld_live l' \<and> oc = Ok ()"
proof (cases "ld_getting l = []")
  case True
  with assms show ?thesis by (auto simp: startRequest_def ld_live_def)
next
  case False
  with assms show ?thesis
    by (auto simp: startRequest_def Let_def ld_inv_def ld_live_def rq_ok_def covers_def
        request_maxSamples_ge distinct_okeys wf_iobj_def)
qed

lemma onTimer_inv:
  assumes "ld_inv l" and "(h, d) \<in> set (ld_timers l)"
    and "onTimer cur (l\<lparr>ld_timers := filter (\<lambda>p. fst p \<noteq> h) (ld_timers l)\<rparr>) = (oc, l')"
  shows "ld_inv l' \<and> ld_live l' \<and> oc = Ok ()"
proof -
  let ?l1 = "l\<lparr>ld_timers := [], ld_nextEvent := None, ld_nextEventTime := 0\<rparr>"
  have none: "filter (\<lambda>p. fst p \<noteq> h) (ld_timers l) = []"
    using assms(1,2) timer_ok_timers by (auto simp: ld_inv_def)
  have inv1: "ld_inv ?l1"
    using assms(1) by (simp add: ld_inv_def timer_ok_def)
  show ?thesis
  proof (cases "ld_xhr l")
    case None
    with assms(3) none have "startRequest cur ?l1 = (oc, l')"
      by (simp add: onTimer_def)
    with inv1 None show ?thesis by (intro startRequest_inv) auto
  next
    case (Some rq)
    with assms(3) none have "oc = Ok ()" "l' = ?l1"
      by (auto simp: onTimer_def)
    with inv1 Some show ?thesis by (simp add: ld_live_def)
  qed
qed

lemma onXhrComplete_inv:
  assumes "ld_inv l" and "ld_xhr l = Some rq" and "onXhrComplete run cur r rq w l = (oc, w', l')"
  shows "ld_inv l' \<and> (is_ok oc \<longrightarrow> ld_live l')"
proof -
  let ?l1 = "l\<lparr>ld_xhr := None\<rparr>"
  have inv1: "ld_inv ?l1" using assms(1) by (simp add: ld_inv_def)
  consider "l' = ?l1" "\<not> is_ok oc" | "startRequest cur ?l1 = (oc, l')"
    using assms(3)
    by (auto simp: onXhrComplete_def Let_def split: if_splits option.splits prod.splits outcome.splits)
  then show ?thesis
  proof cases
    case 1
    with inv1 show ?thesis by simp
  next
    case 2
    with startRequest_inv [OF inv1 _ 2] show ?thesis by simp
  qed
qed

lemma ld_step_inv: "ld_step run b s s' \<Longrightarrow> ld_inv (snd s) \<Longrightarrow> ld_inv (snd s')"
  by (induction rule: ld_step.induct)
     (auto dest: addToNextGet_inv onTimer_inv onXhrComplete_inv)

lemma ld_step_live: "ld_step run b s s' \<Longrightarrow> b \<Longrightarrow> ld_inv (snd s) \<Longrightarrow> ld_live (snd s')"
  by (induction rule: ld_step.induct)
     (auto dest: addToNextGet_inv onTimer_inv onXhrComplete_inv)

lemma ld_inv_new: "ld_inv new_Loader"
  by (simp add: ld_inv_def new_Loader_def timer_ok_def covers_def wf_iobj_def)

lemma ld_reach_inv: "ld_reach run w0 ok s \<Longrightarrow> ld_inv (snd s)"
  by (induction rule: ld_reach.induct) (auto simp: ld_inv_new intro: ld_step_inv)

lemma ld_reach_live: "ld_reach run w0 ok s \<Longrightarrow> ok \<Longrightarrow> ld_live (snd s)"
proof (induction rule: ld_reach.induct)
  case init
  show ?case by (simp add: ld_live_def new_Loader_def)
next
  case (step ok s b s')
  from step.prems step.hyps show ?case
    using ld_step_live [OF step.hyps(2)] ld_reach_inv [OF step.hyps(1)] by simp
qed

lemma ld_reach_add:
  "ld_reach run w0 ok (w, l) \<Longrightarrow> \<forall>k\<in>set ks. \<not> inherited k \<Longrightarrow>
   ld_reach run w0 ok (w, snd (addToNextGet now ks mt ms cb l))"
proof -
  assume r: "ld_reach run w0 ok (w, l)" and ks: "\<forall>k\<in>set ks. \<not> inherited k"
  obtain oc l' where eq: "addToNextGet now ks mt ms cb l = (oc, l')" by fastforce
  then have "is_ok oc" using addToNextGet_eq [OF ks, of now mt ms cb l] by auto
  with ld_reach.step [OF r ld_step.add [OF ks eq]] eq show ?thesis by simp
qed

lemma ld_reach_fire:
  assumes "ld_reach run w0 ok (w, l)" and "(h, d) \<in> set (ld_timers l)"
  shows "ld_reach run w0 ok (w, snd (onTimer cur (l\<lparr>ld_timers := filter (\<lambda>p. fst p \<noteq> h) (ld_timers l)\<rparr>)))"
proof -
  obtain oc l' where eq: "onTimer cur (l\<lparr>ld_timers := filter (\<lambda>p. fst p \<noteq> h) (ld_timers l)\<rparr>) = (oc, l')"
    by fastforce
  moreover have "is_ok oc"
    using onTimer_inv [OF _ assms(2) eq] ld_reach_inv [OF assms(1)] by simp
  ultimately show ?thesis
    using ld_reach.step [OF assms(1) ld_step.fire [OF assms(2) eq]] by simp
qed

lemma ld_reach_complete:
  assumes "ld_reach run w0 ok (w, l)" and "ld_xhr l = Some rq"
  shows "ld_reach run w0 (ok \<and> is_ok (fst (onXhrComplete run cur r rq w l)))
           (snd (onXhrComplete run cur r rq w l))"
  using ld_reach.step [OF assms(1) ld_step.complete [OF assms(2)]]
  by (cases "onXhrComplete run cur r rq w l") simp

text \<open>Callbacks that only record that they ran, and with what.\<close>

definition log_run :: "'cb \<Rightarrow> 'd \<Rightarrow> ('cb \<times> 'd) list \<Rightarrow> unit outcome \<times> ('cb \<times> 'd) list" where
  "log_run cb d w = (Ok (), w @ [(cb, d)])"

lemma deliverData_log:
  "deliverData log_run d cs w = (Ok (), w @ map (\<lambda>p. (co_cb (snd p), d)) cs)"
  by (induction cs arbitrary: w) (auto simp: log_run_def)

section \<open>Properties of the loader\<close>

text \<open>C10: in every state the loader can reach, whatever failed before, the request in flight
  asks for a non-empty set of keys without repetition that contains every key of every
  callback it is going to answer, and for at least as many samples as any of them wants.\<close>

theorem loader_request_covers:
  assumes "ld_reach run w0 ok (w, l)" and "ld_xhr l = Some rq"
  shows "rq_keys rq \<noteq> [] \<and> distinct (rq_keys rq) \<and> 1 \<le> rq_maxSamples rq \<and>
     (\<forall>p\<in>set (rq_cbObjs rq).
        set (co_keys (snd p)) \<subseteq> set (rq_keys rq) \<and> co_maxSamples (snd p) \<le> rq_maxSamples rq)"
  using ld_reach_inv [OF assms(1)] assms(2) by (simp add: ld_inv_def rq_ok_def)

definition demo_queued :: "nat loader" where
  "demo_queued = snd (addToNextGet 1100 [''cpu.idle''] 100 800 8
     (snd (addToNextGet 1000 [''cpu.idle'', ''cpu.user''] 500 600 7 new_Loader)))"

definition demo_flying :: "nat loader" where
  "demo_flying = snd (onTimer (Some 1000, Some 9000) (demo_queued\<lparr>ld_timers := []\<rparr>))"

lemma inherited_demo: "\<forall>k\<in>set [''cpu.idle'', ''cpu.user'']. \<not> inherited k"
  by code_simp

lemma demo_queued_reach: "ld_reach run w0 True (w0, demo_queued)"
  unfolding demo_queued_def
  by (rule ld_reach_add [OF ld_reach_add [OF ld_reach.init]]) (use inherited_demo in auto)

lemma demo_timers: "ld_timers demo_queued = [(2, 100)]"
  by code_simp

lemma demo_flying_reach: "ld_reach run w0 True (w0, demo_flying)"
  using ld_reach_fire [OF demo_queued_reach, where h = 2 and d = 100 and cur = "(Some 1000, Some 9000)"]
  by (simp add: demo_timers demo_flying_def)

lemma demo_flying_some: "ld_xhr demo_flying \<noteq> None"
  by code_simp

lemma demo_flying_xhr: "\<exists>rq. ld_xhr demo_flying = Some rq"
  using demo_flying_some by auto

theorem loader_request_covers_witness:
  "\<exists>rq. ld_xhr demo_flying = Some rq \<and> rq_keys rq \<noteq> [] \<and>
     (\<forall>p\<in>set (rq_cbObjs rq). set (co_keys (snd p)) \<subseteq> set (rq_keys rq))"
proof -
  obtain rq where rq: "ld_xhr demo_flying = Some rq" using demo_flying_xhr by auto
  from loader_request_covers [OF demo_flying_reach [of log_run "[] :: (nat \<times> nat) list"] rq] rq
  show ?thesis by auto
qed

text \<open>C11: in every reachable state the browser holds at most one timeout of the loader, and it
  is the one \<open>_nextEvent\<close> names: a deadline that is moved forward never leaves the old
  timeout behind. The identifiers handed out stay within one million.\<close>

theorem loader_single_timer:
  assumes "ld_reach run w0 ok (w, l)"
  shows "map fst (ld_timers l) = (case ld_nextEvent l of None \<Rightarrow> [] | Some h \<Rightarrow> [h]) \<and>
     length (ld_timers l) \<le> 1 \<and> ld_id l \<le> 1000000"
proof -
  have inv: "ld_inv l" using ld_reach_inv [OF assms] by simp
  then have "map fst (ld_timers l) = (case ld_nextEvent l of None \<Rightarrow> [] | Some h \<Rightarrow> [h])"
    by (simp add: ld_inv_def timer_ok_def)
  moreover from this have "length (ld_timers l) \<le> 1"
    by (auto split: option.splits dest: arg_cong [where f = length])
  ultimately show ?thesis using inv by (simp add: ld_inv_def)
qed

theorem loader_single_timer_witness:
  "length (ld_timers demo_queued) \<le> 1 \<and> ld_nextEvent demo_queued = Some 2"
  using loader_single_timer [OF demo_queued_reach [of log_run "[] :: (nat \<times> nat) list"]]
  by (auto split: option.splits simp: demo_timers)

text \<open>C13: a completed request whose status is not an error and whose body is JSON runs every
  callback of that request exactly once, in the order of their identifiers and with that
  data; and if keys were queued meanwhile, all the queued callbacks at once become the next
  request, which leaves the queue empty.\<close>

theorem loader_delivers_and_continues:
  assumes "ld_inv l" and "ld_xhr l = Some rq" and "rp_status r \<le> 299" and "rp_body r = Some d"
  shows "\<exists>l'. onXhrComplete log_run cur r rq w l =
      (Ok (), w @ map (\<lambda>p. (co_cb (snd p), d)) (rq_cbObjs rq), l') \<and>
    sorted_wrt (<) (map fst (rq_cbObjs rq)) \<and>
    (if ld_getting l = [] then ld_xhr l' = None
     else ld_getting l' = [] \<and> ld_cbObjs l' = [] \<and>
       (\<exists>rq'. ld_xhr l' = Some rq' \<and> rq_cbObjs rq' = ld_cbObjs l \<and> rq_keys rq' = okeys (ld_getting l)))"
  using assms
  by (auto simp: onXhrComplete_def deliverData_log startRequest_def Let_def ld_inv_def rq_ok_def wf_iobj_def)

theorem loader_delivers_and_continues_witness:
  "\<exists>rq l'. ld_xhr demo_flying = Some rq \<and>
     onXhrComplete log_run (None, None) \<lparr>rp_status = 200, rp_statusText = ''OK'', rp_body = Some (5::nat)\<rparr>
       rq [] demo_flying = (Ok (), [(7, 5), (8, 5)], l') \<and> ld_xhr l' = None"
proof -
  obtain rq where rq: "ld_xhr demo_flying = Some rq" using demo_flying_xhr by auto
  have cbs: "map (\<lambda>p. (co_cb (snd p), 5::nat)) (rq_cbObjs (the (ld_xhr demo_flying))) = [(7, 5), (8, 5)]"
    by code_simp
  have none: "ld_getting demo_flying = []" by code_simp
  have inv: "ld_inv demo_flying"
    using ld_reach_inv [OF demo_flying_reach [of log_run "[] :: (nat \<times> nat) list"]] by simp
  from loader_delivers_and_continues [OF inv rq,
      of "\<lparr>rp_status = 200, rp_statusText = ''OK'', rp_body = Some (5::nat)\<rparr>" 5 "(None, None)" "[]"] rq cbs none
  show ?thesis by auto
qed

text \<open>C12: as long as no completion handler has thrown, queued keys are never stranded: either
  the deadline timer is pending or a request is in flight whose completion starts theirs.\<close>

theorem loader_never_stalls:
  assumes "ld_reach run w0 True (w, l)" and "ld_getting l \<noteq> []"
  shows "ld_timers l \<noteq> [] \<or> ld_xhr l \<noteq> None"
proof -
  have "ld_live l" using ld_reach_live [OF assms(1)] by simp
  moreover have "timer_ok l" using ld_reach_inv [OF assms(1)] by (simp add: ld_inv_def)
  ultimately show ?thesis using assms(2)
    by (auto simp: ld_live_def timer_ok_def split: option.splits)
qed

theorem loader_never_stalls_witness:
  "ld_getting demo_queued \<noteq> [] \<and> ld_xhr demo_queued = None \<and> ld_timers demo_queued \<noteq> []"
proof -
  have "ld_getting demo_queued \<noteq> []" "ld_xhr demo_queued = None" by code_simp+
  with loader_never_stalls [OF demo_queued_reach [of log_run "[] :: (nat \<times> nat) list"]] show ?thesis by simp
qed

definition demo_second :: "nat loader" where
  "demo_second = (let l = snd (addToNextGet 3000 [''net.in''] 500 600 9 demo_flying)
     in snd (onTimer (None, None) (l\<lparr>ld_timers := []\<rparr>)))"

text \<open>The error path strands the queue. When a request fails while another graph's keys are
  queued and their timer has already fired, the completion handler throws before it restarts
  the loader: keys are queued, nothing is in flight, no timer is pending, and the callbacks of
  the failed request are gone.\<close>

theorem loader_stalls_after_http_error:
  "\<exists>(w :: (nat \<times> nat) list) (l :: nat loader).
     ld_reach log_run [] False (w, l) \<and> w = [] \<and> ld_getting l \<noteq> [] \<and>
     ld_xhr l = None \<and> ld_timers l = [] \<and> map (co_cb \<circ> snd) (ld_cbObjs l) = [9]"
proof -
  let ?l = "snd (addToNextGet 3000 [''net.in''] 500 600 9 demo_flying)"
  let ?r = "\<lparr>rp_status = 500, rp_statusText = ''Internal'', rp_body = None :: nat option\<rparr>"
  let ?res = "onXhrComplete log_run (None, None) ?r (the (ld_xhr demo_second)) [] demo_second"
  have "ld_reach log_run ([] :: (nat \<times> nat) list) True ([], ?l)"
    by (rule ld_reach_add [OF demo_flying_reach]) code_simp
  moreover have t: "ld_timers ?l = [(3, 500)]" by code_simp
  ultimately have two: "ld_reach log_run ([] :: (nat \<times> nat) list) True ([], demo_second)"
    using ld_reach_fire [where l = ?l and h = 3 and d = 500 and cur = "(None, None)"]
    by (fastforce simp: demo_second_def Let_def)
  have x: "ld_xhr demo_second = Some (the (ld_xhr demo_second))" by code_simp
  have bad: "\<not> is_ok (fst ?res)" by code_simp
  have st: "fst (snd ?res) = [] \<and> ld_getting (snd (snd ?res)) \<noteq> [] \<and> ld_xhr (snd (snd ?res)) = None \<and>
     ld_timers (snd (snd ?res)) = [] \<and> map (co_cb \<circ> snd) (ld_cbObjs (snd (snd ?res))) = [9]"
    by code_simp
  have "ld_reach log_run [] False (fst (snd ?res), snd (snd ?res))"
    using ld_reach_complete [OF two x, of "(None, None)" ?r] bad by simp
  with st show ?thesis by (intro exI [of _ "fst (snd ?res)"] exI [of _ "snd (snd ?res)"]) simp
qed

text \<open>Whatever was pending, after a graph asks for keys that no object inherits, its
  callback is queued under the new identifier, all its keys are queued, and a timer is
  pending whose deadline is at most \<open>maxTime\<close> after now.\<close>

theorem addToNextGet_deadline:
  assumes "\<forall>k\<in>set ks. \<not> inherited k"
  shows "\<exists>l'. addToNextGet now ks maxTime ms cb l = (Ok (), l') \<and>
     ld_nextEvent l' \<noteq> None \<and> ld_nextEventTime l' \<le> now + maxTime \<and>
     set ks \<subseteq> set (okeys (ld_getting l')) \<and>
     iget (ld_cbObjs l') (ld_id l') =
       Some \<lparr>co_keys = ks, co_cb = cb, co_id = ld_id l', co_maxSamples = ms\<rparr>"
proof -
  obtain g' l1 where g': "addToNextGet now ks maxTime ms cb l = (Ok (), arm_timer now (now + maxTime) l1)"
    "l1 = l\<lparr>ld_id := next_id (ld_id l),
            ld_cbObjs := iset (next_id (ld_id l))
              \<lparr>co_keys = ks, co_cb = cb, co_id = next_id (ld_id l), co_maxSamples = ms\<rparr> (ld_cbObjs l),
            ld_getting := g'\<rparr>"
    "set (okeys g') = set ks \<union> set (okeys (ld_getting l))"
    using addToNextGet_eq [OF assms, of now maxTime ms cb l] by blast
  from g'(3) have "set ks \<subseteq> set (okeys (ld_getting l1))" by (simp add: g'(2))
  moreover have "iget (ld_cbObjs l1) (ld_id l1) =
      Some \<lparr>co_keys = ks, co_cb = cb, co_id = ld_id l1, co_maxSamples = ms\<rparr>"
    by (simp add: g'(2) nobj.get_put)
  ultimately show ?thesis
    using g'(1) arm_timer_deadline [of now "now + maxTime" l1] by (auto simp: app_simps)
qed

theorem addToNextGet_deadline_witness:
  "\<exists>l'. addToNextGet 1000 [''cpu.idle'', ''cpu.user''] 500 600 (7::nat) new_Loader = (Ok (), l') \<and>
     ld_nextEventTime l' \<le> 1500"
  using addToNextGet_deadline [OF inherited_demo, of 1000 500 600 7 new_Loader] by auto

end
