(* ===== verification/Util.thy ===== *)
theory Util
  imports Js_Object
begin

text \<open>
  The small helpers of src/files/graph.js: \<open>htmlescape\<close>, \<open>arrayKeys\<close>, \<open>keys\<close>,
  \<open>arrayRemove\<close>, \<open>arrayFindIndex\<close>, \<open>objDump\<close>, \<open>empty\<close>, \<open>twoDigit\<close> and
  \<open>strftime\<close>. A regular expression that matches one fixed character or one fixed
  two-character code, with the global flag, replaces every occurrence from left to right.
\<close>

section \<open>Escaping\<close>

definition replace_char :: "char \<Rightarrow> string \<Rightarrow> string \<Rightarrow> string" where
  "replace_char c r s = concat (map (\<lambda>x. if x = c then r else [x]) s)"

definition htmlescape :: "string \<Rightarrow> string" where
  "htmlescape s =
     replace_char (CHR 0x0A) (''<br>'' @ [CHR 0x0A])
       (replace_char CHR ''<'' ''&lt;'' (replace_char CHR ''&'' ''&amp;'' s))"

text \<open>The reference: one pass, character by character.\<close>

definition esc_char :: "char \<Rightarrow> string" where
  "esc_char c =
     (if c = CHR ''&'' then ''&amp;'' else if c = CHR ''<'' then ''&lt;''
      else if c = CHR 0x0A then ''<br>'' @ [CHR 0x0A] else [c])"

text \<open>What a browser shows for escaped text: entities and line breaks decoded.\<close>

fun html_text :: "string \<Rightarrow> string" where
  "html_text [] = []"
| "html_text (c # s) =
     (if starts_with ''&amp;'' (c # s) then CHR ''&'' # html_text (drop 4 s)
      else if starts_with ''&lt;'' (c # s) then CHR ''<'' # html_text (drop 3 s)
      else if starts_with (''<br>'' @ [CHR 0x0A]) (c # s) then CHR 0x0A # html_text (drop 4 s)
      else c # html_text s)"

lemma replace_char_Nil [simp]: "replace_char c r [] = []"
  by (simp add: replace_char_def)

lemma replace_char_append: "replace_char c r (s @ t) = replace_char c r s @ replace_char c r t"
  by (simp add: replace_char_def)

lemma htmlescape_Cons: "htmlescape (x # s) = htmlescape [x] @ htmlescape s"
proof -
  have "x # s = [x] @ s" by simp
  then show ?thesis unfolding htmlescape_def by (simp only: replace_char_append)
qed

lemma htmlescape_single: "htmlescape [x] = esc_char x"
  by (simp add: htmlescape_def replace_char_def esc_char_def)

lemma htmlescape_eq: "htmlescape s = concat (map esc_char s)"
  by (induction s)
     (simp add: htmlescape_def, metis htmlescape_Cons htmlescape_single concat.simps(2) list.simps(9))

lemma html_text_esc_char: "html_text (esc_char c @ s) = c # html_text s"
  by (simp add: esc_char_def)

text \<open>Escaping a message for an HTML dialog loses nothing: decoding the entities and line
  breaks of the escaped text gives the message back.\<close>

theorem htmlescape_roundtrip: "html_text (htmlescape s) = s"
  by (induction s) (simp_all add: htmlescape_eq html_text_esc_char)

section \<open>Objects and arrays\<close>

definition arrayKeys :: "'v jsobj \<Rightarrow> string list" where
  "arrayKeys a = sort (okeys a)"

definition keys :: "'v jsobj \<Rightarrow> string list" where
  "keys ob = okeys ob"

text \<open>The loop removes the first equal element and leaves.\<close>

fun arrayRemove :: "'a list \<Rightarrow> 'a \<Rightarrow> 'a list" where
  "arrayRemove [] e = []"
| "arrayRemove (x # xs) e = (if x = e then xs else x # arrayRemove xs e)"

fun arrayFindIndex_from :: "nat \<Rightarrow> 'a list \<Rightarrow> 'a \<Rightarrow> string option" where
  "arrayFindIndex_from k [] e = None"
| "arrayFindIndex_from k (x # xs) e = (if x = e then Some (nat_str k) else arrayFindIndex_from (Suc k) xs e)"

text \<open>The index comes back as the string the loop variable holds, undefined as \<open>None\<close>.\<close>

definition arrayFindIndex :: "'a list \<Rightarrow> 'a \<Rightarrow> string option" where
  "arrayFindIndex a e = arrayFindIndex_from 0 a e"

definition objDump :: "string \<Rightarrow> 'v jsobj \<Rightarrow> string" where
  "objDump typeof_arg arg =
     typeof_arg @ ''{'' @ [CHR 0x0A] @ join_str ('','' @ [CHR 0x0A]) (keys arg) @ [CHR 0x0A] @ ''}''"

definition empty :: "'v jsobj \<Rightarrow> bool" where
  "empty ob \<longleftrightarrow> (case okeys ob of [] \<Rightarrow> True | _ \<Rightarrow> False)"

lemma empty_iff [simp]: "empty ob \<longleftrightarrow> ob = []"
  by (simp add: empty_def split: list.splits) (metis okeys_eq_Nil list.distinct(1))

lemma arrayRemove_eq: "arrayRemove xs e = remove1 e xs"
  by (induction xs) auto

lemma arrayFindIndex_from_Some:
  "arrayFindIndex_from k xs e = Some s \<Longrightarrow> \<exists>i < length xs. s = nat_str (k + i) \<and> xs ! i = e \<and> e \<notin> set (take i xs)"
proof (induction k xs e rule: arrayFindIndex_from.induct)
  case (2 k x xs e)
  show ?case
  proof (cases "x = e")
    case True
    with 2 show ?thesis by (intro exI [of _ 0]) auto
  next
    case False
    with 2 obtain i where "i < length xs" "s = nat_str (Suc k + i)" "xs ! i = e" "e \<notin> set (take i xs)"
      by auto
    with False show ?thesis by (intro exI [of _ "Suc i"]) auto
  qed
qed simp

lemma sorted_arrayKeys: "sorted (arrayKeys a) \<and> set (arrayKeys a) = set (okeys a)"
  by (simp add: arrayKeys_def)

section \<open>Dates as text\<close>

record date_parts =
  dp_year :: nat
  dp_month :: nat
  dp_date :: nat
  dp_day :: nat
  dp_hours :: nat
  dp_minutes :: nat
  dp_seconds :: nat

definition twoDigit :: "int \<Rightarrow> string" where
  "twoDigit v =
     (if v < 0 then ''00''
      else (let w = v mod 100 in if w < 10 then ''0'' @ int_str w else int_str w))"

definition day_names :: "string list" where
  "day_names = [''Sun'', ''Mon'', ''Tue'', ''Wed'', ''Thu'', ''Fri'', ''Sat'']"

definition month_names :: "string list" where
  "month_names = [''Jan'', ''Feb'', ''Mar'', ''Apr'', ''May'', ''Jun'', ''Jul'', ''Aug'', ''Sep'',
     ''Oct'', ''Nov'', ''Dec'']"

text \<open>An index outside the array reads undefined, which the replacement turns into text.\<close>

definition nth_name :: "string list \<Rightarrow> nat \<Rightarrow> string" where
  "nth_name ns i = (if i < length ns then ns ! i else ''undefined'')"

definition strftime_keys :: "date_parts \<Rightarrow> (string \<times> string) list" where
  "strftime_keys d = [
     (''%a'', nth_name day_names (dp_day d)),
     (''%d'', twoDigit (int (dp_date d))),
     (''%e'', nat_str (dp_date d)),
     (''%b'', nth_name month_names (dp_month d)),
     (''%m'', twoDigit (int (dp_month d))),
     (''%y'', twoDigit (int (dp_year d))),
     (''%Y'', nat_str (dp_year d)),
     (''%H'', twoDigit (int (dp_hours d))),
     (''%M'', twoDigit (int (dp_minutes d))),
     (''%S'', twoDigit (int (dp_seconds d)))]"

function replace_all :: "string \<Rightarrow> string \<Rightarrow> string \<Rightarrow> string" where
  "replace_all p r [] = []"
| "replace_all p r (c # s) =
     (if p \<noteq> [] \<and> starts_with p (c # s) then r @ replace_all p r (drop (length p) (c # s))
      else c # replace_all p r s)"
  by pat_completeness auto
termination
  by (relation "measure (\<lambda>(p, r, s). length s)") auto

definition strftime :: "string \<Rightarrow> date_parts \<Rightarrow> string" where
  "strftime fmt d = foldl (\<lambda>f kv. replace_all (fst kv) (snd kv) f) fmt (strftime_keys d)"

lemma twoDigit_length: "length (twoDigit v) = 2"
proof -
  have one: "length (int_str w) = 1" if "0 \<le> w" "w < 10" for w
    using that by (simp add: int_str_def nat_str.simps [of "nat w"])
  have two: "length (int_str w) = 2" if "10 \<le> w" "w < 100" for w
  proof -
    have "nat w div 10 < 10" "\<not> nat w < 10" using that by linarith+
    then show ?thesis
      using that by (simp add: int_str_def nat_str.simps [of "nat w"] nat_str.simps [of "nat w div 10"])
  qed
  show ?thesis
    using one [of "v mod 100"] two [of "v mod 100"] by (simp add: twoDigit_def Let_def)
qed

text \<open>\<open>twoDigit\<close> always gives exactly two characters, and on a number below one hundred
  they are its decimal digits.\<close>

theorem twoDigit_two_chars:
  "length (twoDigit v) = 2 \<and> (0 \<le> v \<and> v < 100 \<longrightarrow> parse_int10 (twoDigit v) = Some v)"
proof -
  have "parse_int10 (CHR ''0'' # nat_str n) = Some (int n)" for n
  proof -
    have "is_digit CHR ''0''" by code_simp
    then have "dropWhile is_space (CHR ''0'' # nat_str n) = CHR ''0'' # nat_str n"
      by (simp add: is_digit_not_space)
    moreover have "digits_val (CHR ''0'' # nat_str n) = digits_val (nat_str n)"
      by (simp add: digits_val_def digit_val_def)
    ultimately show ?thesis
      using \<open>is_digit CHR ''0''\<close> by (simp add: parse_int10_def sign_split_def digits_val_nat_str)
  qed
  then have "0 \<le> v \<and> v < 100 \<longrightarrow> parse_int10 (twoDigit v) = Some v"
    by (auto simp: twoDigit_def int_str_def parse_int10_nat_str)
  with twoDigit_length show ?thesis by blast
qed

theorem twoDigit_two_chars_witness: "parse_int10 (twoDigit 7) = Some 7 \<and> twoDigit 7 = ''07''"
  using twoDigit_two_chars [of 7] by code_simp

text \<open>\<open>strftime\<close> prints the month number \<open>getMonth\<close> returns, which counts from zero,
  so the first of January 2014 comes out with month 00.\<close>

theorem strftime_month_is_zero_based:
  "strftime ''%Y-%m-%d'' \<lparr>dp_year = 2014, dp_month = 0, dp_date = 1, dp_day = 3,
     dp_hours = 0, dp_minutes = 0, dp_seconds = 0\<rparr> = ''2014-00-01''"
  by code_simp

end
