(* ===== verification/Calendar.thy ===== *)
theory Calendar
  imports Util
begin

text \<open>
  Dates and the date prompt of src/files/graph.js: the JavaScript \<open>Date\<close> object in local
  time with the setters \<open>parseDate\<close> uses (each renormalises the whole date, so a day the
  month does not have runs over into the next month), a backtracking matcher for the two
  regular expressions, and \<open>parseDate\<close> itself. Calendar arithmetic is checked against the
  day-number formula of the ECMAScript standard. The time zone is a fixed offset, given as an
  argument where a time value is read.
\<close>

section \<open>Local dates\<close>

text \<open>Months count from 0 and days from 1, as the getters return them; the rest is the
  millisecond of the day.\<close>

record civil =
  c_year :: int
  c_month :: int
  c_day :: int
  c_tod :: int

definition leap :: "int \<Rightarrow> bool" where
  "leap y \<longleftrightarrow> y mod 4 = 0 \<and> y mod 100 \<noteq> 0 \<or> y mod 400 = 0"

definition month_len :: "int \<Rightarrow> int \<Rightarrow> int" where
  "month_len y m =
     (if m = 1 then (if leap y then 29 else 28) else if m \<in> {3, 5, 8, 10} then 30 else 31)"

definition month_start :: "int \<Rightarrow> int \<Rightarrow> int" where
  "month_start y m =
     [0, 31, 59, 90, 120, 151, 181, 212, 243, 273, 304, 334] ! nat m
       + (if leap y \<and> m \<ge> 2 then 1 else 0)"

text \<open>The day number of the standard (\<open>DayFromYear\<close> and \<open>MakeDay\<close>): any month, any day.\<close>

definition day_from_year :: "int \<Rightarrow> int" where
  "day_from_year y =
     365 * (y - 1970) + (y - 1969) div 4 - (y - 1901) div 100 + (y - 1601) div 400"

definition make_day :: "int \<Rightarrow> int \<Rightarrow> int \<Rightarrow> int" where
  "make_day y m d =
     (let ym = y + m div 12; mn = m mod 12 in day_from_year ym + month_start ym mn + d - 1)"

text \<open>Bringing a date back into range, one month at a time.\<close>

definition next_month :: "int \<times> int \<Rightarrow> int \<times> int" where
  "next_month ym = (if snd ym = 11 then (fst ym + 1, 0) else (fst ym, snd ym + 1))"

definition prev_month :: "int \<times> int \<Rightarrow> int \<times> int" where
  "prev_month ym = (if snd ym = 0 then (fst ym - 1, 11) else (fst ym, snd ym - 1))"

lemma month_len_ge: "28 \<le> month_len y m"
  by (simp add: month_len_def)

function norm_day :: "int \<times> int \<Rightarrow> int \<Rightarrow> (int \<times> int) \<times> int" where
  "norm_day ym d =
     (if d < 1 then
        (let p = prev_month ym in norm_day p (d + month_len (fst p) (snd p)))
      else if d > month_len (fst ym) (snd ym) then
        norm_day (next_month ym) (d - month_len (fst ym) (snd ym))
      else (ym, d))"
  by pat_completeness auto
termination
proof (relation "measure (\<lambda>(ym, d). nat (if d < 1 then 64 - d else d))", goal_cases)
  case (2 ym d p)
  then show ?case
    using month_len_ge [of "fst p" "snd p"] by (auto simp: month_len_def)
next
  case (3 ym d)
  then show ?case using month_len_ge [of "fst ym" "snd ym"] by auto
qed simp

declare norm_day.simps [simp del]

definition make_civil :: "int \<Rightarrow> int \<Rightarrow> int \<Rightarrow> int \<Rightarrow> civil" where
  "make_civil y m d tod =
     (case norm_day (y + m div 12, m mod 12) d of
        (ym, d') \<Rightarrow> \<lparr>c_year = fst ym, c_month = snd ym, c_day = d', c_tod = tod\<rparr>)"

section \<open>Setters and time value\<close>

definition setFullYear :: "int \<Rightarrow> civil \<Rightarrow> civil" where
  "setFullYear y c = make_civil y (c_month c) (c_day c) (c_tod c)"

definition setMonth :: "int \<Rightarrow> civil \<Rightarrow> civil" where
  "setMonth m c = make_civil (c_year c) m (c_day c) (c_tod c)"

definition setDate :: "int \<Rightarrow> civil \<Rightarrow> civil" where
  "setDate d c = make_civil (c_year c) (c_month c) d (c_tod c)"

text \<open>\<open>setHours(h, m)\<close> keeps the seconds and milliseconds.\<close>

definition setHours :: "int \<Rightarrow> int \<Rightarrow> civil \<Rightarrow> civil" where
  "setHours h mi c =
     (let t = h * 3600000 + mi * 60000 + c_tod c mod 60000
      in make_civil (c_year c) (c_month c) (c_day c + t div 86400000) (t mod 86400000))"

definition getTime :: "int \<Rightarrow> civil \<Rightarrow> int" where
  "getTime tz c = make_day (c_year c) (c_month c) (c_day c) * 86400000 + c_tod c - tz"

definition civil_ok :: "civil \<Rightarrow> bool" where
  "civil_ok c \<longleftrightarrow> 0 \<le> c_month c \<and> c_month c \<le> 11 \<and> 1 \<le> c_day c \<and>
     c_day c \<le> month_len (c_year c) (c_month c) \<and> 0 \<le> c_tod c \<and> c_tod c < 86400000"

section \<open>Calendar arithmetic\<close>

lemma div_Suc_step:
  assumes "0 < (k :: int)"
  shows "(x + 1) div k = x div k + (if (x + 1) mod k = 0 then 1 else 0)"
proof -
  let ?q = "x div k" and ?r = "x mod k"
  have x: "x = k * ?q + ?r" and r: "0 \<le> ?r" "?r < k" using assms by simp_all
  show ?thesis
  proof (cases "?r = k - 1")
    case True
    with x have "x + 1 = k * (?q + 1) + 0" by (simp add: algebra_simps)
    with assms have "(x + 1) div k = ?q + 1" "(x + 1) mod k = 0"
      by (metis int_div_pos_eq order_refl, metis int_mod_pos_eq order_refl)
    then show ?thesis by simp
  next
    case False
    with r have r': "0 \<le> ?r + 1" "?r + 1 < k" "?r + 1 \<noteq> 0" by auto
    from x have "x + 1 = k * ?q + (?r + 1)" by simp
    with r' have "(x + 1) div k = ?q" "(x + 1) mod k = ?r + 1"
      by (metis int_div_pos_eq, metis int_mod_pos_eq)
    with r' show ?thesis by simp
  qed
qed

lemma leap_alt: "leap y \<longleftrightarrow> 4 dvd y \<and> \<not> 100 dvd y \<or> 400 dvd y"
  by (simp add: leap_def mod_eq_0_iff_dvd)

lemma day_from_year_Suc: "day_from_year (y + 1) = day_from_year y + (if leap y then 366 else 365)"
proof -
  have step: "(y - c + 1) div k = (y - c) div k + (if k dvd y then 1 else 0)"
    if "0 < k" "k dvd (c - 1)" for k c
  proof -
    have "k dvd (y - c + 1) \<longleftrightarrow> k dvd y"
      using dvd_add_left_iff [OF that(2), of "y - c + 1"] by (simp add: algebra_simps)
    with div_Suc_step [OF that(1), of "y - c"] show ?thesis
      by (simp add: mod_eq_0_iff_dvd)
  qed
  have "400 dvd y \<Longrightarrow> 100 dvd y" "100 dvd y \<Longrightarrow> 4 dvd y"
    using dvd_trans [of "100 :: int" 400 y] dvd_trans [of "4 :: int" 100 y] by simp_all
  then have d: "(if leap y then 366 else 365 :: int) =
      365 + (if 4 dvd y then 1 else 0) - (if 100 dvd y then 1 else 0) + (if 400 dvd y then 1 else 0)"
    unfolding leap_alt by presburger
  have sh: "y + 1 - 1970 = y - 1970 + 1" "y + 1 - 1969 = y - 1969 + 1" "y + 1 - 1901 = y - 1901 + 1"
    "y + 1 - 1601 = y - 1601 + 1" by simp_all
  have gen: "365 * (p + 1) + (A + a) - (B + b) + (C + c) = 365 * p + A - B + C + (365 + a - b + c)"
    for p A B C a b c :: int by simp
  have s: "(y - 1969 + 1) div 4 = (y - 1969) div 4 + (if 4 dvd y then 1 else 0)"
    "(y - 1901 + 1) div 100 = (y - 1901) div 100 + (if 100 dvd y then 1 else 0)"
    "(y - 1601 + 1) div 400 = (y - 1601) div 400 + (if 400 dvd y then 1 else 0)"
    by (rule step; simp)+
  show ?thesis unfolding d day_from_year_def sh s by (rule gen)
qed

lemma month_cases:
  assumes "0 \<le> (m :: int)" "m \<le> 11"
  obtains "m = 0" | "m = 1" | "m = 2" | "m = 3" | "m = 4" | "m = 5"
    | "m = 6" | "m = 7" | "m = 8" | "m = 9" | "m = 10" | "m = 11"
proof -
  have "m \<in> set (map int [0..<12])"
    using assms by (simp only: set_map set_upt) (auto intro: image_eqI [of _ _ "nat m"])
  moreover have "map int [0..<12] = [0, 1, 2, 3, 4, 5, 6, 7, 8, 9, 10, 11]" by code_simp
  ultimately have "m \<in> {0, 1, 2, 3, 4, 5, 6, 7, 8, 9, 10, 11}" by simp
  then show ?thesis using that by blast
qed

lemma month_start_Suc:
  assumes "0 \<le> m" "m < 11"
  shows "month_start y (m + 1) = month_start y m + month_len y m"
proof -
  have "0 \<le> m" "m \<le> 11" using assms by auto
  then show ?thesis using assms
    by (cases rule: month_cases) (simp_all add: month_start_def month_len_def)
qed

lemma make_day_in:
  "0 \<le> m \<Longrightarrow> m \<le> 11 \<Longrightarrow> make_day y m d = day_from_year y + month_start y m + d - 1"
  by (simp add: make_day_def Let_def)

lemma month_range_step:
  "0 \<le> snd ym \<Longrightarrow> snd ym \<le> 11 \<Longrightarrow> 0 \<le> snd (next_month ym) \<and> snd (next_month ym) \<le> 11"
  "0 \<le> snd ym \<Longrightarrow> snd ym \<le> 11 \<Longrightarrow> 0 \<le> snd (prev_month ym) \<and> snd (prev_month ym) \<le> 11"
  by (auto simp: next_month_def prev_month_def)

lemma make_day_next_month:
  assumes "0 \<le> snd ym" "snd ym \<le> 11"
  shows "make_day (fst (next_month ym)) (snd (next_month ym)) d =
    make_day (fst ym) (snd ym) (d + month_len (fst ym) (snd ym))"
proof (cases "snd ym = 11")
  case True
  have "make_day (fst ym + 1) 0 d = make_day (fst ym) 11 (d + 31)"
    by (simp add: make_day_in day_from_year_Suc month_start_def)
  with True show ?thesis by (simp add: next_month_def month_len_def)
next
  case False
  with assms show ?thesis
    using month_start_Suc [of "snd ym" "fst ym"] by (simp add: next_month_def make_day_in)
qed

lemma next_prev_month:
  "0 \<le> snd ym \<Longrightarrow> snd ym \<le> 11 \<Longrightarrow> next_month (prev_month ym) = ym"
  by (cases ym) (auto simp: next_month_def prev_month_def)

lemma norm_day_correct:
  assumes "0 \<le> snd ym" "snd ym \<le> 11" and "norm_day ym d = (ym', d')"
  shows "0 \<le> snd ym' \<and> snd ym' \<le> 11 \<and> 1 \<le> d' \<and> d' \<le> month_len (fst ym') (snd ym') \<and>
     make_day (fst ym') (snd ym') d' = make_day (fst ym) (snd ym) d"
  using assms
proof (induction ym d rule: norm_day.induct)
  case (1 ym d)
  consider "d < 1" | "1 \<le> d" "d > month_len (fst ym) (snd ym)"
    | "1 \<le> d" "d \<le> month_len (fst ym) (snd ym)" by linarith
  then show ?case
  proof cases
    case 1
    let ?p = "prev_month ym"
    have eq: "norm_day ?p (d + month_len (fst ?p) (snd ?p)) = (ym', d')"
      using "1.prems"(3) 1 by (simp add: norm_day.simps [of ym d] Let_def)
    have r: "0 \<le> snd ?p" "snd ?p \<le> 11" using month_range_step "1.prems" by auto
    have "make_day (fst ym) (snd ym) d = make_day (fst ?p) (snd ?p) (d + month_len (fst ?p) (snd ?p))"
      using make_day_next_month [OF r, of d] next_prev_month "1.prems" by simp
    with "1.IH"(1) [OF 1 refl r eq] show ?thesis by simp
  next
    case 2
    then have eq: "norm_day (next_month ym) (d - month_len (fst ym) (snd ym)) = (ym', d')"
      using "1.prems"(3) by (simp add: norm_day.simps [of ym d])
    have r: "0 \<le> snd (next_month ym)" "snd (next_month ym) \<le> 11" using month_range_step "1.prems" by auto
    show ?thesis
      using "1.IH"(2) [OF _ 2(2) r eq] 2 make_day_next_month [OF "1.prems"(1,2)] by simp
  next
    case 3
    with "1.prems" show ?thesis by (auto simp: norm_day.simps [of ym d])
  qed
qed

lemma make_civil_ok:
  assumes "0 \<le> tod" "tod < 86400000"
  shows "civil_ok (make_civil y m d tod) \<and>
     make_day (c_year (make_civil y m d tod)) (c_month (make_civil y m d tod)) (c_day (make_civil y m d tod))
       = make_day y m d \<and> c_tod (make_civil y m d tod) = tod"
proof -
  obtain ym' d' where eq: "norm_day (y + m div 12, m mod 12) d = (ym', d')" by fastforce
  have "make_day (y + m div 12) (m mod 12) d = make_day y m d"
    by (simp add: make_day_def Let_def)
  with norm_day_correct [OF _ _ eq] assms show ?thesis
    by (auto simp: make_civil_def eq civil_ok_def)
qed

lemma make_civil_id:
  "0 \<le> m \<Longrightarrow> m \<le> 11 \<Longrightarrow> 1 \<le> d \<Longrightarrow> d \<le> month_len y m \<Longrightarrow>
   make_civil y m d tod = \<lparr>c_year = y, c_month = m, c_day = d, c_tod = tod\<rparr>"
  by (simp add: make_civil_def norm_day.simps)

section \<open>Regular expressions\<close>

text \<open>
  The two expressions of \<open>parseDate\<close> are sequences of single characters from a class,
  optional ones and repeated ones, some of them inside a capture group (the number). The
  matcher is the backtracking search of the standard: greedy first, and it must reach the end
  of the input.
\<close>

datatype rx =
    One "char \<Rightarrow> bool" "nat option"
  | Opt "char \<Rightarrow> bool" "nat option"
  | Many "char \<Rightarrow> bool"

definition tag :: "nat option \<Rightarrow> char \<Rightarrow> (nat \<times> char) list option \<Rightarrow> (nat \<times> char) list option" where
  "tag g x r = (case r of None \<Rightarrow> None | Some cs \<Rightarrow> Some (case g of None \<Rightarrow> cs | Some i \<Rightarrow> (i, x) # cs))"

fun rx_match :: "rx list \<Rightarrow> string \<Rightarrow> (nat \<times> char) list option" where
  "rx_match [] s = (if s = [] then Some [] else None)"
| "rx_match (One p g # r) s =
     (case s of [] \<Rightarrow> None | x # xs \<Rightarrow> if p x then tag g x (rx_match r xs) else None)"
| "rx_match (Opt p g # r) s =
     (case s of
        [] \<Rightarrow> rx_match r s
      | x # xs \<Rightarrow>
          (if p x then (case tag g x (rx_match r xs) of Some cs \<Rightarrow> Some cs | None \<Rightarrow> rx_match r s)
           else rx_match r s))"
| "rx_match (Many p # r) s =
     (case s of
        [] \<Rightarrow> rx_match r s
      | x # xs \<Rightarrow>
          (if p x then (case rx_match (Many p # r) xs of Some cs \<Rightarrow> Some cs | None \<Rightarrow> rx_match r s)
           else rx_match r s))"

definition capture :: "nat \<Rightarrow> (nat \<times> char) list \<Rightarrow> string" where
  "capture i cs = map snd (filter (\<lambda>p. fst p = i) cs)"

definition blank :: "char \<Rightarrow> bool" where
  "blank c \<longleftrightarrow> c = CHR '' ''"

definition month_rx :: "rx list" where
  "month_rx = [Opt (\<lambda>c. c = CHR ''0'') None, Opt (\<lambda>c. c = CHR ''1'') (Some 2), One is_digit (Some 2)]"

definition day_rx :: "rx list" where
  "day_rx = [Opt (\<lambda>c. c = CHR ''0'') None,
     Opt (\<lambda>c. c \<in> {CHR ''1'', CHR ''2'', CHR ''3''}) (Some 3), One is_digit (Some 3)]"

definition year_rx :: "rx list" where
  "year_rx = [Many blank, One (\<lambda>c. c = CHR ''2'') (Some 1), One (\<lambda>c. c = CHR ''0'') (Some 1),
     One is_digit (Some 1), One is_digit (Some 1)]"

definition time_rx :: "rx list" where
  "time_rx = [One blank None, Many blank,
     One (\<lambda>c. c \<in> {CHR ''0'', CHR ''1'', CHR ''2''}) (Some 4), One is_digit (Some 4),
     One (\<lambda>c. c = CHR '':'') None,
     One (\<lambda>c. c \<in> {CHR ''0'', CHR ''1'', CHR ''2'', CHR ''3'', CHR ''4'', CHR ''5''}) (Some 5),
     One is_digit (Some 5), Many blank]"

definition dash :: rx where
  "dash = One (\<lambda>c. c = CHR ''-'') None"

definition date_rx :: "rx list" where
  "date_rx = year_rx @ [dash] @ month_rx @ [dash] @ day_rx"

text \<open>The number in a capture group; the group holds digits only, so it is never NaN.\<close>

definition cap_num :: "nat \<Rightarrow> (nat \<times> char) list \<Rightarrow> int" where
  "cap_num i cs = (case parse_int10 (capture i cs) of None \<Rightarrow> 0 | Some n \<Rightarrow> n)"

definition set_ymd :: "(nat \<times> char) list \<Rightarrow> civil \<Rightarrow> civil" where
  "set_ymd cs ret = setDate (cap_num 3 cs) (setMonth (cap_num 2 cs - 1) (setFullYear (cap_num 1 cs) ret))"

text \<open>\<open>None\<close> is the result false. The first argument is the current local date.\<close>

definition parseDate :: "civil \<Rightarrow> string \<Rightarrow> civil option" where
  "parseDate now x =
     (if x = [] then None
      else (case rx_match (date_rx @ time_rx) x of
              Some cs \<Rightarrow> Some (setHours (cap_num 4 cs) (cap_num 5 cs) (set_ymd cs now))
            | None \<Rightarrow>
                (case rx_match (date_rx @ [Many blank]) x of
                   Some cs \<Rightarrow> Some (set_ymd cs now)
                 | None \<Rightarrow> None)))"

section \<open>Parsing what the prompt asks for\<close>

definition date_text :: "int \<Rightarrow> int \<Rightarrow> int \<Rightarrow> string" where
  "date_text y m d = ''20'' @ twoDigit (y mod 100) @ ''-'' @ twoDigit m @ ''-'' @ twoDigit d"

definition datetime_text :: "int \<Rightarrow> int \<Rightarrow> int \<Rightarrow> int \<Rightarrow> int \<Rightarrow> string" where
  "datetime_text y m d h mi = date_text y m d @ '' '' @ twoDigit h @ '':'' @ twoDigit mi"

lemma digit_chr_numeral [simp]:
  "digit_chr 0 = CHR ''0''" "digit_chr (Suc 0) = CHR ''1''" "digit_chr 1 = CHR ''1''"
  "digit_chr 2 = CHR ''2''" "digit_chr 3 = CHR ''3''" "digit_chr 4 = CHR ''4''" "digit_chr 5 = CHR ''5''"
  "digit_chr 6 = CHR ''6''" "digit_chr 7 = CHR ''7''" "digit_chr 8 = CHR ''8''" "digit_chr 9 = CHR ''9''"
  by code_simp+

lemma twoDigit_digits:
  assumes "0 \<le> v" "v < 100"
  shows "twoDigit v = [digit_chr (nat v div 10), digit_chr (nat v mod 10)]"
proof (cases "v < 10")
  case True
  then have "nat v div 10 = 0" "nat v mod 10 = nat v" using assms by simp_all
  with True assms show ?thesis
    by (simp add: twoDigit_def int_str_def nat_str.simps [of "nat v"])
next
  case False
  then have "nat v div 10 < 10" "\<not> nat v < 10" using assms by linarith+
  with False assms show ?thesis
    by (simp add: twoDigit_def int_str_def nat_str.simps [of "nat v"] nat_str.simps [of "nat v div 10"])
qed

lemma capture_Cons [simp]:
  "capture i ((j, x) # cs) = (if i = j then x # capture i cs else capture i cs)" "capture i [] = []"
  by (simp_all add: capture_def)

lemma tag_simps [simp]:
  "tag g x None = None" "tag None x (Some cs) = Some cs" "tag (Some i) x (Some cs) = Some ((i, x) # cs)"
  by (simp_all add: tag_def)

lemma below_hundred:
  assumes "0 \<le> v" "v < 100"
  obtains a b where "a < 10" "b < 10" "nat v div 10 = a" "nat v mod 10 = b" "v = int (10 * a + b)"
proof
  show "nat v div 10 < 10" using assms by linarith
  show "v = int (10 * (nat v div 10) + nat v mod 10)" using assms by simp
qed auto

lemma rx_year:
  assumes "0 \<le> v" "v < 100"
  shows "rx_match (year_rx @ r) (''20'' @ twoDigit v @ s) =
    map_option (\<lambda>cs. map (Pair 1) (''20'' @ twoDigit v) @ cs) (rx_match r s)"
proof -
  obtain a b where "a < 10" "b < 10" "nat v div 10 = a" "nat v mod 10 = b"
    using below_hundred assms by blast
  then show ?thesis
    using assms by (cases "rx_match r s") (simp_all add: year_rx_def twoDigit_digits blank_def)
qed

lemma rx_dash: "rx_match (dash # r) (CHR ''-'' # s) = rx_match r s"
  by (cases "rx_match r s") (simp_all add: dash_def)

lemma int_range_cases:
  assumes "int a \<le> v" "v < int b"
  shows "v \<in> set (map int [a..<b])"
  using assms by (simp only: set_map set_upt) (rule image_eqI [of _ _ "nat v"], auto)

lemma month_list: "map int [1..<13] = [1, 2, 3, 4, 5, 6, 7, 8, 9, 10, 11, 12]"
  by code_simp

lemma rx_month:
  assumes "1 \<le> m" "m \<le> 12"
  shows "rx_match (month_rx @ dash # r) (twoDigit m @ CHR ''-'' # s) =
    map_option (\<lambda>cs. map (Pair 2) (nat_str (nat m)) @ cs) (rx_match r s)"
proof -
  have "m \<in> {1, 2, 3, 4, 5, 6, 7, 8, 9, 10, 11, 12}"
    using assms int_range_cases [of 1 m 13] unfolding month_list by simp
  then show ?thesis
    by (elim insertE emptyE; cases "rx_match r s";
        simp add: month_rx_def twoDigit_digits nat_str.simps dash_def is_digit_def)
qed

lemma day_list:
  "map int [1..<32] = [1, 2, 3, 4, 5, 6, 7, 8, 9, 10, 11, 12, 13, 14, 15, 16, 17, 18, 19, 20, 21, 22, 23,
     24, 25, 26, 27, 28, 29, 30, 31]"
  by code_simp

lemma day_cases:
  assumes "1 \<le> (d :: int)" "d \<le> 31"
  shows "d \<in> {1, 2, 3, 4, 5, 6, 7, 8, 9, 10, 11, 12, 13, 14, 15, 16, 17, 18, 19, 20, 21, 22, 23,
     24, 25, 26, 27, 28, 29, 30, 31}"
  using assms int_range_cases [of 1 d 32] unfolding day_list by simp

lemma rx_day:
  assumes "1 \<le> d" "d \<le> 31"
  shows "rx_match (day_rx @ One blank None # r) (twoDigit d @ CHR '' '' # s) =
    map_option (\<lambda>cs. map (Pair 3) (nat_str (nat d)) @ cs) (rx_match r s)"
  using day_cases [OF assms]
  by (elim insertE emptyE; cases "rx_match r s";
      simp add: day_rx_def twoDigit_digits nat_str.simps blank_def is_digit_def)

lemma rx_day_end:
  assumes "1 \<le> d" "d \<le> 31"
  shows "rx_match (day_rx @ [Many blank]) (twoDigit d) = Some (map (Pair 3) (nat_str (nat d))) \<and>
    rx_match (day_rx @ One blank None # r) (twoDigit d) = None"
  using day_cases [OF assms]
  by (elim insertE emptyE; simp add: day_rx_def twoDigit_digits nat_str.simps blank_def is_digit_def)

lemma rx_time:
  assumes "0 \<le> h" "h \<le> 23" "0 \<le> mi" "mi \<le> 59"
  shows "rx_match (tl time_rx) (twoDigit h @ CHR '':'' # twoDigit mi) =
    Some (map (Pair 4) (twoDigit h) @ map (Pair 5) (twoDigit mi))"
proof -
  obtain a b where ab: "a < 10" "b < 10" "nat h div 10 = a" "nat h mod 10 = b" "h = int (10 * a + b)"
    by (rule below_hundred [of h]) (use assms in auto)
  obtain c e where ce: "c < 10" "e < 10" "nat mi div 10 = c" "nat mi mod 10 = e" "mi = int (10 * c + e)"
    by (rule below_hundred [of mi]) (use assms in auto)
  have a: "a = 0 \<or> a = 1 \<or> a = 2" using ab assms by linarith
  have c: "c = 0 \<or> c = 1 \<or> c = 2 \<or> c = 3 \<or> c = 4 \<or> c = 5" using ce assms by linarith
  have th: "twoDigit h = [digit_chr a, digit_chr b]" "twoDigit mi = [digit_chr c, digit_chr e]"
    using ab ce assms by (simp_all add: twoDigit_digits)
  from a have "digit_chr a \<in> {CHR ''0'', CHR ''1'', CHR ''2''} \<and> \<not> blank (digit_chr a)"
    by (auto simp: blank_def)
  moreover from c have "digit_chr c \<in> {CHR ''0'', CHR ''1'', CHR ''2'', CHR ''3'', CHR ''4'', CHR ''5''}"
    by (elim disjE) simp_all
  ultimately show ?thesis
    using ab(2) ce(2) by (simp add: th time_rx_def)
qed

lemma time_rx_split: "time_rx = One blank None # tl time_rx"
  by (simp add: time_rx_def)

lemma capture_append: "capture i (xs @ ys) = capture i xs @ capture i ys"
  by (simp add: capture_def)

lemma capture_Pair: "capture i (map (Pair j) s) = (if i = j then s else [])"
  by (induction s) (simp_all split: if_splits)

lemma parse_twoDigit:
  assumes "0 \<le> v" "v < 100"
  shows "parse_int10 (twoDigit v) = Some v"
    and "parse_int10 (''20'' @ twoDigit v) = Some (2000 + v)"
proof -
  obtain a b where ab: "a < 10" "b < 10" "nat v div 10 = a" "nat v mod 10 = b" "v = int (10 * a + b)"
    by (rule below_hundred [OF assms])
  have t: "twoDigit v = [digit_chr a, digit_chr b]" using ab assms by (simp add: twoDigit_digits)
  have d: "is_digit (digit_chr a)" "is_digit (digit_chr b)" "is_digit CHR ''2''" "is_digit CHR ''0''"
    using ab(1,2) by simp_all (simp_all add: is_digit_def)
  have z: "digit_val CHR ''2'' = 2" "digit_val CHR ''0'' = 0" by (simp_all add: digit_val_def)
  have "parse_int10 [digit_chr a, digit_chr b] = Some (int (10 * a + b))"
    using ab(1,2) d by (simp add: parse_int10_def sign_split_def is_digit_not_space is_digit_neq digits_val_def)
  with t ab(5) show "parse_int10 (twoDigit v) = Some v" by metis
  have "parse_int10 (''20'' @ [digit_chr a, digit_chr b]) = Some (2000 + int (10 * a + b))"
    using ab(1,2) d z by (simp add: parse_int10_def sign_split_def is_digit_not_space digits_val_def)
  with t ab(5) show "parse_int10 (''20'' @ twoDigit v) = Some (2000 + v)" by metis
qed

lemma rx_date_time:
  assumes "2000 \<le> y" "y \<le> 2099" "1 \<le> m" "m \<le> 12" "1 \<le> d" "d \<le> 31"
    "0 \<le> h" "h \<le> 23" "0 \<le> mi" "mi \<le> 59"
  shows "\<exists>cs. rx_match (date_rx @ time_rx) (datetime_text y m d h mi) = Some cs \<and>
     cap_num 1 cs = y \<and> cap_num 2 cs = m \<and> cap_num 3 cs = d \<and> cap_num 4 cs = h \<and> cap_num 5 cs = mi"
proof -
  define v where "v = y mod 100"
  have v: "0 \<le> v" "v < 100" "y = 2000 + v" using assms unfolding v_def by presburger+
  let ?cs = "map (Pair 1) (''20'' @ twoDigit v) @ map (Pair 2) (nat_str (nat m)) @ map (Pair 3) (nat_str (nat d)) @
      map (Pair 4) (twoDigit h) @ map (Pair 5) (twoDigit mi)"
  have "rx_match (date_rx @ time_rx) (datetime_text y m d h mi) = Some ?cs"
    unfolding date_rx_def datetime_text_def date_text_def v_def [symmetric]
    using v assms rx_time [OF assms(7-10)]
    by (subst time_rx_split) (simp add: rx_year [simplified] rx_dash rx_month rx_day)
  moreover have "cap_num 1 ?cs = y \<and> cap_num 2 ?cs = m \<and> cap_num 3 ?cs = d \<and> cap_num 4 ?cs = h \<and> cap_num 5 ?cs = mi"
    unfolding cap_num_def capture_append capture_Pair
    using v assms by (simp add: parse_twoDigit [simplified] parse_int10_nat_str)
  ultimately show ?thesis by blast
qed

lemma rx_date_only:
  assumes "2000 \<le> y" "y \<le> 2099" "1 \<le> m" "m \<le> 12" "1 \<le> d" "d \<le> 31"
  shows "\<exists>cs. rx_match (date_rx @ [Many blank]) (date_text y m d) = Some cs \<and>
     rx_match (date_rx @ time_rx) (date_text y m d) = None \<and>
     cap_num 1 cs = y \<and> cap_num 2 cs = m \<and> cap_num 3 cs = d"
proof -
  define v where "v = y mod 100"
  have v: "0 \<le> v" "v < 100" "y = 2000 + v" using assms unfolding v_def by presburger+
  let ?cs = "map (Pair 1) (''20'' @ twoDigit v) @ map (Pair 2) (nat_str (nat m)) @ map (Pair 3) (nat_str (nat d))"
  have "rx_match (date_rx @ [Many blank]) (date_text y m d) = Some ?cs"
    unfolding date_rx_def date_text_def v_def [symmetric]
    using v assms rx_day_end [OF assms(5,6)]
    by (simp add: rx_year [simplified] rx_dash rx_month)
  moreover have "rx_match (date_rx @ time_rx) (date_text y m d) = None"
    unfolding date_rx_def date_text_def v_def [symmetric]
    using v assms rx_day_end [OF assms(5,6)]
    by (subst time_rx_split) (simp add: rx_year [simplified] rx_dash rx_month)
  moreover have "cap_num 1 ?cs = y \<and> cap_num 2 ?cs = m \<and> cap_num 3 ?cs = d"
    unfolding cap_num_def capture_append capture_Pair
    using v assms by (simp add: parse_twoDigit [simplified] parse_int10_nat_str)
  ultimately show ?thesis by blast
qed

lemma date_text_nonempty: "date_text y m d \<noteq> []" "datetime_text y m d h mi \<noteq> []"
  by (simp_all add: date_text_def datetime_text_def)

lemma set_ymd_ok: "civil_ok c \<Longrightarrow> civil_ok (set_ymd cs c) \<and> c_tod (set_ymd cs c) = c_tod c"
  using make_civil_ok by (simp add: set_ymd_def setDate_def setMonth_def setFullYear_def civil_ok_def)

lemma setHours_ok: "civil_ok (setHours h mi c)"
  using make_civil_ok by (simp add: setHours_def Let_def)

lemma set_ymd_plain:
  assumes "civil_ok now" "c_day now \<le> 28" and m: "1 \<le> cap_num 2 cs" "cap_num 2 cs \<le> 12"
    and d: "1 \<le> cap_num 3 cs" "cap_num 3 cs \<le> month_len (cap_num 1 cs) (cap_num 2 cs - 1)"
  shows "set_ymd cs now = \<lparr>c_year = cap_num 1 cs, c_month = cap_num 2 cs - 1, c_day = cap_num 3 cs, c_tod = c_tod now\<rparr>"
proof -
  have le: "c_day now \<le> month_len a b" for a b using assms(2) month_len_ge [of a b] by linarith
  from assms(1) have now: "0 \<le> c_month now" "c_month now \<le> 11" "1 \<le> c_day now" by (simp_all add: civil_ok_def)
  show ?thesis using m d le now by (simp add: set_ymd_def setDate_def setMonth_def setFullYear_def make_civil_id)
qed

section \<open>Properties of the date prompt\<close>


definition demo_now :: civil where
  "demo_now = \<lparr>c_year = 2014, c_month = 5, c_day = 20, c_tod = 45296789\<rparr>"


text \<open>The setters are applied to today's date one after the other, so when today's day does not
  exist in the requested month the month runs over: the prompt then answers with the
  requested day of the FOLLOWING month.\<close>

theorem parseDate_month_overflow:
  assumes "civil_ok now" "c_day now \<le> month_len y (c_month now)" "month_len y (m - 1) < c_day now"
    and y: "2000 \<le> y" "y \<le> 2099" and m: "1 \<le> m" "m \<le> 12" and d: "1 \<le> d" "d \<le> 28"
  shows "parseDate now (date_text y m d) =
     Some \<lparr>c_year = y, c_month = m, c_day = d, c_tod = c_tod now\<rparr>"
proof -
  have d31: "d \<le> 31" using d by simp
  obtain cs where cs: "rx_match (date_rx @ [Many blank]) (date_text y m d) = Some cs"
    "rx_match (date_rx @ time_rx) (date_text y m d) = None"
    "cap_num 1 cs = y" "cap_num 2 cs = m" "cap_num 3 cs = d"
    using rx_date_only [OF y m d(1) d31] by blast
  from assms(1) have now: "0 \<le> c_month now" "c_month now \<le> 11" "1 \<le> c_day now" "c_day now \<le> 31"
    by (auto simp: civil_ok_def month_len_def split: if_splits)
  have m11: "m \<le> 11"
    using assms(3) m now by (cases "m = 12") (auto simp: month_len_def)
  let ?d = "c_day now - month_len y (m - 1)"
  have dd: "1 \<le> ?d" "?d \<le> month_len y m"
    using assms(3) now month_len_ge [of y "m - 1"] month_len_ge [of y m] by linarith+
  have "norm_day (y, m - 1) (c_day now) = ((y, m), ?d)"
    using m m11 now assms(3) dd
    by (simp add: norm_day.simps [of "(y, m - 1)"] norm_day.simps [of "(y, m)"] next_month_def)
  then have "make_civil y (m - 1) (c_day now) (c_tod now) = \<lparr>c_year = y, c_month = m, c_day = ?d, c_tod = c_tod now\<rparr>"
    using m m11 by (simp add: make_civil_def)
  moreover have "d \<le> month_len y m" using d month_len_ge [of y m] by linarith
  ultimately show ?thesis
    using cs m m11 d now assms(2)
    by (simp add: parseDate_def date_text_nonempty set_ymd_def setDate_def setMonth_def setFullYear_def make_civil_id)
qed

theorem parseDate_month_overflow_witness:
  "parseDate \<lparr>c_year = 2014, c_month = 0, c_day = 31, c_tod = 0\<rparr> ''2014-02-10'' =
     Some \<lparr>c_year = 2014, c_month = 2, c_day = 10, c_tod = 0\<rparr>"
proof -
  let ?now = "\<lparr>c_year = 2014, c_month = 0, c_day = 31, c_tod = 0\<rparr>"
  have "civil_ok ?now" "c_day ?now \<le> month_len 2014 (c_month ?now)" "month_len 2014 (2 - 1) < c_day ?now"
    by code_simp+
  moreover have "date_text 2014 2 10 = ''2014-02-10''" by code_simp
  ultimately show ?thesis using parseDate_month_overflow [of ?now 2014 2 10] by simp
qed



end
