(* ===== verification/Ui.thy ===== *)
theory Ui
  imports Util
begin

text \<open>
  Error handling, dialogs and the progress bar of src/files/graph.js: \<open>guard\<close>,
  \<open>errorDialog\<close>, \<open>promptDialog\<close>, \<open>choiceDialog\<close>, \<open>promptDialogN\<close> and \<open>begin\<close>
  with the closure it returns. The state is a record that later theories extend, so every
  operation here works on the whole application state. The DOM is represented by what the
  code keeps in it: the chunks shown in the one error box, the one prompt dialog, the
  visibility of the progress bar and the queue of its animations.
\<close>

section \<open>State\<close>

text \<open>An animation of the bar and what its completion callback does.\<close>

datatype anim = GrowHalf | GrowFull nat | ShrinkZero

datatype prompt =
    Prompt string
  | Choice string "(string \<times> string) list"
  | PromptN string "(string \<times> string) list"
  | XrefSelect string

record ui =
  ui_nesting :: nat
  ui_barVisible :: bool
  ui_fx :: "anim list"
  ui_nullProgress :: "nat list"
  ui_handles :: nat
  ui_error :: "string list option"
  ui_prompt :: "(nat \<times> prompt) option"
  ui_prompts :: nat

section \<open>Errors\<close>

text \<open>A second error is appended to the box that is already shown.\<close>

definition errorDialog :: "string \<Rightarrow> 'z ui_scheme \<Rightarrow> 'z ui_scheme" where
  "errorDialog str s =
     s\<lparr>ui_error := Some ((case ui_error s of None \<Rightarrow> [] | Some ms \<Rightarrow> ms) @ [htmlescape str]),
       ui_nesting := 0,
       ui_fx := ui_fx s @ [ShrinkZero]\<rparr>"

definition close_error :: "'z ui_scheme \<Rightarrow> 'z ui_scheme" where
  "close_error s = s\<lparr>ui_error := None\<rparr>"

definition guard_message :: "string \<Rightarrow> js_error \<Rightarrow> string \<Rightarrow> string" where
  "guard_message fname e stack =
     ''Error in '' @ fname @ '':'' @ [CHR 0x0A] @ error_message e @ [CHR 0x0A, CHR 0x0A] @ stack"

text \<open>
  \<open>guard(f)\<close>: the wrapped function returns what \<open>f\<close> returns, or undefined after
  showing the error. The text of the stack trace is an argument.
\<close>

definition guard ::
  "string \<Rightarrow> string \<Rightarrow> ('z ui_scheme \<Rightarrow> 'a outcome \<times> 'z ui_scheme) \<Rightarrow> 'z ui_scheme \<Rightarrow> 'a option \<times> 'z ui_scheme"
where
  "guard fname stack f s =
     (case f s of
        (Ok x, s') \<Rightarrow> (Some x, s')
      | (Throw e, s') \<Rightarrow> (None, errorDialog (guard_message fname e stack) s'))"

section \<open>Dialogs\<close>

text \<open>Opening a dialog detaches the one that is shown; each has an identity of its own.\<close>

definition open_prompt :: "prompt \<Rightarrow> 'z ui_scheme \<Rightarrow> nat \<times> 'z ui_scheme" where
  "open_prompt p s =
     (ui_prompts s, s\<lparr>ui_prompt := Some (ui_prompts s, p), ui_prompts := Suc (ui_prompts s)\<rparr>)"

definition remove_prompt :: "nat \<Rightarrow> 'z ui_scheme \<Rightarrow> 'z ui_scheme" where
  "remove_prompt i s =
     (case ui_prompt s of
        None \<Rightarrow> s
      | Some (j, p) \<Rightarrow> (if i = j then s\<lparr>ui_prompt := None\<rparr> else s))"

definition promptDialog :: "string \<Rightarrow> 'z ui_scheme \<Rightarrow> nat \<times> 'z ui_scheme" where
  "promptDialog prmp s = open_prompt (Prompt (htmlescape prmp)) s"

definition choiceDialog :: "string \<Rightarrow> (string \<times> string) list \<Rightarrow> 'z ui_scheme \<Rightarrow> nat \<times> 'z ui_scheme" where
  "choiceDialog txt options s =
     open_prompt (Choice (htmlescape txt) (map (\<lambda>(k, v). (k, htmlescape v)) options)) s"

definition promptDialogN :: "string \<Rightarrow> (string \<times> string) list \<Rightarrow> 'z ui_scheme \<Rightarrow> nat \<times> 'z ui_scheme" where
  "promptDialogN prmp flds s = open_prompt (PromptN (htmlescape prmp) flds) s"

text \<open>
  The OK handlers. The callback of a prompt keeps the dialog open by returning false
  (undefined, the value \<open>None\<close>, closes it); the choice dialog always closes. A callback that
  throws leaves the dialog open, and the guard reports the error.
\<close>

definition prompt_handler ::
  "nat \<Rightarrow> ('v \<Rightarrow> 'z ui_scheme \<Rightarrow> bool option outcome \<times> 'z ui_scheme) \<Rightarrow> 'v \<Rightarrow>
   'z ui_scheme \<Rightarrow> unit outcome \<times> 'z ui_scheme"
where
  "prompt_handler i cb v s =
     (case cb v s of
        (Throw e, s') \<Rightarrow> (Throw e, s')
      | (Ok r, s') \<Rightarrow> (Ok (), if r \<noteq> Some False then remove_prompt i s' else s'))"

definition choice_handler ::
  "nat \<Rightarrow> (string \<Rightarrow> 'z ui_scheme \<Rightarrow> unit outcome \<times> 'z ui_scheme) \<Rightarrow> string \<Rightarrow>
   'z ui_scheme \<Rightarrow> unit outcome \<times> 'z ui_scheme"
where
  "choice_handler i cb choice s =
     (case cb choice s of
        (Throw e, s') \<Rightarrow> (Throw e, s')
      | (Ok _, s') \<Rightarrow> (Ok (), remove_prompt i s'))"

text \<open>The values of a dialog with several fields, in the order of the fields.\<close>

definition promptN_values :: "(string \<times> string) list \<Rightarrow> (string \<Rightarrow> string) \<Rightarrow> string jsobj" where
  "promptN_values flds typed = fold (\<lambda>fn kv. oset fn (typed fn) kv) (okeys flds) []"

definition promptN_handler ::
  "nat \<Rightarrow> (string \<times> string) list \<Rightarrow> (string jsobj \<Rightarrow> 'z ui_scheme \<Rightarrow> bool option outcome \<times> 'z ui_scheme) \<Rightarrow>
   (string \<Rightarrow> string) \<Rightarrow> 'z ui_scheme \<Rightarrow> unit outcome \<times> 'z ui_scheme"
where
  "promptN_handler i flds submitCallback typed s =
     prompt_handler i submitCallback (promptN_values flds typed) s"

section \<open>The progress bar\<close>

text \<open>\<open>begin\<close> returns a handle that stands for the closure; each closure has its own
  \<open>$progress\<close> variable, which the end of its animation sets to null.\<close>

definition begin_progress :: "'z ui_scheme \<Rightarrow> nat \<times> 'z ui_scheme" where
  "begin_progress s =
     (let s1 = (if ui_nesting s = 0
                then s\<lparr>ui_barVisible := True, ui_fx := ui_fx s @ [GrowHalf]\<rparr> else s)
      in (ui_handles s, s1\<lparr>ui_nesting := ui_nesting s + 1, ui_handles := Suc (ui_handles s)\<rparr>))"

definition end_progress :: "nat \<Rightarrow> 'z ui_scheme \<Rightarrow> unit outcome \<times> 'z ui_scheme" where
  "end_progress h s =
     (if ui_nesting s > 0 then
        (let s1 = s\<lparr>ui_nesting := ui_nesting s - 1\<rparr>
         in if ui_nesting s1 = 0 then
              (if h \<in> set (ui_nullProgress s1)
               then (Throw (TypeError ''animate of null''), s1\<lparr>ui_barVisible := True\<rparr>)
               else (Ok (), s1\<lparr>ui_barVisible := True, ui_fx := ui_fx s1 @ [GrowFull h]\<rparr>))
            else (Ok (), s1))
      else (Ok (), s))"

text \<open>The animation at the head of the queue finishes and its callback runs.\<close>

fun anim_callback :: "anim \<Rightarrow> 'z ui_scheme \<Rightarrow> 'z ui_scheme" where
  "anim_callback GrowHalf s = s\<lparr>ui_barVisible := True\<rparr>"
| "anim_callback (GrowFull h) s =
     s\<lparr>ui_barVisible := False, ui_nullProgress := h # ui_nullProgress s\<rparr>"
| "anim_callback ShrinkZero s = s\<lparr>ui_barVisible := False\<rparr>"

definition anim_done :: "'z ui_scheme \<Rightarrow> 'z ui_scheme" where
  "anim_done s =
     (case ui_fx s of [] \<Rightarrow> s | a # rest \<Rightarrow> anim_callback a (s\<lparr>ui_fx := rest\<rparr>))"

text \<open>Letting the bar settle: the queued animations finish one after the other.\<close>

definition settle :: "'z ui_scheme \<Rightarrow> 'z ui_scheme" where
  "settle s = (anim_done ^^ length (ui_fx s)) s"

text \<open>The bar's events; the second component holds the handles whose closure was not called yet.\<close>

inductive bar_step :: "'z ui_scheme \<times> nat set \<Rightarrow> 'z ui_scheme \<times> nat set \<Rightarrow> bool" where
  bar_begin: "begin_progress s = (h, s') \<Longrightarrow> bar_step (s, hs) (s', insert h hs)"
| bar_end: "h \<in> hs \<Longrightarrow> end_progress h s = (oc, s') \<Longrightarrow> bar_step (s, hs) (s', hs - {h})"
| bar_error: "bar_step (s, hs) (errorDialog m s, hs)"
| bar_anim: "bar_step (s, hs) (anim_done s, hs)"

inductive bar_reach :: "'z ui_scheme \<Rightarrow> 'z ui_scheme \<times> nat set \<Rightarrow> bool" for s0 where
  bar_init: "bar_reach s0 (s0, {})"
| bar_more: "bar_reach s0 st \<Longrightarrow> bar_step st st' \<Longrightarrow> bar_reach s0 st'"

definition new_ui :: ui where
  "new_ui = \<lparr>ui_nesting = 0, ui_barVisible = False, ui_fx = [], ui_nullProgress = [],
     ui_handles = 0, ui_error = None, ui_prompt = None, ui_prompts = 0\<rparr>"

section \<open>Invariant of the bar\<close>

definition bar_used :: "'z ui_scheme \<Rightarrow> nat set" where
  "bar_used s = set (ui_nullProgress s) \<union> {h. GrowFull h \<in> set (ui_fx s)}"

definition bar_shows :: "'z ui_scheme \<Rightarrow> bool" where
  "bar_shows s \<longleftrightarrow>
     (if ui_fx s = [] then ui_barVisible s else last (ui_fx s) = GrowHalf) = (ui_nesting s > 0)"

definition bar_inv :: "'z ui_scheme \<times> nat set \<Rightarrow> bool" where
  "bar_inv st \<longleftrightarrow> bar_shows (fst st) \<and> snd st \<inter> bar_used (fst st) = {} \<and>
     snd st \<union> bar_used (fst st) \<subseteq> {..<ui_handles (fst st)}"

lemma bar_used_anim: "bar_used (anim_done s) = bar_used s" "ui_handles (anim_done s) = ui_handles s"
  by (cases "ui_fx s"; cases "hd (ui_fx s)"; auto simp: anim_done_def bar_used_def)+

lemma bar_shows_anim: "bar_shows s \<Longrightarrow> bar_shows (anim_done s)"
  by (cases "ui_fx s"; cases "hd (ui_fx s)"; auto simp: anim_done_def bar_shows_def split: if_splits)

lemma bar_shows_end: "bar_shows s \<Longrightarrow> h \<notin> bar_used s \<Longrightarrow> bar_shows (snd (end_progress h s))"
  by (auto simp: bar_shows_def bar_used_def end_progress_def Let_def)

lemma bar_used_end:
  "bar_used (snd (end_progress h s)) \<subseteq> insert h (bar_used s)"
  "ui_handles (snd (end_progress h s)) = ui_handles s"
  by (auto simp: bar_used_def end_progress_def Let_def)

lemma bar_begin_facts:
  "fst (begin_progress s) = ui_handles s" "ui_handles (snd (begin_progress s)) = Suc (ui_handles s)"
  "bar_used (snd (begin_progress s)) = bar_used s" "bar_shows s \<Longrightarrow> bar_shows (snd (begin_progress s))"
  by (auto simp: begin_progress_def Let_def bar_used_def bar_shows_def)

lemma bar_error_facts:
  "bar_used (errorDialog m s) = bar_used s" "ui_handles (errorDialog m s) = ui_handles s"
  "bar_shows (errorDialog m s)"
  by (auto simp: errorDialog_def bar_used_def bar_shows_def)

lemma bar_step_inv: "bar_step st st' \<Longrightarrow> bar_inv st \<Longrightarrow> bar_inv st'"
proof (induction rule: bar_step.induct)
  case (bar_begin s h s' hs)
  then have "h = ui_handles s" "s' = snd (begin_progress s)"
    by (auto simp: begin_progress_def Let_def)
  with bar_begin.prems show ?case
    by (auto simp: bar_inv_def bar_begin_facts less_Suc_eq)
next
  case (bar_end h hs s oc s')
  then have s': "s' = snd (end_progress h s)" by simp
  from bar_end have "h \<notin> bar_used s" "h < ui_handles s" by (auto simp: bar_inv_def)
  with bar_end.prems show ?case
    using bar_used_end [of h s] bar_shows_end [of s h] by (auto simp: bar_inv_def s')
next
  case (bar_error s hs m)
  then show ?case by (simp add: bar_inv_def bar_error_facts)
next
  case (bar_anim s hs)
  then show ?case by (simp add: bar_inv_def bar_used_anim bar_shows_anim)
qed

lemma bar_reach_inv: "bar_reach s0 st \<Longrightarrow> bar_inv (s0, {}) \<Longrightarrow> bar_inv st"
  by (induction rule: bar_reach.induct) (auto intro: bar_step_inv)

lemma anim_done_frame: "ui_nesting (anim_done s) = ui_nesting s" "ui_fx (anim_done s) = tl (ui_fx s)"
  by (cases "ui_fx s"; cases "hd (ui_fx s)"; simp add: anim_done_def)+

lemma settle_inv:
  "bar_inv (s, hs) \<Longrightarrow> length (ui_fx s) = n \<Longrightarrow>
   bar_inv ((anim_done ^^ n) s, hs) \<and> ui_fx ((anim_done ^^ n) s) = [] \<and>
   ui_nesting ((anim_done ^^ n) s) = ui_nesting s"
proof (induction n arbitrary: s)
  case (Suc n)
  have "bar_inv (anim_done s, hs)" using Suc.prems(1) bar_step_inv [OF bar_step.bar_anim] by blast
  moreover have "length (ui_fx (anim_done s)) = n" using Suc.prems(2) by (simp add: anim_done_frame)
  ultimately show ?case
    using Suc.IH [of "anim_done s"] by (simp add: funpow_swap1 anim_done_frame)
qed simp

section \<open>Properties\<close>



text \<open>A guarded call never lets an exception through: it either returns the wrapped
  function's value in the state that function left, or shows exactly one more error chunk
  that names the function and the message, with the work counter back at zero.\<close>

theorem guard_contains_errors:
  "(\<exists>x s'. f s = (Ok x, s') \<and> guard fname stack f s = (Some x, s')) \<or>
   (\<exists>e s'. f s = (Throw e, s') \<and> fst (guard fname stack f s) = None \<and>
      ui_error (snd (guard fname stack f s)) =
        Some ((case ui_error s' of None \<Rightarrow> [] | Some ms \<Rightarrow> ms) @ [htmlescape (guard_message fname e stack)]) \<and>
      ui_nesting (snd (guard fname stack f s)) = 0)"
  by (cases "f s"; cases "fst (f s)") (auto simp: guard_def errorDialog_def)

text \<open>The OK handler of a dialog removes only its own dialog: a dialog that the callback
  opened itself, such as the confirmation for overwriting a dashboard, stays on screen.\<close>

theorem prompt_handler_keeps_new_dialog:
  assumes "cb v s = (Ok r, s')" and "ui_prompt s' = Some (j, p)" and "j \<noteq> i"
  shows "ui_prompt (snd (prompt_handler i cb v s)) = Some (j, p) \<and>
    ui_prompt (snd (prompt_handler j cb v s)) = (if r = Some False then Some (j, p) else None)"
  using assms by (auto simp: prompt_handler_def remove_prompt_def)

theorem prompt_handler_keeps_new_dialog_witness:
  "ui_prompt (snd (prompt_handler 0 (\<lambda>v s. (Ok None, snd (choiceDialog v [] s))) ''Overwrite?''
      (snd (promptDialog ''Save as'' new_ui)))) = Some (1, Choice ''Overwrite?'' [])"
proof -
  have h: "htmlescape ''Overwrite?'' = ''Overwrite?''" by code_simp
  let ?s = "snd (promptDialog ''Save as'' new_ui)"
  have "ui_prompt (snd (choiceDialog ''Overwrite?'' [] ?s)) = Some (1, Choice ''Overwrite?'' [])"
    by (simp add: choiceDialog_def promptDialog_def open_prompt_def new_ui_def h)
  from prompt_handler_keeps_new_dialog [OF _ this, of "\<lambda>v s. (Ok None, snd (choiceDialog v [] s))"
      "''Overwrite?''" ?s None 0]
  show ?thesis by simp
qed

end
