(* ===== verification/Timeline.thy ===== *)
theory Timeline
  imports Ui
begin

text \<open>
  The time range and the automatic refresh of src/files/graph.js: the original and the current
  date range, \<open>restoreOriginalInterval\<close>, \<open>calcReloadInterval\<close>, \<open>setAutoRefresh\<close>,
  \<open>auto_refresh\<close> and \<open>getAdjustedNow\<close>. A \<open>Date\<close> is its time value in milliseconds;
  an invalid date has the time value NaN, here \<open>None\<close>, and every comparison with it is
  false. The repeating timers of the browser are part of the state.
\<close>

section \<open>Dates\<close>

type_synonym js_date = "int option"

text \<open>\<open>new Date(t)\<close> clips the time value to the range of the standard.\<close>

definition new_Date :: "int option \<Rightarrow> js_date" where
  "new_Date t = (case t of None \<Rightarrow> None | Some x \<Rightarrow> if \<bar>x\<bar> \<le> 8640000000000000 then Some x else None)"

fun num_minus :: "int option \<Rightarrow> int option \<Rightarrow> int option" where
  "num_minus (Some a) (Some b) = Some (a - b)"
| "num_minus _ _ = None"

fun num_ge :: "int option \<Rightarrow> int option \<Rightarrow> bool" where
  "num_ge (Some a) (Some b) = (a \<ge> b)"
| "num_ge _ _ = False"

fun num_less :: "int option \<Rightarrow> int option \<Rightarrow> bool" where
  "num_less (Some a) (Some b) = (a < b)"
| "num_less _ _ = False"

fun num_eq :: "int option \<Rightarrow> int option \<Rightarrow> bool" where
  "num_eq (Some a) (Some b) = (a = b)"
| "num_eq _ _ = False"

definition getAdjustedNow :: "int \<Rightarrow> int" where
  "getAdjustedNow clock = clock - 10 * 1000"

section \<open>State\<close>

record timeline = ui +
  tl_origStart :: js_date
  tl_origStop :: js_date
  tl_curStart :: js_date
  tl_curStop :: js_date
  tl_reloadInterval :: int
  tl_isAutoRefresh :: bool
  tl_autoTimer :: "nat option"
  tl_intervals :: "(nat \<times> int) list"
  tl_freshInterval :: nat
  tl_hidden :: bool
  tl_sliderManual :: bool

section \<open>Operations\<close>

definition restoreOriginalInterval :: "'z timeline_scheme \<Rightarrow> 'z timeline_scheme" where
  "restoreOriginalInterval s = s\<lparr>tl_curStart := tl_origStart s, tl_curStop := tl_origStop s\<rparr>"

definition reload_points :: "int list" where
  "reload_points = [5, 10, 15, 20, 30, 60]"

text \<open>\<open>Math.ceil(delta / 500)\<close> for the range in seconds, from its milliseconds.\<close>

definition reload_ival :: "int option \<Rightarrow> int option" where
  "reload_ival delta_ms = map_option (\<lambda>d. - ((- d) div 500000)) delta_ms"

fun first_point :: "int list \<Rightarrow> int option \<Rightarrow> int option" where
  "first_point [] ival = None"
| "first_point (p # ps) ival = (if num_ge (Some p) ival then Some p else first_point ps ival)"

definition calcReloadInterval :: "'z timeline_scheme \<Rightarrow> 'z timeline_scheme" where
  "calcReloadInterval s =
     (case first_point reload_points (reload_ival (num_minus (tl_curStop s) (tl_curStart s))) of
        Some p \<Rightarrow> s\<lparr>tl_reloadInterval := p\<rparr>
      | None \<Rightarrow> s\<lparr>tl_reloadInterval := 120\<rparr>)"

definition set_interval_timer :: "int \<Rightarrow> 'z timeline_scheme \<Rightarrow> nat \<times> 'z timeline_scheme" where
  "set_interval_timer period s =
     (tl_freshInterval s,
      s\<lparr>tl_intervals := tl_intervals s @ [(tl_freshInterval s, period)],
        tl_freshInterval := Suc (tl_freshInterval s)\<rparr>)"

definition clear_interval_timer :: "nat \<Rightarrow> 'z timeline_scheme \<Rightarrow> 'z timeline_scheme" where
  "clear_interval_timer h s = s\<lparr>tl_intervals := filter (\<lambda>p. fst p \<noteq> h) (tl_intervals s)\<rparr>"

text \<open>The argument is the truth value of what the caller passes (true, false, 0, undefined).\<close>

definition setAutoRefresh :: "bool \<Rightarrow> 'z timeline_scheme \<Rightarrow> 'z timeline_scheme" where
  "setAutoRefresh ref s =
     (let s1 = (case tl_autoTimer s of
                  None \<Rightarrow> s
                | Some h \<Rightarrow> (clear_interval_timer h s)\<lparr>tl_autoTimer := None\<rparr>);
          s2 = s1\<lparr>tl_isAutoRefresh := ref\<rparr>
      in if ref
         then (case set_interval_timer (tl_reloadInterval s2 * 1000) s2 of
                 (h, s3) \<Rightarrow> s3\<lparr>tl_autoTimer := Some h\<rparr>)
         else s2)"

definition auto_refresh :: "'z timeline_scheme \<Rightarrow> 'z timeline_scheme" where
  "auto_refresh s =
     (if tl_isAutoRefresh s then setAutoRefresh False s
      else setAutoRefresh True (calcReloadInterval s))"

definition setManual :: "bool \<Rightarrow> 'z timeline_scheme \<Rightarrow> 'z timeline_scheme" where
  "setManual manual s = s\<lparr>tl_sliderManual := manual\<rparr>"

text \<open>
  The part of \<open>refresh\<close> that moves the window: a window as long as the original one
  follows the clock, a zoomed one stays.
\<close>

definition slide_window :: "int \<Rightarrow> 'z timeline_scheme \<Rightarrow> 'z timeline_scheme" where
  "slide_window clock s =
     (let date = getAdjustedNow clock;
          delta = num_minus (tl_curStop s) (tl_curStart s)
      in if num_eq delta (num_minus (tl_origStop s) (tl_origStart s))
         then s\<lparr>tl_curStart := new_Date (num_minus (Some date) delta), tl_curStop := Some date\<rparr>
         else s)"

text \<open>The range \<open>resetDateRange\<close> works out before it stores the one it was given.\<close>

definition clamped_range :: "int \<Rightarrow> js_date \<Rightarrow> js_date \<Rightarrow> int option \<times> int option" where
  "clamped_range clock dFrom dTo =
     (let tt = (if num_less dTo (Some 1000000000) then Some (getAdjustedNow clock) else dTo);
          ft = (if num_ge dFrom tt \<or> num_less dFrom (num_minus tt (Some (5 * 366 * 25 * 60 * 60 * 1000)))
                then num_minus tt (Some (15 * 60 * 1000)) else dFrom)
      in (ft, tt))"

definition reset_range_state :: "js_date \<Rightarrow> js_date \<Rightarrow> 'z timeline_scheme \<Rightarrow> 'z timeline_scheme" where
  "reset_range_state dFrom dTo s =
     calcReloadInterval (setAutoRefresh False (restoreOriginalInterval
       ((setManual True s)\<lparr>tl_origStart := dFrom, tl_origStop := dTo\<rparr>)))"

section \<open>Lemmas\<close>

definition auto_ok :: "'z timeline_scheme \<Rightarrow> bool" where
  "auto_ok s \<longleftrightarrow>
     map fst (tl_intervals s) = (case tl_autoTimer s of None \<Rightarrow> [] | Some h \<Rightarrow> [h]) \<and>
     tl_isAutoRefresh s = (tl_autoTimer s \<noteq> None)"

lemma calcReloadInterval_frame [app_simps]:
  "tl_curStart (calcReloadInterval s) = tl_curStart s" "tl_curStop (calcReloadInterval s) = tl_curStop s"
  "tl_origStart (calcReloadInterval s) = tl_origStart s" "tl_origStop (calcReloadInterval s) = tl_origStop s"
  "tl_intervals (calcReloadInterval s) = tl_intervals s" "tl_autoTimer (calcReloadInterval s) = tl_autoTimer s"
  "tl_isAutoRefresh (calcReloadInterval s) = tl_isAutoRefresh s"
  "timeline.more (calcReloadInterval s) = timeline.more s" "tl_sliderManual (calcReloadInterval s) = tl_sliderManual s"
  by (simp_all add: calcReloadInterval_def split: option.splits)

lemma setAutoRefresh_frame [app_simps]:
  "tl_curStart (setAutoRefresh b s) = tl_curStart s" "tl_curStop (setAutoRefresh b s) = tl_curStop s"
  "tl_origStart (setAutoRefresh b s) = tl_origStart s" "tl_origStop (setAutoRefresh b s) = tl_origStop s"
  "tl_reloadInterval (setAutoRefresh b s) = tl_reloadInterval s"
  "timeline.more (setAutoRefresh b s) = timeline.more s" "tl_sliderManual (setAutoRefresh b s) = tl_sliderManual s"
  by (simp_all add: setAutoRefresh_def set_interval_timer_def clear_interval_timer_def Let_def split: option.splits)

lemma auto_ok_timers: "auto_ok s \<Longrightarrow> tl_autoTimer s = Some h \<Longrightarrow> filter (\<lambda>p. fst p \<noteq> h) (tl_intervals s) = []"
  by (auto simp: auto_ok_def)

lemma setAutoRefresh_cases:
  assumes "auto_ok s"
  shows "tl_intervals (setAutoRefresh ref s) =
      (if ref then [(tl_freshInterval s, tl_reloadInterval s * 1000)] else [])"
    and "tl_autoTimer (setAutoRefresh ref s) = (if ref then Some (tl_freshInterval s) else None)"
    and "tl_isAutoRefresh (setAutoRefresh ref s) = ref"
proof -
  have none: "tl_autoTimer s = None \<Longrightarrow> tl_intervals s = []" using assms by (simp add: auto_ok_def)
  show "tl_intervals (setAutoRefresh ref s) =
      (if ref then [(tl_freshInterval s, tl_reloadInterval s * 1000)] else [])"
    and "tl_autoTimer (setAutoRefresh ref s) = (if ref then Some (tl_freshInterval s) else None)"
    and "tl_isAutoRefresh (setAutoRefresh ref s) = ref"
    using none auto_ok_timers [OF assms]
    by (auto simp: setAutoRefresh_def set_interval_timer_def clear_interval_timer_def Let_def split: option.splits)
qed

lemma ceil_le_iff: "- ((- d) div 500000) \<le> p \<longleftrightarrow> d \<le> p * (500000 :: int)"
proof -
  define q r where "q = (- d) div 500000" and "r = (- d) mod 500000"
  have "- d = 500000 * q + r" "0 \<le> r" "r < 500000" by (simp_all add: q_def r_def)
  then show ?thesis unfolding q_def [symmetric] by linarith
qed

lemma ival_ge: "num_ge (Some p) (reload_ival (num_minus (Some b) (Some a))) \<longleftrightarrow> b - a \<le> p * 500000"
  unfolding reload_ival_def num_minus.simps option.map num_ge.simps by (rule ceil_le_iff)

lemma first_point_None: "first_point ps ival = None \<longleftrightarrow> (\<forall>p\<in>set ps. \<not> num_ge (Some p) ival)"
  by (induction ps ival rule: first_point.induct) auto

lemma first_point_Some:
  "first_point ps ival = Some p \<Longrightarrow> \<exists>us vs. ps = us @ p # vs \<and> num_ge (Some p) ival \<and> (\<forall>q\<in>set us. \<not> num_ge (Some q) ival)"
proof (induction ps ival rule: first_point.induct)
  case (2 q ps ival)
  show ?case
  proof (cases "num_ge (Some q) ival")
    case True
    with 2 show ?thesis by (intro exI [of _ "[]"] exI [of _ ps]) auto
  next
    case False
    with 2 obtain us vs where "ps = us @ p # vs" "num_ge (Some p) ival" "\<forall>q\<in>set us. \<not> num_ge (Some q) ival"
      by auto
    with False show ?thesis by (intro exI [of _ "q # us"] exI [of _ vs]) auto
  qed
qed simp

section \<open>Properties\<close>

text \<open>The automatic reload interval is the smallest of 5, 10, 15, 20, 30 and 60 seconds that
  splits the shown range into at most 500 steps, and 120 seconds when none does.\<close>

theorem calcReloadInterval_least:
  assumes "tl_curStart s = Some a" and "tl_curStop s = Some b" and "r = tl_reloadInterval (calcReloadInterval s)"
  shows "(r = 120 \<and> (\<forall>p\<in>set reload_points. b - a > p * 500000)) \<or>
    (r \<in> set reload_points \<and> b - a \<le> r * 500000 \<and> (\<forall>p\<in>set reload_points. p < r \<longrightarrow> b - a > p * 500000))"
proof (cases "first_point reload_points (reload_ival (num_minus (Some b) (Some a)))")
  case None
  then have "r = 120" using assms by (simp add: calcReloadInterval_def del: num_minus.simps)
  moreover have "\<forall>p\<in>set reload_points. b - a > p * 500000"
    using None unfolding first_point_None ival_ge by (simp add: not_le)
  ultimately show ?thesis by blast
next
  case (Some p)
  then have r: "r = p" using assms by (simp add: calcReloadInterval_def del: num_minus.simps)
  from first_point_Some [OF Some] obtain us vs where p: "reload_points = us @ p # vs"
    "b - a \<le> p * 500000" "\<forall>q\<in>set us. \<not> b - a \<le> q * 500000"
    unfolding ival_ge by blast
  have "sorted_wrt (<) (us @ p # vs)" unfolding p(1) [symmetric] by code_simp
  then have gt: "\<forall>q\<in>set vs. p < q" by (simp add: sorted_wrt_append)
  have "q \<in> set us" if "q \<in> set reload_points" "q < p" for q
    using that gt unfolding p(1) by fastforce
  moreover have "p \<in> set reload_points" unfolding p(1) by simp
  ultimately show ?thesis using p(2,3) r by (auto simp: not_le)
qed

definition demo_timeline :: timeline where
  "demo_timeline = \<lparr>ui_nesting = 0, ui_barVisible = False, ui_fx = [], ui_nullProgress = [],
     ui_handles = 0, ui_error = None, ui_prompt = None, ui_prompts = 0,
     tl_origStart = Some 1400000000000, tl_origStop = Some 1400003600000,
     tl_curStart = Some 1400000000000, tl_curStop = Some 1400003600000,
     tl_reloadInterval = 10000, tl_isAutoRefresh = False, tl_autoTimer = None, tl_intervals = [],
     tl_freshInterval = 1, tl_hidden = False, tl_sliderManual = False\<rparr>"

theorem calcReloadInterval_least_witness:
  "tl_reloadInterval (calcReloadInterval demo_timeline) = 10 \<and> 3600000 \<le> (10 :: int) * 500000"
proof -
  have "tl_reloadInterval (calcReloadInterval demo_timeline) = 10" by code_simp
  moreover from this
    calcReloadInterval_least [of demo_timeline 1400000000000 1400003600000 10]
  have "3600000 \<le> (10 :: int) * 500000" by (simp add: demo_timeline_def)
  ultimately show ?thesis by blast
qed

text \<open>However often automatic refresh is switched on and off, the page owns exactly one
  repeating timer while it is on and none while it is off, and the timer runs with the
  reload interval of the moment it was started.\<close>

theorem auto_refresh_one_timer:
  assumes "auto_ok s"
  shows "auto_ok (setAutoRefresh ref s) \<and> auto_ok (auto_refresh s) \<and>
    tl_intervals (setAutoRefresh ref s) =
      (if ref then [(tl_freshInterval s, tl_reloadInterval s * 1000)] else []) \<and>
    tl_isAutoRefresh (auto_refresh s) = (\<not> tl_isAutoRefresh s)"
proof -
  have "auto_ok (calcReloadInterval s)" using assms by (simp add: auto_ok_def app_simps)
  then show ?thesis
    using assms
    by (auto simp: auto_refresh_def auto_ok_def [of "setAutoRefresh b t" for b t] setAutoRefresh_cases)
qed

theorem auto_refresh_one_timer_witness:
  "tl_intervals (auto_refresh demo_timeline) = [(1, 10000)] \<and> auto_ok (auto_refresh demo_timeline)"
proof -
  have "auto_ok demo_timeline" by code_simp
  from auto_refresh_one_timer [OF this] have "auto_ok (auto_refresh demo_timeline)" by blast
  moreover have "tl_intervals (auto_refresh demo_timeline) = [(1, 10000)]" by code_simp
  ultimately show ?thesis by blast
qed

text \<open>\<open>resetDateRange\<close> computes a corrected range (an end before 1970-01-12 becomes now, a
  start after the end or too far before it becomes a quarter of an hour) and then stores the
  range it was given: the correction has no effect, even on a range whose start is after
  its end.\<close>

theorem resetDateRange_ignores_correction:
  "tl_curStart (reset_range_state dFrom dTo s) = dFrom \<and> tl_curStop (reset_range_state dFrom dTo s) = dTo \<and>
   (\<exists>f t clock. clamped_range clock f t \<noteq> (f, t) \<and>
      (tl_curStart (reset_range_state f t s), tl_curStop (reset_range_state f t s)) = (f, t))"
proof -
  have eq: "tl_curStart (reset_range_state f t s) = f" "tl_curStop (reset_range_state f t s) = t" for f t
    by (simp_all add: reset_range_state_def app_simps restoreOriginalInterval_def setManual_def)
  have "clamped_range 0 (Some 2000000000) (Some 1500000000) \<noteq> (Some 2000000000, Some 1500000000)"
    by code_simp
  with eq show ?thesis by auto
qed

end
