(* ===== verification/Repaint.thy ===== *)
theory Repaint
  imports Timeline Complex_Main
begin

text \<open>
  What \<open>GraphSurface.repaint\<close> of src/files/graph.js computes before it hands over to the
  plotting library: the grid of plot times, the alignment of every series' buckets with that
  grid, the annotations of minima and maxima, the vertical range and the display options.
  Values are exact rationals (the rounding of the browser's floating point is not modelled);
  NaN, which the code pushes for missing buckets and can compute for stacked charts, is the
  value \<open>None\<close>. The loop that builds the grid may run forever, so it is a partial function.
\<close>

section \<open>Data\<close>

record bucket =
  b_time :: int
  b_min :: rat
  b_avg :: rat
  b_max :: rat
  b_sdev :: rat

text \<open>A property of \<open>_lastRenderData\<close>: the range fields are numbers, the others are what
  the server sent for a counter, possibly without a data array, or undefined.\<close>

datatype rd_val = RUndef | RNum int | RSeries "bucket list option"

type_synonym render_data = "rd_val jsobj"

definition get_num :: "render_data \<Rightarrow> string \<Rightarrow> int option" where
  "get_num d k = (case oget d k of Some (RNum n) \<Rightarrow> Some n | _ \<Rightarrow> None)"

type_synonym num = "rat option"

fun nmax :: "num \<Rightarrow> num \<Rightarrow> num" where
  "nmax (Some a) (Some b) = Some (max a b)"
| "nmax _ _ = None"

fun nmin :: "num \<Rightarrow> num \<Rightarrow> num" where
  "nmin (Some a) (Some b) = Some (min a b)"
| "nmin _ _ = None"

section \<open>The grid of plot times\<close>

partial_function (option) plot_loop :: "int \<Rightarrow> int \<Rightarrow> int option \<Rightarrow> js_date list \<Rightarrow> js_date list option" where
  "plot_loop i stop interval acc =
     (if i < stop then
        (case interval of
           None \<Rightarrow> Some (acc @ [new_Date (Some (i * 1000))])
         | Some d \<Rightarrow> plot_loop (i + d) stop interval (acc @ [new_Date (Some (i * 1000))]))
      else Some acc)"

declare plot_loop.simps [code]

definition plot_times :: "render_data \<Rightarrow> js_date list option" where
  "plot_times data =
     (case (get_num data ''start'', get_num data ''stop'') of
        (Some start, Some stop) \<Rightarrow> plot_loop start stop (get_num data ''interval'') []
      | _ \<Rightarrow> Some [])"

section \<open>Drawing one bucket\<close>

record range =
  rg_minimum :: num
  rg_maximum :: num
  rg_minVal :: num
  rg_gotdata :: bool

definition big :: rat where
  "big = 2 ^ 100"

definition init_range :: range where
  "init_range = \<lparr>rg_minimum = Some (big - 1), rg_maximum = Some (- (big - 1)),
     rg_minVal = Some (big - 1), rg_gotdata = False\<rparr>"

definition single_format :: "string \<Rightarrow> bool" where
  "single_format fmt \<longleftrightarrow> fmt = ''noBars'' \<or> fmt = ''stacked'' \<or> fmt = ''area''"

definition cell_of :: "string \<Rightarrow> bucket option \<Rightarrow> num list" where
  "cell_of fmt bk =
     (if single_format fmt then
        (case bk of None \<Rightarrow> [None] | Some b \<Rightarrow> [Some (b_avg b)])
      else if fmt = ''errorBars'' then
        (case bk of None \<Rightarrow> [None, None] | Some b \<Rightarrow> [Some (b_avg b), Some (b_sdev b)])
      else
        (case bk of None \<Rightarrow> [None, None, None] | Some b \<Rightarrow> [Some (b_min b), Some (b_avg b), Some (b_max b)]))"

definition bucket_low :: "string \<Rightarrow> bucket \<Rightarrow> rat" where
  "bucket_low fmt b =
     (if single_format fmt then b_avg b else if fmt = ''errorBars'' then b_avg b - b_sdev b else b_min b)"

definition bucket_high :: "string \<Rightarrow> bucket \<Rightarrow> rat" where
  "bucket_high fmt b =
     (if single_format fmt then b_avg b else if fmt = ''errorBars'' then b_avg b + b_sdev b else b_max b)"

definition bucket_val :: "string \<Rightarrow> bucket \<Rightarrow> rat" where
  "bucket_val fmt b = (if single_format fmt \<or> fmt = ''errorBars'' then b_avg b else b_min b)"

text \<open>\<open>pushfn\<close>: the cell that is pushed and the effect on the running range.\<close>

definition pushfn :: "string \<Rightarrow> bucket option \<Rightarrow> range \<Rightarrow> num list \<times> range" where
  "pushfn fmt bk r =
     (cell_of fmt bk,
      case bk of
        None \<Rightarrow> r
      | Some b \<Rightarrow> r\<lparr>rg_minimum := nmin (Some (bucket_low fmt b)) (rg_minimum r),
                    rg_maximum := nmax (Some (bucket_high fmt b)) (rg_maximum r),
                    rg_minVal := nmin (Some (bucket_val fmt b)) (rg_minVal r),
                    rg_gotdata := True\<rparr>)"

section \<open>Drawing one series\<close>

record annot =
  an_min :: rat
  an_max :: rat
  an_min_ts :: "js_date option"
  an_max_ts :: "js_date option"

definition init_annot :: annot where
  "init_annot = \<lparr>an_min = big, an_max = - big, an_min_ts = None, an_max_ts = None\<rparr>"

definition note_bucket :: "bucket \<Rightarrow> js_date \<Rightarrow> annot \<Rightarrow> annot" where
  "note_bucket b ts a =
     (let a1 = (if b_min b < an_min a then a\<lparr>an_min := b_min b, an_min_ts := Some ts\<rparr> else a)
      in if b_max b > an_max a1 then a1\<lparr>an_max := b_max b, an_max_ts := Some ts\<rparr> else a1)"

text \<open>
  The loop over the grid for one series; the list of buckets that are left stands for the
  index. Buckets with time 0 are skipped, the next one is noted for the annotations at every
  grid time, and it is drawn when the times agree.
\<close>

fun plot_series ::
  "string \<Rightarrow> js_date list \<Rightarrow> bucket list \<Rightarrow> range \<Rightarrow> annot \<Rightarrow> num list list \<times> range \<times> annot"
where
  "plot_series fmt [] bs r a = ([], r, a)"
| "plot_series fmt (t # ts) bs r a =
     (case dropWhile (\<lambda>b. b_time b = 0) bs of
        [] \<Rightarrow>
          (case pushfn fmt None r of (c, r1) \<Rightarrow>
             (case plot_series fmt ts [] r1 a of (cs, r2, a2) \<Rightarrow> (c # cs, r2, a2)))
      | b # rest \<Rightarrow>
          (let a1 = note_bucket b t a in
           if num_eq (Some (b_time b * 1000)) t then
             (case pushfn fmt (Some b) r of (c, r1) \<Rightarrow>
                (case plot_series fmt ts rest r1 a1 of (cs, r2, a2) \<Rightarrow> (c # cs, r2, a2)))
           else
             (case pushfn fmt None r of (c, r1) \<Rightarrow>
                (case plot_series fmt ts (b # rest) r1 a1 of (cs, r2, a2) \<Rightarrow> (c # cs, r2, a2)))))"

section \<open>Drawing all series\<close>

record annotation =
  at_series :: string
  at_x :: "js_date option"
  at_value :: rat
  at_isMax :: bool

record summary =
  sm_minval :: rat
  sm_mintime :: "js_date option"
  sm_maxval :: rat
  sm_maxtime :: "js_date option"

record plot_state =
  ps_columns :: "num list list list"
  ps_labels :: "string list"
  ps_range :: range
  ps_annotations :: "annotation list"
  ps_summary :: summary

definition init_plot :: plot_state where
  "init_plot = \<lparr>ps_columns = [], ps_labels = [''time''], ps_range = init_range, ps_annotations = [],
     ps_summary = \<lparr>sm_minval = big - 1, sm_mintime = None, sm_maxval = - (big - 1), sm_maxtime = None\<rparr>\<rparr>"

definition merge_summary :: "annot \<Rightarrow> summary \<Rightarrow> summary" where
  "merge_summary a s =
     (let mn = min (an_min a) (sm_minval s); mx = max (an_max a) (sm_maxval s)
      in \<lparr>sm_minval = mn, sm_mintime = (if mn = an_min a then an_min_ts a else sm_mintime s),
          sm_maxval = mx, sm_maxtime = (if mx = an_max a then an_max_ts a else sm_maxtime s)\<rparr>)"

definition add_series :: "string \<Rightarrow> js_date list \<Rightarrow> string \<Rightarrow> bucket list \<Rightarrow> plot_state \<Rightarrow> plot_state" where
  "add_series fmt grid key buckets p =
     (case plot_series fmt grid buckets (ps_range p) init_annot of (col, r, a) \<Rightarrow>
        \<lparr>ps_columns = ps_columns p @ [col], ps_labels = ps_labels p @ [key], ps_range = r,
         ps_annotations = ps_annotations p @
           [\<lparr>at_series = key, at_x = an_min_ts a, at_value = an_min a, at_isMax = False\<rparr>,
            \<lparr>at_series = key, at_x = an_max_ts a, at_value = an_max a, at_isMax = True\<rparr>],
         ps_summary = merge_summary a (ps_summary p)\<rparr>)"

text \<open>Reading \<open>data[key]['data']\<close> of an undefined entry throws.\<close>

fun each_series :: "string \<Rightarrow> js_date list \<Rightarrow> render_data \<Rightarrow> string list \<Rightarrow> plot_state \<Rightarrow> plot_state outcome" where
  "each_series fmt grid data [] p = Ok p"
| "each_series fmt grid data (k # ks) p =
     (case oget data k of
        None \<Rightarrow> each_series fmt grid data ks p
      | Some RUndef \<Rightarrow> Throw (TypeError ''data of undefined'')
      | Some (RNum n) \<Rightarrow> each_series fmt grid data ks p
      | Some (RSeries None) \<Rightarrow> each_series fmt grid data ks p
      | Some (RSeries (Some bs)) \<Rightarrow> each_series fmt grid data ks (add_series fmt grid k bs p))"

section \<open>Stacked charts\<close>

text \<open>The sums are indexed by bucket position; a position without a bucket stays undefined.\<close>

fun add_sums :: "num list \<Rightarrow> bucket list \<Rightarrow> num list" where
  "add_sums tot [] = tot"
| "add_sums [] (b # bs) = Some (b_avg b) # add_sums [] bs"
| "add_sums (s # ss) (b # bs) =
     (case s of None \<Rightarrow> Some (b_avg b) | Some x \<Rightarrow> Some (x + b_avg b)) # add_sums ss bs"

definition stacked_sums :: "nat \<Rightarrow> render_data \<Rightarrow> num list" where
  "stacked_sums n data =
     fold (\<lambda>k tot. case oget data k of Some (RSeries (Some bs)) \<Rightarrow> add_sums tot bs | _ \<Rightarrow> tot)
       (okeys data) (replicate n None)"

definition stacked_maximum :: "num list \<Rightarrow> num" where
  "stacked_maximum tot = fold nmax tot (Some (- big - 1))"

section \<open>The vertical range\<close>

fun add_slop :: "num \<Rightarrow> num \<Rightarrow> num \<times> num" where
  "add_slop (Some mn) (Some mx) =
     (let slop0 = (mx - mn) * (1 / 20); slop = (if slop0 = 0 then 1 / 2 else slop0)
      in (Some (mn - slop), Some (mx + slop * 2)))"
| "add_slop _ _ = (None, None)"

definition num_nonneg :: "num \<Rightarrow> bool" where
  "num_nonneg x = (case x of None \<Rightarrow> False | Some v \<Rightarrow> 0 \<le> v)"

definition num_neg :: "num \<Rightarrow> bool" where
  "num_neg x = (case x of None \<Rightarrow> False | Some v \<Rightarrow> v < 0)"

definition value_range :: "range \<Rightarrow> num \<times> num" where
  "value_range r =
     (let (mn, mx) = (if \<not> rg_gotdata r then (Some 0, Some (11 / 10))
                      else add_slop (rg_minimum r) (rg_maximum r))
      in if num_nonneg (rg_minVal r) \<and> num_neg mn then (Some 0, mx) else (mn, mx))"

section \<open>The whole computation\<close>

record plot =
  pl_times :: "js_date list"
  pl_columns :: "num list list list"
  pl_labels :: "string list"
  pl_annotations :: "annotation list"
  pl_valueRange :: "num \<times> num"
  pl_highlight :: bool
  pl_errorBars :: bool
  pl_customBars :: bool
  pl_stackedGraph :: bool
  pl_fillGraph :: bool
  pl_summary :: summary

text \<open>
  The outer option is missing when the loop does not end; an inner \<open>None\<close> is the early
  return of an empty grid.
\<close>

definition repaint_plot :: "string \<Rightarrow> render_data \<Rightarrow> plot option outcome option" where
  "repaint_plot fmt0 data =
     (let fmt = (if fmt0 = [] then ''noBars'' else fmt0)
      in case plot_times data of
           None \<Rightarrow> None
         | Some [] \<Rightarrow> Some (Ok None)
         | Some grid \<Rightarrow>
             (case each_series fmt grid data (okeys data) init_plot of
                Throw e \<Rightarrow> Some (Throw e)
              | Ok p \<Rightarrow>
                  (let r = (if fmt = ''stacked''
                            then (ps_range p)\<lparr>rg_maximum := stacked_maximum (stacked_sums (length grid) data)\<rparr>
                            else ps_range p)
                   in Some (Ok (Some
                        \<lparr>pl_times = grid, pl_columns = ps_columns p, pl_labels = ps_labels p,
                         pl_annotations = ps_annotations p, pl_valueRange = value_range r,
                         pl_highlight = (length (ps_labels p) > 2),
                         pl_errorBars = (fmt = ''errorBars''), pl_customBars = (fmt = ''customBars''),
                         pl_stackedGraph = (fmt = ''stacked''), pl_fillGraph = (fmt = ''area''),
                         pl_summary = ps_summary p\<rparr>)))))"


section \<open>The grid\<close>

lemma plot_loop_run:
  assumes "0 < d"
  shows "plot_loop i stop (Some d) acc =
    Some (acc @ map (\<lambda>k. new_Date (Some ((i + int k * d) * 1000)))
      [0..<nat ((stop - i + d - 1) div d)])"
proof (induction "nat ((stop - i + d - 1) div d)" arbitrary: i acc)
  case 0
  have "\<not> i < stop"
  proof
    assume "i < stop"
    then have "d div d \<le> (stop - i + d - 1) div d" using assms by (intro zdiv_mono1) auto
    then show False using 0 assms by simp
  qed
  then show ?case using 0 by (subst plot_loop.simps) simp
next
  case (Suc n)
  have pos: "0 < (stop - i + d - 1) div d" using Suc.hyps(2) by linarith
  have "i < stop"
  proof (rule ccontr)
    assume "\<not> i < stop"
    then have "(stop - i + d - 1) div d \<le> (d - 1) div d" using assms by (intro zdiv_mono1) auto
    then show False using pos assms by simp
  qed
  have step: "(stop - i + d - 1) div d = (stop - (i + d) + d - 1) div d + 1"
    using div_add_self2 [of d "stop - (i + d) + d - 1"] assms by (simp add: algebra_simps)
  have n: "n = nat ((stop - (i + d) + d - 1) div d)" using Suc.hyps(2) step pos by linarith
  have "[0..<Suc n] = 0 # map Suc [0..<n]" by (simp only: map_Suc_upt upt_conv_Cons)
  then have "map (\<lambda>k. new_Date (Some ((i + int k * d) * 1000))) [0..<Suc n] =
     new_Date (Some (i * 1000)) # map (\<lambda>k. new_Date (Some ((i + d + int k * d) * 1000))) [0..<n]"
    by (simp add: algebra_simps)
  moreover have "plot_loop (i + d) stop (Some d) (acc @ [new_Date (Some (i * 1000))]) =
     Some ((acc @ [new_Date (Some (i * 1000))]) @
       map (\<lambda>k. new_Date (Some ((i + d + int k * d) * 1000))) [0..<n])"
    unfolding n by (rule Suc.hyps(1) [OF n])
  moreover have "plot_loop i stop (Some d) acc =
     plot_loop (i + d) stop (Some d) (acc @ [new_Date (Some (i * 1000))])"
    using \<open>i < stop\<close> by (subst plot_loop.simps) simp
  ultimately show ?case by (simp only: Suc.hyps(2) [symmetric] append_assoc append_Cons append_Nil)
qed

lemma plot_loop_diverges:
  assumes "plot_loop i stop interval acc = Some ts"
  shows "interval = Some d \<longrightarrow> d \<le> 0 \<longrightarrow> \<not> i < stop"
proof (rule plot_loop.raw_induct [OF _ assms])
  fix loop i stop interval acc ts
  assume "\<And>i stop interval acc ts. loop i stop interval acc = Some ts \<Longrightarrow>
      interval = Some d \<longrightarrow> d \<le> 0 \<longrightarrow> \<not> i < stop"
    and "(if i < stop then
        (case interval of
           None \<Rightarrow> Some (acc @ [new_Date (Some (i * 1000))])
         | Some d \<Rightarrow> loop (i + d) stop interval (acc @ [new_Date (Some (i * 1000))]))
      else Some acc) = Some ts"
  then show "interval = Some d \<longrightarrow> d \<le> 0 \<longrightarrow> \<not> i < stop" by (fastforce split: if_splits)
qed

text \<open>C26: the grid loop of \<open>repaint\<close> returns the grid start, start + interval, ... below stop
  when the interval is positive, and never returns when the interval is zero or negative and
  start is before stop.\<close>

theorem plot_times_grid:
  assumes "get_num data ''start'' = Some start" "get_num data ''stop'' = Some stop"
    "get_num data ''interval'' = Some d"
  shows "plot_times data =
    (if 0 < d then Some (map (\<lambda>k. new_Date (Some ((start + int k * d) * 1000)))
                          [0..<nat ((stop - start + d - 1) div d)])
     else if start < stop then None else Some [])"
proof -
  have "plot_loop start stop (Some d) [] = None" if "d \<le> 0" "start < stop"
    using plot_loop_diverges [of start stop "Some d" "[]"] that
    by (cases "plot_loop start stop (Some d) []") auto
  moreover have "plot_loop start stop (Some d) [] = Some []" if "\<not> start < stop"
    using that by (subst plot_loop.simps) simp
  ultimately show ?thesis
    using assms by (auto simp: plot_times_def plot_loop_run)
qed

theorem plot_times_grid_witness:
  "plot_times [(''start'', RNum 10), (''stop'', RNum 35), (''interval'', RNum 10)] =
     Some [Some 10000, Some 20000, Some 30000]"
  using plot_times_grid [of "[(''start'', RNum 10), (''stop'', RNum 35), (''interval'', RNum 10)]" 10 35 10]
  by (simp add: get_num_def oget_def new_Date_def upt_rec)

section \<open>Alignment\<close>

definition live_buckets :: "bucket list \<Rightarrow> bucket list" where
  "live_buckets bs = filter (\<lambda>b. b_time b \<noteq> 0) bs"

lemma live_dropWhile: "live_buckets (dropWhile (\<lambda>b. b_time b = 0) bs) = live_buckets bs"
  by (induction bs) (auto simp: live_buckets_def)

lemma live_of_dropWhile:
  "live_buckets bs = (case dropWhile (\<lambda>b. b_time b = 0) bs of [] \<Rightarrow> [] | b # r \<Rightarrow> b # live_buckets r)"
  by (induction bs) (auto simp: live_buckets_def)

lemma find_none_if: "(\<And>x. x \<in> set xs \<Longrightarrow> \<not> P x) \<Longrightarrow> find P xs = None"
  by (auto simp: find_None_iff)

lemma fst_push [simp]: "fst (case x of (cs, ra) \<Rightarrow> (c # cs, ra)) = c # fst x"
  by (simp split: prod.split)

lemma later_on_grid:
  assumes "sorted_wrt (<) (t # ts)" "sorted_wrt (<) (map b_time (b # bs))" "b' \<in> set bs"
    "\<And>x. x \<in> set (b # bs) \<Longrightarrow> b_time x * 1000 \<in> set (t # ts)"
  shows "b_time b' * 1000 \<in> set ts"
proof -
  have "b_time b < b_time b'" "\<And>x. x \<in> set ts \<Longrightarrow> t < x" using assms(1-3) by auto
  then have "b_time b' * 1000 \<noteq> t" using assms(4) [of b] by fastforce
  then show ?thesis using assms(4) [of b'] assms(3) by auto
qed

lemma plot_series_cells:
  assumes "sorted_wrt (<) ts" "sorted_wrt (<) (map b_time (live_buckets bs))"
    "\<And>b. b \<in> set (live_buckets bs) \<Longrightarrow> b_time b * 1000 \<in> set ts"
  shows "fst (plot_series fmt (map Some ts) bs r a) =
    map (\<lambda>t. cell_of fmt (find (\<lambda>b. b_time b * 1000 = t) (live_buckets bs))) ts"
  using assms
proof (induction ts arbitrary: bs r a)
  case Nil
  then show ?case by simp
next
  case (Cons t ts)
  show ?case
  proof (cases "dropWhile (\<lambda>b. b_time b = 0) bs")
    case Nil
    then have "live_buckets bs = []" by (subst live_of_dropWhile) (simp only: list.case)
    moreover have "live_buckets [] = []" by (simp add: live_buckets_def)
    ultimately show ?thesis
      using Cons.IH [of "[]"] Cons.prems Nil
      by (auto simp: pushfn_def simp del: dropWhile_eq_Nil_conv)
  next
    case (Cons b rest)
    then have live: "live_buckets bs = b # live_buckets rest"
      by (subst live_of_dropWhile) (simp only: list.case)
    have live': "live_buckets (b # rest) = b # live_buckets rest"
      using Cons live live_dropWhile [of bs] by simp
    have srt: "sorted_wrt (<) ts" and gt: "\<And>x. x \<in> set ts \<Longrightarrow> t < x"
      using Cons.prems(1) by auto
    have bt: "b_time b * 1000 \<in> set (t # ts)" using Cons.prems(3) live by simp
    note rest_in = later_on_grid [OF Cons.prems(1) Cons.prems(2) [unfolded live] _ Cons.prems(3) [unfolded live]]
    show ?thesis
    proof (cases "b_time b * 1000 = t")
      case True
      have "find (\<lambda>b. b_time b * 1000 = x) (b # live_buckets rest) =
            find (\<lambda>b. b_time b * 1000 = x) (live_buckets rest)" if "x \<in> set ts" for x
        using gt [OF that] True by simp
      then show ?thesis
        using Cons.IH [of rest] srt Cons.prems(2) live rest_in True Cons
        by (auto simp: pushfn_def)
    next
      case False
      then have "b_time b * 1000 \<in> set ts" using bt by simp
      then have "find (\<lambda>b. b_time b * 1000 = t) (b # live_buckets rest) = None"
        using rest_in gt by (intro find_none_if) force
      then show ?thesis
        using Cons.IH [of "b # rest"] srt Cons.prems(2) live live' rest_in False Cons bt
        by (auto simp: pushfn_def)
    qed
  qed
qed

text \<open>C24: when the times of the buckets with data grow strictly and lie on the grid, the
  one-pass alignment draws at every grid time exactly the bucket of that time and a gap where
  there is none, whatever empty buckets (time 0) stand in between.\<close>

theorem plot_series_aligned:
  assumes "sorted_wrt (<) ts" "sorted_wrt (<) (map b_time (live_buckets bs))"
    "\<forall>b\<in>set (live_buckets bs). b_time b * 1000 \<in> set ts"
  shows "fst (plot_series fmt (map Some ts) bs r a) =
    map (\<lambda>t. cell_of fmt (find (\<lambda>b. b_time b * 1000 = t) (live_buckets bs))) ts"
  using plot_series_cells assms by blast

definition mk_bucket :: "int \<Rightarrow> rat \<Rightarrow> rat \<Rightarrow> rat \<Rightarrow> bucket" where
  "mk_bucket t lo avg hi = \<lparr>b_time = t, b_min = lo, b_avg = avg, b_max = hi, b_sdev = 0\<rparr>"

lemmas bucket_eval = mk_bucket_def live_buckets_def cell_of_def single_format_def

theorem plot_series_aligned_witness:
  "fst (plot_series ''noBars'' (map Some [10000, 20000, 30000])
     [mk_bucket 0 0 0 0, mk_bucket 10 1 2 3, mk_bucket 0 0 0 0, mk_bucket 30 4 5 6] init_range init_annot) =
   [[Some 2], [None], [Some 5]]"
  using plot_series_aligned [of "[10000, 20000, 30000]"
      "[mk_bucket 0 0 0 0, mk_bucket 10 1 2 3, mk_bucket 0 0 0 0, mk_bucket 30 4 5 6]"
      "''noBars''" init_range init_annot]
  by (simp add: bucket_eval)

section \<open>The vertical range covers what is drawn\<close>

text \<open>The numbers of a cell that are heights on the value axis: all of them, except that the
  second one of an error bar is a width.\<close>

definition heights :: "string \<Rightarrow> num list \<Rightarrow> num list" where
  "heights fmt c = (if fmt = ''errorBars'' then take 1 c else c)"

definition sane :: "bucket \<Rightarrow> bool" where
  "sane b \<longleftrightarrow> b_min b \<le> b_avg b \<and> b_avg b \<le> b_max b \<and> 0 \<le> b_sdev b"

definition range_ok :: "range \<Rightarrow> bool" where
  "range_ok r = (case (rg_minimum r, rg_maximum r, rg_minVal r) of
     (Some mn, Some mx, Some mv) \<Rightarrow> (rg_gotdata r \<longrightarrow> mn \<le> mx \<and> mv \<le> mx)
   | _ \<Rightarrow> False)"

definition in_range :: "range \<Rightarrow> rat \<Rightarrow> bool" where
  "in_range r x = (case (rg_minimum r, rg_maximum r, rg_minVal r) of
     (Some mn, Some mx, Some mv) \<Rightarrow> rg_gotdata r \<and> mn \<le> x \<and> mv \<le> x \<and> x \<le> mx
   | _ \<Rightarrow> False)"

lemmas range_defs = range_ok_def in_range_def

lemma range_ok_init [simp]: "range_ok init_range"
  by (simp add: range_ok_def init_range_def)

lemma pushfn_range_ok:
  assumes "range_ok r" "\<And>b. bk = Some b \<Longrightarrow> sane b"
  shows "range_ok (snd (pushfn fmt bk r))"
proof (cases bk)
  case None
  then show ?thesis using assms by (simp add: pushfn_def)
next
  case (Some b)
  moreover have "bucket_low fmt b \<le> bucket_high fmt b" "bucket_val fmt b \<le> bucket_high fmt b"
    using assms(2) [OF Some] by (auto simp: sane_def bucket_low_def bucket_high_def bucket_val_def)
  ultimately show ?thesis
    using assms(1) by (auto simp: range_ok_def pushfn_def split: option.splits)
qed

lemma pushfn_keeps: "in_range r x \<Longrightarrow> in_range (snd (pushfn fmt bk r)) x"
  by (auto simp: in_range_def pushfn_def split: option.splits)

lemma cell_heights:
  assumes "Some x \<in> set (heights fmt (cell_of fmt (Some b)))" "sane b"
  shows "bucket_low fmt b \<le> x \<and> bucket_val fmt b \<le> x \<and> x \<le> bucket_high fmt b"
  using assms
  by (auto simp: heights_def cell_of_def bucket_low_def bucket_high_def bucket_val_def sane_def
      single_format_def split: if_splits)

lemma no_heights_in_gap: "Some x \<notin> set (heights fmt (cell_of fmt None))"
  by (simp add: heights_def cell_of_def)

lemma pushfn_covers:
  assumes "Some x \<in> set (heights fmt (fst (pushfn fmt bk r)))" "range_ok r"
    "\<And>b. bk = Some b \<Longrightarrow> sane b"
  shows "in_range (snd (pushfn fmt bk r)) x"
proof (cases bk)
  case None
  then show ?thesis using assms(1) no_heights_in_gap by (simp add: pushfn_def)
next
  case (Some b)
  then show ?thesis
    using assms(1,2) cell_heights [of x fmt b] assms(3) [OF Some]
    by (auto simp: range_defs pushfn_def min_le_iff_disj le_max_iff_disj split: option.splits)
qed

lemma sane_dropWhile:
  assumes "\<forall>b\<in>set bs. sane b" "dropWhile P bs = b # rest"
  shows "sane b \<and> (\<forall>c\<in>set rest. sane c)"
proof -
  have "set (b # rest) \<subseteq> set bs" using set_dropWhileD [of _ P bs] assms(2) by fastforce
  then show ?thesis using assms(1) by auto
qed

definition drawn :: "string \<Rightarrow> range \<Rightarrow> num list list \<Rightarrow> range \<Rightarrow> bool" where
  "drawn fmt r col r' \<longleftrightarrow> range_ok r' \<and> (\<forall>x. in_range r x \<longrightarrow> in_range r' x) \<and>
     (\<forall>c\<in>set col. \<forall>x. Some x \<in> set (heights fmt c) \<longrightarrow> in_range r' x)"

lemma drawn_nil: "range_ok r \<Longrightarrow> drawn fmt r [] r"
  by (simp add: drawn_def)

lemma drawn_cons:
  assumes "range_ok r" "\<And>b. bk = Some b \<Longrightarrow> sane b" "pushfn fmt bk r = (c, r1)" "drawn fmt r1 col r2"
  shows "drawn fmt r (c # col) r2"
  using assms pushfn_keeps [of r _ fmt bk] pushfn_covers [of _ fmt bk r]
  by (auto simp: drawn_def)

lemma plot_series_drawn:
  assumes "range_ok r" "\<forall>b\<in>set bs. sane b" "plot_series fmt ts bs r a = (col, r', a')"
  shows "drawn fmt r col r' \<and> length col = length ts"
  using assms
proof (induction fmt ts bs r a arbitrary: col r' a' rule: plot_series.induct)
  case (1 fmt bs r a)
  then show ?case by (simp add: drawn_nil)
next
  case (2 fmt t ts bs r a)
  obtain bk bs1 a1 c r1 cs where step:
    "pushfn fmt bk r = (c, r1)" "plot_series fmt ts bs1 r1 a1 = (cs, r', a')" "col = c # cs"
    "\<And>b. bk = Some b \<Longrightarrow> sane b" "\<forall>b\<in>set bs1. sane b"
    and IH: "\<And>col r' a'. range_ok r1 \<Longrightarrow> plot_series fmt ts bs1 r1 a1 = (col, r', a') \<Longrightarrow>
        drawn fmt r1 col r' \<and> length col = length ts"
  proof (cases "dropWhile (\<lambda>b. b_time b = 0) bs")
    case Nil
    obtain c r1 where p: "pushfn fmt None r = (c, r1)" by fastforce
    show ?thesis
      using that [of None c r1 "[]" a] "2.IH"(1) [OF Nil p [symmetric]] "2.prems" Nil p
      by (auto simp del: dropWhile_eq_Nil_conv split: prod.splits)
  next
    case (Cons b rest)
    note sane = sane_dropWhile [OF "2.prems"(2) Cons]
    obtain c0 r0 where p0: "pushfn fmt None r = (c0, r0)" by fastforce
    obtain c1 r1 where p1: "pushfn fmt (Some b) r = (c1, r1)" by fastforce
    show ?thesis
    proof (cases "num_eq (Some (b_time b * 1000)) t")
      case True
      show ?thesis
        using that [of "Some b" c1 r1 rest "note_bucket b t a"]
          "2.IH"(2) [OF Cons refl True p1 [symmetric]] "2.prems" Cons p1 sane True
        by (auto split: prod.splits)
    next
      case False
      show ?thesis
        using that [of None c0 r0 "b # rest" "note_bucket b t a"]
          "2.IH"(3) [OF Cons refl False p0 [symmetric]] "2.prems" Cons p0 sane False
        by (auto split: prod.splits)
    qed
  qed
  then have "range_ok r1" using pushfn_range_ok [of r bk fmt] "2.prems"(1) by simp
  then show ?case using IH [OF _ step(2)] step(3) drawn_cons [OF "2.prems"(1) step(4,1)] by auto
qed

lemma drawn_trans:
  assumes "drawn fmt r col r1" "\<And>x. in_range r1 x \<Longrightarrow> in_range r2 x" "range_ok r2"
  shows "drawn fmt r col r2"
  using assms by (auto simp: drawn_def)

text \<open>What the loop over all series keeps of the plot.\<close>

definition plot_ok :: "string \<Rightarrow> js_date list \<Rightarrow> plot_state \<Rightarrow> bool" where
  "plot_ok fmt grid p \<longleftrightarrow> range_ok (ps_range p) \<and> length (ps_labels p) = Suc (length (ps_columns p)) \<and>
     (\<forall>col\<in>set (ps_columns p). length col = length grid \<and> drawn fmt init_range col (ps_range p))"

lemma plot_ok_init [simp]: "plot_ok fmt grid init_plot"
  by (simp add: plot_ok_def init_plot_def)

lemma in_range_init [simp]: "\<not> in_range init_range x"
  by (simp add: in_range_def init_range_def)

lemma add_series_ok:
  assumes "plot_ok fmt grid p" "\<forall>b\<in>set bs. sane b"
  shows "plot_ok fmt grid (add_series fmt grid k bs p)"
proof -
  obtain col r a where q: "plot_series fmt grid bs (ps_range p) init_annot = (col, r, a)"
    by (metis prod_cases3)
  have ok: "range_ok (ps_range p)" using assms by (simp add: plot_ok_def)
  have d: "drawn fmt (ps_range p) col r" "length col = length grid"
    using plot_series_drawn [OF ok assms(2) q] by auto
  then have "range_ok r" "\<And>x. in_range (ps_range p) x \<Longrightarrow> in_range r x" "drawn fmt init_range col r"
    by (auto simp: drawn_def)
  then show ?thesis
    using assms d q by (auto simp: plot_ok_def add_series_def intro: drawn_trans)
qed

definition data_sane :: "render_data \<Rightarrow> bool" where
  "data_sane data \<longleftrightarrow> (\<forall>k bs. oget data k = Some (RSeries (Some bs)) \<longrightarrow> (\<forall>b\<in>set bs. sane b))"

lemma each_series_ok:
  assumes "data_sane data" "plot_ok fmt grid p" "each_series fmt grid data ks p = Ok p'"
  shows "plot_ok fmt grid p'"
  using assms
  by (induction fmt grid data ks p rule: each_series.induct)
    (auto simp: data_sane_def split: option.splits rd_val.splits, metis add_series_ok)

lemma value_range_covers:
  assumes "range_ok r"
  shows "\<exists>lo hi. value_range r = (Some lo, Some hi) \<and> lo < hi \<and> (\<forall>x. in_range r x \<longrightarrow> lo \<le> x \<and> x \<le> hi)"
proof -
  obtain mn mx mv where r: "rg_minimum r = Some mn" "rg_maximum r = Some mx" "rg_minVal r = Some mv"
    and le: "rg_gotdata r \<Longrightarrow> mn \<le> mx \<and> mv \<le> mx"
    using assms by (auto simp: range_ok_def split: option.splits)
  show ?thesis
  proof (cases "rg_gotdata r")
    case False
    then have "value_range r = (Some 0, Some (11 / 10))" by (simp add: value_range_def num_neg_def)
    moreover have "\<not> in_range r x" for x using False r by (simp add: in_range_def)
    ultimately show ?thesis by (intro exI [of _ 0] exI [of _ "11 / 10"]) simp
  next
    case True
    define slop where "slop = (if (mx - mn) * (1 / 20) = 0 then 1 / 2 else (mx - mn) * (1 / 20))"
    have slop: "0 < slop" using le [OF True] by (auto simp: slop_def)
    have "value_range r = (if 0 \<le> mv \<and> mn - slop < 0 then Some 0 else Some (mn - slop), Some (mx + slop * 2))"
      using True r by (simp add: value_range_def slop_def Let_def num_nonneg_def num_neg_def)
    then show ?thesis using slop le [OF True] r by (auto simp: in_range_def)
  qed
qed


definition sample_data :: "bucket list \<Rightarrow> render_data" where
  "sample_data bs = [(''start'', RNum 10), (''stop'', RNum 40), (''interval'', RNum 10), (''a'', RSeries (Some bs))]"

lemma sample_times: "plot_times (sample_data bs) = Some [Some 10000, Some 20000, Some 30000]"
  by (simp add: plot_times_def get_num_def oget_def sample_data_def plot_loop.simps new_Date_def)

lemma sample_keys: "okeys (sample_data bs) = [''start'', ''stop'', ''interval'', ''a'']"
proof -
  have "order_keys [''start'', ''stop'', ''interval'', ''a''] = [''start'', ''stop'', ''interval'', ''a'']"
    by code_simp
  then show ?thesis by (simp add: sample_data_def okeys_def)
qed

lemma sample_each:
  "each_series fmt grid (sample_data bs) (okeys (sample_data bs)) p = Ok (add_series fmt grid ''a'' bs p)"
  unfolding sample_keys by (simp add: sample_data_def oget_def)


section \<open>Two departures from the intent\<close>

text \<open>The annotation of a minimum or maximum is stamped with the first grid time at which
  its bucket is the next one to draw, which is earlier than the bucket's own time when a gap
  comes before it: here the only bucket has time 30 and both annotations are placed at time 10.\<close>

theorem annotation_before_its_bucket:
  "map at_x (ps_annotations (add_series ''noBars'' [Some 10000, Some 20000, Some 30000] ''a''
      [mk_bucket 30 1 2 3] init_plot)) = [Some (Some 10000), Some (Some 10000)] \<and>
   ps_columns (add_series ''noBars'' [Some 10000, Some 20000, Some 30000] ''a''
      [mk_bucket 30 1 2 3] init_plot) = [[[None], [None], [Some 2]]]"
  by (simp add: add_series_def init_plot_def init_annot_def init_range_def pushfn_def note_bucket_def
      big_def bucket_eval)

lemma nmax_None [simp]: "nmax x None = None"
  by (cases x) simp_all

lemma fold_nmax_None: "fold nmax xs None = None"
proof (induction xs)
  case (Cons x xs)
  then show ?case by (cases x) auto
qed simp

lemma stacked_maximum_hole: "None \<in> set tot \<Longrightarrow> stacked_maximum tot = None"
proof -
  assume "None \<in> set tot"
  then have "fold nmax tot m = None" for m
    by (induction tot arbitrary: m) (auto simp: fold_nmax_None)
  then show ?thesis by (simp add: stacked_maximum_def)
qed

lemma value_range_nan: "rg_gotdata r \<Longrightarrow> value_range (r\<lparr>rg_maximum := None\<rparr>) = (None, None)"
  by (cases "rg_minimum r") (simp_all add: value_range_def num_neg_def)

text \<open>For a stacked chart whose only series has fewer buckets than the grid has times, the
  maximum over the sums is NaN, so both ends of the vertical range are NaN although all the
  plotted values are numbers.\<close>

theorem stacked_range_nan:
  "map_option (\<lambda>r. case r of Ok (Some pl) \<Rightarrow> Some (pl_columns pl, pl_valueRange pl) | _ \<Rightarrow> None)
     (repaint_plot ''stacked'' (sample_data [mk_bucket 10 1 2 3, mk_bucket 20 2 3 4])) =
   Some (Some ([[[Some 2], [Some 3], [None]]], (None, None)))"
proof -
  let ?bs = "[mk_bucket 10 1 2 3, mk_bucket 20 2 3 4]"
  let ?p = "add_series ''stacked'' [Some 10000, Some 20000, Some 30000] ''a'' ?bs init_plot"
  have "stacked_maximum (stacked_sums (Suc (Suc (Suc 0))) (sample_data ?bs)) = None"
    by (rule stacked_maximum_hole, unfold stacked_sums_def sample_keys)
      (simp add: sample_data_def oget_def mk_bucket_def)
  moreover have "ps_columns ?p = [[[Some 2], [Some 3], [None]]] \<and> rg_gotdata (ps_range ?p)"
    by (simp add: add_series_def init_plot_def init_annot_def init_range_def pushfn_def note_bucket_def
        big_def bucket_eval)
  ultimately show ?thesis
    by (simp add: repaint_plot_def sample_times sample_each value_range_nan Let_def)
qed

end
