(* ===== verification/Grid.thy ===== *)
theory Grid
  imports Loader Repaint Calendar
begin

text \<open>
  The grid of graphs of src/files/graph.js: \<open>GraphSurface\<close> and \<open>GraphGrid\<close> with the
  operations that change them, the bulk operations on counters (\<open>toggleGraphing\<close>,
  \<open>change_counters\<close>, \<open>add_counters\<close>, \<open>getGraphedCounters\<close>), the sizes, and the operations
  on the time range that reload every graph (\<open>refresh\<close>, \<open>set_interval\<close>, \<open>zoomOutIntervals\<close>,
  \<open>resetDateRange\<close>, the zoom callback). The application state extends the one of the time
  line by the surfaces, the loader and the pending paints. A surface is a reference into a
  list that only grows, so that callbacks of a closed surface are visible. The clock is a field
  that does not move while one handler runs; the text of a stack trace is a field too.
\<close>

section \<open>State\<close>

text \<open>\<open>sf_series\<close> is missing after \<open>close\<close>, which sets it to null; the value functions that
  \<open>_series\<close> holds are never called, so only the keys are kept. \<open>sf_dygraph\<close> is what the
  plotting library was given.\<close>

record surface =
  sf_series :: "unit jsobj option"
  sf_last :: render_data
  sf_format :: string
  sf_dygraph :: "plot option"
  sf_inDom :: bool
  sf_box :: "int \<times> int"
  sf_summary :: bool

text \<open>The callback of a reload closes over the surface and the keys it asked for.\<close>

type_synonym render_cb = "nat \<times> string list"

record app = timeline +
  ap_clock :: int
  ap_stack :: string
  ap_surfaces :: "surface list"
  ap_allGraphs :: "nat list"
  ap_selected :: "nat option"
  ap_loader :: "render_cb loader"
  ap_width :: int
  ap_height :: int
  ap_maxSamples :: "int option"
  ap_sizeDropdown :: "int option"
  ap_paints :: "(nat \<times> nat \<times> bool) list"
  ap_dimmed :: bool
  ap_domains :: "(rat \<times> rat) jsobj"

definition new_surface :: surface where
  "new_surface = \<lparr>sf_series = Some [], sf_last = [], sf_format = ''customBars'', sf_dygraph = None,
     sf_inDom = True, sf_box = (0, 0), sf_summary = False\<rparr>"

definition surf :: "nat \<Rightarrow> 'z app_scheme \<Rightarrow> surface" where
  "surf g s = ap_surfaces s ! g"

definition set_surf :: "nat \<Rightarrow> surface \<Rightarrow> 'z app_scheme \<Rightarrow> 'z app_scheme" where
  "set_surf g v s = s\<lparr>ap_surfaces := (ap_surfaces s)[g := v]\<rparr>"

text \<open>A handler wrapped in \<open>guard\<close> whose result nobody uses.\<close>

definition guarded :: "string \<Rightarrow> ('z app_scheme \<Rightarrow> 'a outcome \<times> 'z app_scheme) \<Rightarrow> 'z app_scheme \<Rightarrow> 'z app_scheme" where
  "guarded fname f s = snd (guard fname (ap_stack s) f s)"

section \<open>Graph surfaces\<close>

definition series_keys :: "surface \<Rightarrow> string list" where
  "series_keys sf = (case sf_series sf of None \<Rightarrow> [] | Some ser \<Rightarrow> keys ser)"

definition sample_count :: "'z app_scheme \<Rightarrow> int" where
  "sample_count s = (case ap_maxSamples s of None \<Rightarrow> ap_width s | Some n \<Rightarrow> if n = 0 then ap_width s else n)"

text \<open>The guarded method of the loader, called on the loader of the application.\<close>

definition loader_add :: "string list \<Rightarrow> int \<Rightarrow> int \<Rightarrow> render_cb \<Rightarrow> 'z app_scheme \<Rightarrow> 'z app_scheme" where
  "loader_add ks maxTime maxSamples cb s =
     guarded ''Loader_addToNextGet''
       (\<lambda>s. case addToNextGet (getAdjustedNow (ap_clock s)) ks maxTime maxSamples cb (ap_loader s) of
              (oc, l) \<Rightarrow> (oc, s\<lparr>ap_loader := l\<rparr>)) s"

definition reload :: "nat \<Rightarrow> 'z app_scheme \<Rightarrow> 'z app_scheme" where
  "reload g s =
     (let seriesKeys = series_keys (surf g s)
      in loader_add seriesKeys 500 (sample_count s) (g, seriesKeys) s)"

definition destroyDygraph :: "surface \<Rightarrow> surface" where
  "destroyDygraph sf = sf\<lparr>sf_dygraph := None\<rparr>"

definition toggle_series :: "string \<Rightarrow> unit jsobj \<Rightarrow> unit jsobj" where
  "toggle_series path ser =
     (if otruthy ser path then (if length (keys ser) > 1 then odel path ser else ser)
      else oset path () ser)"

definition toggleSeries :: "nat \<Rightarrow> string \<Rightarrow> 'z app_scheme \<Rightarrow> 'z app_scheme" where
  "toggleSeries g path s =
     guarded ''GraphSurface_toggleSeries''
       (\<lambda>s. case sf_series (surf g s) of
              None \<Rightarrow> (Throw (TypeError ''property of null''), s)
            | Some ser \<Rightarrow>
                (Ok (), reload g (set_surf g ((surf g s)\<lparr>sf_series := Some (toggle_series path ser)\<rparr>) s))) s"

text \<open>A field that the reply does not have is undefined.\<close>

definition reply_field :: "render_data \<Rightarrow> string \<Rightarrow> rd_val" where
  "reply_field data k = (case oget data k of None \<Rightarrow> RUndef | Some v \<Rightarrow> v)"

definition render_fields :: "string list \<Rightarrow> render_data \<Rightarrow> render_data" where
  "render_fields seriesKeys data =
     fold (\<lambda>k d. oset k (reply_field data k) d) seriesKeys
       [(''start'', reply_field data ''start''), (''stop'', reply_field data ''stop''),
        (''interval'', reply_field data ''interval'')]"

definition renderData :: "nat \<Rightarrow> string list \<Rightarrow> render_data \<Rightarrow> 'z app_scheme \<Rightarrow> 'z app_scheme" where
  "renderData g seriesKeys data s =
     (if seriesKeys = [] then s
      else (set_surf g ((surf g s)\<lparr>sf_last := render_fields seriesKeys data\<rparr>) s)
             \<lparr>ap_paints := ap_paints s @ [(g, 1, True)]\<rparr>)"

text \<open>\<open>repaint\<close>; the result is missing when its loop over the times does not end.\<close>

definition repaint :: "nat \<Rightarrow> 'z app_scheme \<Rightarrow> 'z app_scheme option" where
  "repaint g s =
     (let s1 = set_surf g ((surf g s)\<lparr>sf_box := (ap_width s - 30, ap_height s - 60)\<rparr>) s
      in case repaint_plot (sf_format (surf g s1)) (sf_last (surf g s1)) of
           None \<Rightarrow> None
         | Some (Throw e) \<Rightarrow> Some (errorDialog (guard_message ''GraphSurface_repaint'' e (ap_stack s1)) s1)
         | Some (Ok None) \<Rightarrow> Some s1
         | Some (Ok (Some pl)) \<Rightarrow>
             Some (set_surf g ((destroyDygraph (surf g s1))\<lparr>sf_dygraph := Some pl\<rparr>) (s1\<lparr>ap_dimmed := False\<rparr>)))"

definition getSeries :: "nat \<Rightarrow> 'z app_scheme \<Rightarrow> string list" where
  "getSeries g s = series_keys (surf g s)"

definition format_choices :: "(string \<times> string) list" where
  "format_choices = [(''noBars'', ''Lines''), (''errorBars'', ''StdDev''), (''customBars'', ''Min/Max''),
     (''stacked'', ''Stacked''), (''area'', ''Area'')]"

definition showSettings :: "'z app_scheme \<Rightarrow> nat \<times> 'z app_scheme" where
  "showSettings s = choiceDialog ''Choose display format for these graphs.'' format_choices s"

definition choose_format :: "nat \<Rightarrow> string \<Rightarrow> 'z app_scheme \<Rightarrow> 'z app_scheme option" where
  "choose_format g v s = repaint g (set_surf g ((surf g s)\<lparr>sf_format := v\<rparr>) s)"

definition toggleSummary :: "nat \<Rightarrow> 'z app_scheme \<Rightarrow> 'z app_scheme" where
  "toggleSummary g s = set_surf g ((surf g s)\<lparr>sf_summary := \<not> sf_summary (surf g s)\<rparr>) s"

section \<open>The grid\<close>

definition grid_add :: "nat \<Rightarrow> 'z app_scheme \<Rightarrow> 'z app_scheme" where
  "grid_add g s = s\<lparr>ap_allGraphs := ap_allGraphs s @ [g]\<rparr>"

definition newGraph :: "'z app_scheme \<Rightarrow> nat \<times> 'z app_scheme" where
  "newGraph s =
     (let g = length (ap_surfaces s)
      in (g, grid_add g (s\<lparr>ap_surfaces := ap_surfaces s @ [new_surface]\<rparr>)))"

definition select :: "nat \<Rightarrow> 'z app_scheme \<Rightarrow> 'z app_scheme" where
  "select g s = s\<lparr>ap_selected := Some g\<rparr>"

definition surface_click :: "nat \<Rightarrow> 'z app_scheme \<Rightarrow> 'z app_scheme" where
  "surface_click g s = select g s"

definition grid_click :: "'z app_scheme \<Rightarrow> 'z app_scheme" where
  "grid_click s = s\<lparr>ap_selected := None\<rparr>"

definition grid_remove :: "nat \<Rightarrow> 'z app_scheme \<Rightarrow> 'z app_scheme" where
  "grid_remove g s =
     (let s1 = (if ap_selected s = Some g then s\<lparr>ap_selected := None\<rparr> else s);
          s2 = s1\<lparr>ap_allGraphs := arrayRemove (ap_allGraphs s1) g\<rparr>
      in if ap_allGraphs s2 = [] then restoreOriginalInterval s2 else s2)"

definition close_surface :: "nat \<Rightarrow> 'z app_scheme \<Rightarrow> 'z app_scheme" where
  "close_surface g s =
     grid_remove g (set_surf g ((destroyDygraph (surf g s))\<lparr>sf_series := None, sf_inDom := False\<rparr>) s)"

definition clear :: "'z app_scheme \<Rightarrow> 'z app_scheme" where
  "clear s = fold close_surface (ap_allGraphs s) (s\<lparr>ap_selected := None\<rparr>)"

text \<open>The delays are 1, 2, 3, ... so that the browser can breathe between two graphs.\<close>

definition repaintAll :: "'z app_scheme \<Rightarrow> 'z app_scheme" where
  "repaintAll s =
     s\<lparr>ap_paints := ap_paints s @ map (\<lambda>(g, v). (g, Suc v, False)) (zip (ap_allGraphs s) [0..<length (ap_allGraphs s)])\<rparr>"

definition reloadAll :: "'z app_scheme \<Rightarrow> 'z app_scheme" where
  "reloadAll s = fold reload (ap_allGraphs s) s"

section \<open>Counters\<close>

definition toggleGraphing :: "string \<Rightarrow> nat option \<Rightarrow> 'z app_scheme \<Rightarrow> unit outcome \<times> 'z app_scheme" where
  "toggleGraphing path graph_offset s =
     (case graph_offset of
        None \<Rightarrow>
          (case ap_selected s of
             Some g \<Rightarrow> (Ok (), toggleSeries g path s)
           | None \<Rightarrow> (case newGraph s of (nu, s1) \<Rightarrow> (Ok (), toggleSeries nu path (select nu s1))))
      | Some i \<Rightarrow>
          (if i < length (ap_allGraphs s) then (Ok (), toggleSeries (ap_allGraphs s ! i) path s)
           else (Throw (TypeError ''toggleSeries of undefined''), s)))"

text \<open>The result is collected in an array, where a counter with the name length would be the
  array's own length.\<close>

definition count_counter :: "string \<Rightarrow> unit jsobj \<Rightarrow> unit jsobj" where
  "count_counter path a =
     (if path = ''length'' then filter (\<lambda>p. \<not> is_index (fst p) \<or> fst p = ''0'') a else oset path () a)"

definition getGraphedCounters :: "'z app_scheme \<Rightarrow> string list" where
  "getGraphedCounters s =
     arrayKeys (fold (\<lambda>g a. fold count_counter (series_keys (surf g s)) a) (ap_allGraphs s) [])"

text \<open>\<open>String.prototype.split\<close> with a limit of two; a missing second part is undefined, which
  \<open>replace\<close> writes as text.\<close>

definition from_part :: "string \<Rightarrow> string" where
  "from_part from_to = hd (split_lim (CHR '':'') 2 from_to)"

definition to_part :: "string \<Rightarrow> string" where
  "to_part from_to =
     (case split_lim (CHR '':'') 2 from_to of _ # t # _ \<Rightarrow> t | _ \<Rightarrow> ''undefined'')"

text \<open>One key of the loop: a key that was deleted in the meantime is not visited.\<close>

definition change_path :: "string \<Rightarrow> string \<Rightarrow> bool \<Rightarrow> nat \<Rightarrow> string \<Rightarrow> 'z app_scheme \<Rightarrow> 'z app_scheme" where
  "change_path from to keep g path s =
     (if path \<in> set (series_keys (surf g s)) \<and> index_of from path \<noteq> None
      then (let s1 = toggleSeries g (replace_first from to path) s
            in if keep then s1 else toggleSeries g path s1)
      else s)"

definition change_graph :: "string \<Rightarrow> string \<Rightarrow> bool \<Rightarrow> nat \<Rightarrow> 'z app_scheme \<Rightarrow> 'z app_scheme" where
  "change_graph from to keep g s = reload g (fold (change_path from to keep g) (series_keys (surf g s)) s)"

definition change_counters :: "string \<Rightarrow> bool \<Rightarrow> 'z app_scheme \<Rightarrow> 'z app_scheme" where
  "change_counters from_to keep s =
     fold (change_graph (from_part from_to) (to_part from_to) keep) (ap_allGraphs s) s"

definition add_counters :: "string \<Rightarrow> 'z app_scheme \<Rightarrow> 'z app_scheme" where
  "add_counters match_add s = change_counters match_add True s"

section \<open>The time range\<close>

definition refresh :: "'z app_scheme \<Rightarrow> 'z app_scheme" where
  "refresh s =
     guarded ''_refresh''
       (\<lambda>s. if tl_hidden s then (Ok (), s)
            else (case begin_progress s of
                    (h, s1) \<Rightarrow> end_progress h (reloadAll (slide_window (ap_clock s1) s1)))) s"

definition set_interval :: "int \<Rightarrow> 'z app_scheme \<Rightarrow> 'z app_scheme" where
  "set_interval i s =
     refresh (calcReloadInterval (restoreOriginalInterval
       (s\<lparr>tl_origStart := new_Date (num_minus (tl_origStop s) (Some (i * 1000))), ap_maxSamples := None\<rparr>)))"

definition zoomOutIntervals :: "'z app_scheme \<Rightarrow> 'z app_scheme" where
  "zoomOutIntervals s = refresh (calcReloadInterval (restoreOriginalInterval (s\<lparr>ap_dimmed := True\<rparr>)))"

definition resetDateRange :: "js_date \<Rightarrow> js_date \<Rightarrow> 'z app_scheme \<Rightarrow> 'z app_scheme" where
  "resetDateRange dFrom dTo s = reloadAll (reset_range_state dFrom dTo s)"

text \<open>The mouse-up handler stores the shown domain, the zoom callback compares with it; the
  plotting library's name for a graph and the domains are its own.\<close>

definition zoom_mouseup :: "string \<Rightarrow> rat \<times> rat \<Rightarrow> 'z app_scheme \<Rightarrow> 'z app_scheme" where
  "zoom_mouseup gs xrange s = s\<lparr>ap_domains := oset gs xrange (ap_domains s)\<rparr>"

definition trunc :: "rat \<Rightarrow> int" where
  "trunc x = (if 0 \<le> x then \<lfloor>x\<rfloor> else \<lceil>x\<rceil>)"

definition zoomCallback :: "string \<Rightarrow> rat \<Rightarrow> rat \<Rightarrow> 'z app_scheme \<Rightarrow> 'z app_scheme" where
  "zoomCallback gs minX maxX s =
     (if oget (ap_domains s) gs = Some (minX, maxX) then s
      else refresh (calcReloadInterval
        (s\<lparr>ap_dimmed := True, tl_curStart := new_Date (Some (trunc minX)), tl_curStop := new_Date (Some (trunc maxX))\<rparr>)))"

definition range_fields :: "(string \<times> string) list" where
  "range_fields = [(''from'', ''From:''), (''to'', ''To:''),
     (''maxSamples'', ''Max Samples:<br/>(Optional. If not given, defaults to graph width.)'')]"

definition select_daterange :: "'z app_scheme \<Rightarrow> nat \<times> 'z app_scheme" where
  "select_daterange s = promptDialogN ''Please enter a date range (YYYY-MM-DD [HH:MM]):'' range_fields s"

text \<open>The submit callback; today's date and the offset of local time are the browser's.\<close>

definition daterange_submit :: "civil \<Rightarrow> int \<Rightarrow> string \<Rightarrow> string \<Rightarrow> string \<Rightarrow> 'z app_scheme \<Rightarrow> bool \<times> 'z app_scheme" where
  "daterange_submit today off from to maxSamples s =
     (case parseDate today from of
        None \<Rightarrow> (False, errorDialog ''The start date is not valid.'' s)
      | Some dFrom \<Rightarrow>
          (case parseDate today to of
             None \<Rightarrow> (False, errorDialog ''The end date is not valid.'' s)
           | Some dTo \<Rightarrow>
               (if getTime off dFrom \<ge> getTime off dTo
                then (False, errorDialog ''The end date must be after the start date.'' s)
                else if \<not> list_all is_digit maxSamples
                then (False, errorDialog ''Max sample count must be a positive integer, or left blank.'' s)
                else (True, resetDateRange (Some (getTime off dFrom)) (Some (getTime off dTo))
                              (s\<lparr>ap_maxSamples := parse_int maxSamples\<rparr>)))))"

section \<open>Sizes\<close>

definition setGraphSize :: "int \<Rightarrow> int \<Rightarrow> 'z app_scheme \<Rightarrow> 'z app_scheme" where
  "setGraphSize w h s = repaintAll (s\<lparr>ap_width := w, ap_height := h\<rparr>)"

definition graph_size :: "int \<Rightarrow> int \<Rightarrow> int option \<Rightarrow> 'z app_scheme \<Rightarrow> 'z app_scheme" where
  "graph_size w h item s = setGraphSize w h (s\<lparr>ap_sizeDropdown := item\<rparr>)"

definition digits_only :: "string \<Rightarrow> string" where
  "digits_only str = filter is_digit str"

definition size_setCustom :: "string \<Rightarrow> 'z app_scheme \<Rightarrow> bool \<times> 'z app_scheme" where
  "size_setCustom sizeStr s =
     (let a0 = split_lim (CHR ''x'') 2 sizeStr;
          a = (if length a0 \<noteq> 2 then split_chr (CHR '','') sizeStr else a0)
      in if length a \<noteq> 2 then (False, errorDialog ''Please specify size as WxH (or W,H).'' s)
         else (let wStr = digits_only (a ! 0); hStr = digits_only (a ! 1)
               in if wStr = [] \<or> hStr = []
                  then (False, errorDialog ''Please specify integer width and height as WxH (or W,H).'' s)
                  else (let w = int (digits_val wStr); h = int (digits_val hStr)
                        in if w < 10 \<or> w > 4000 \<or> h < 10 \<or> h > 2000
                           then (False, errorDialog ''Please specify width and height within reasonable ranges.'' s)
                           else (True, setGraphSize w h s))))"

section \<open>Browser events\<close>

text \<open>A pending paint; the one \<open>renderData\<close> schedules is skipped when the page is hidden.\<close>

definition paint :: "'z app_scheme \<Rightarrow> 'z app_scheme option" where
  "paint s =
     (case ap_paints s of
        [] \<Rightarrow> Some s
      | (g, delay, check) # rest \<Rightarrow>
          (let s1 = s\<lparr>ap_paints := rest\<rparr>
           in if check \<and> tl_hidden s1 then Some s1 else repaint g s1))"

definition cur_range :: "'z app_scheme \<Rightarrow> int option \<times> int option" where
  "cur_range s = (tl_curStart s, tl_curStop s)"

definition loader_timer :: "nat \<Rightarrow> 'z app_scheme \<Rightarrow> 'z app_scheme" where
  "loader_timer h s =
     guarded ''Loader_onTimer''
       (\<lambda>s. case onTimer (cur_range s)
               ((ap_loader s)\<lparr>ld_timers := filter (\<lambda>p. fst p \<noteq> h) (ld_timers (ap_loader s))\<rparr>) of
              (oc, l) \<Rightarrow> (oc, s\<lparr>ap_loader := l\<rparr>)) s"

definition run_render :: "render_cb \<Rightarrow> render_data \<Rightarrow> 'z app_scheme \<Rightarrow> unit outcome \<times> 'z app_scheme" where
  "run_render cb data s = (Ok (), renderData (fst cb) (snd cb) data s)"

definition loader_complete :: "render_data reply \<Rightarrow> 'z app_scheme \<Rightarrow> 'z app_scheme" where
  "loader_complete r s =
     guarded ''Loader_onXhrComplete''
       (\<lambda>s. case ld_xhr (ap_loader s) of
              None \<Rightarrow> (Ok (), s)
            | Some rq \<Rightarrow>
                (case onXhrComplete run_render (cur_range s) r rq s (ap_loader s) of
                   (oc, s1, l) \<Rightarrow> (oc, s1\<lparr>ap_loader := l\<rparr>))) s"

section \<open>Invariant\<close>

definition series_ok :: "surface \<Rightarrow> bool" where
  "series_ok sf = (case sf_series sf of None \<Rightarrow> True
     | Some ser \<Rightarrow> wf_obj ser \<and> (\<forall>k\<in>set (okeys ser). \<not> inherited k))"

text \<open>The open surfaces are the ones of the grid, each once, and the selection is among them.\<close>

definition grid_ok :: "surface list \<Rightarrow> nat list \<Rightarrow> nat option \<Rightarrow> bool" where
  "grid_ok sfs gs sel \<longleftrightarrow> distinct gs \<and> (\<forall>sf\<in>set sfs. series_ok sf) \<and>
     (\<forall>g. g \<in> set gs \<longleftrightarrow> g < length sfs \<and> sf_series (sfs ! g) \<noteq> None) \<and>
     (case sel of None \<Rightarrow> True | Some g \<Rightarrow> g \<in> set gs)"

definition cbs_ok :: "nat \<Rightarrow> render_cb cb_obj iobj \<Rightarrow> bool" where
  "cbs_ok n cs \<longleftrightarrow> (\<forall>p\<in>set cs. fst (co_cb (snd p)) < n)"

definition refs_ok :: "nat \<Rightarrow> render_cb loader \<Rightarrow> (nat \<times> nat \<times> bool) list \<Rightarrow> bool" where
  "refs_ok n l ps \<longleftrightarrow> (\<forall>p\<in>set ps. fst p < n) \<and> cbs_ok n (ld_cbObjs l) \<and>
     (case ld_xhr l of None \<Rightarrow> True | Some rq \<Rightarrow> cbs_ok n (rq_cbObjs rq))"

definition app_inv :: "'z app_scheme \<Rightarrow> bool" where
  "app_inv s \<longleftrightarrow> grid_ok (ap_surfaces s) (ap_allGraphs s) (ap_selected s) \<and> ld_inv (ap_loader s) \<and>
     refs_ok (length (ap_surfaces s)) (ap_loader s) (ap_paints s) \<and> auto_ok s"

text \<open>Operations on the dialogs, the bar and the time range leave the rest alone.\<close>

definition same_core :: "'z app_scheme \<Rightarrow> 'z app_scheme \<Rightarrow> bool" where
  "same_core s t \<longleftrightarrow> ap_surfaces t = ap_surfaces s \<and> ap_allGraphs t = ap_allGraphs s \<and>
     ap_selected t = ap_selected s \<and> ap_loader t = ap_loader s \<and> ap_paints t = ap_paints s"

lemma same_core_refl [simp]: "same_core s s"
  by (simp add: same_core_def)

lemma same_core_trans: "same_core s t \<Longrightarrow> same_core t u \<Longrightarrow> same_core s u"
  by (simp add: same_core_def)

lemma same_core_inv: "same_core s t \<Longrightarrow> auto_ok t \<Longrightarrow> app_inv s \<Longrightarrow> app_inv t"
  by (simp add: same_core_def app_inv_def)

lemma same_core_ops [simp]:
  "same_core s (errorDialog m s)" "same_core s (calcReloadInterval s)" "same_core s (restoreOriginalInterval s)"
  "same_core s (setAutoRefresh b s)" "same_core s (slide_window c s)" "same_core s (setManual b s)"
  "same_core s (snd (begin_progress s))" "same_core s (snd (end_progress h s))" "same_core s (auto_refresh s)"
  by (simp_all add: same_core_def errorDialog_def calcReloadInterval_def restoreOriginalInterval_def
      setAutoRefresh_def slide_window_def setManual_def begin_progress_def end_progress_def auto_refresh_def
      set_interval_timer_def clear_interval_timer_def Let_def split: option.splits)

lemma auto_ok_ops [simp]:
  "auto_ok (errorDialog m s) = auto_ok s" "auto_ok (calcReloadInterval s) = auto_ok s"
  "auto_ok (restoreOriginalInterval s) = auto_ok s" "auto_ok (slide_window c s) = auto_ok s"
  "auto_ok (setManual b s) = auto_ok s" "auto_ok (snd (begin_progress s)) = auto_ok s"
  "auto_ok (snd (end_progress h s)) = auto_ok s"
  by (simp_all add: auto_ok_def errorDialog_def calcReloadInterval_def restoreOriginalInterval_def
      slide_window_def setManual_def begin_progress_def end_progress_def Let_def split: option.splits)

lemma auto_ok_fields [simp]:
  "auto_ok (s\<lparr>ap_loader := l\<rparr>) = auto_ok s" "auto_ok (s\<lparr>ap_surfaces := sfs\<rparr>) = auto_ok s"
  "auto_ok (s\<lparr>ap_allGraphs := gs\<rparr>) = auto_ok s" "auto_ok (s\<lparr>ap_selected := sel\<rparr>) = auto_ok s"
  "auto_ok (s\<lparr>ap_paints := ps\<rparr>) = auto_ok s" "auto_ok (s\<lparr>ap_dimmed := d\<rparr>) = auto_ok s"
  by (simp_all add: auto_ok_def)

lemma app_inv_errorDialog [simp]: "app_inv (errorDialog m s) = app_inv s"
  by (simp add: app_inv_def auto_ok_def errorDialog_def)

lemma guarded_ok: "f s = (Ok x, t) \<Longrightarrow> guarded fname f s = t"
  by (simp add: guarded_def guard_def)

lemma guarded_cases:
  "guarded fname f s = snd (f s) \<or> (\<exists>m. guarded fname f s = errorDialog m (snd (f s)))"
  by (auto simp: guarded_def guard_def split: prod.splits outcome.splits)

lemma guarded_inv: "app_inv (snd (f s)) \<Longrightarrow> app_inv (guarded fname f s)"
  using guarded_cases [of fname f s] by auto

section \<open>Reloading\<close>

lemma okeys_series: "series_ok sf \<Longrightarrow> \<forall>k\<in>set (series_keys sf). \<not> inherited k"
  by (simp add: series_ok_def series_keys_def keys_def split: option.splits)

lemma cbs_ok_iset: "cbs_ok n cs \<Longrightarrow> fst (co_cb c) < n \<Longrightarrow> cbs_ok n (iset i c cs)"
  using set_iset [of i c cs] by (auto simp: cbs_ok_def)

lemma loader_add_eq:
  assumes "\<forall>k\<in>set ks. \<not> inherited k"
  shows "\<exists>l. loader_add ks mt ms cb s = s\<lparr>ap_loader := l\<rparr> \<and>
    (ld_inv (ap_loader s) \<longrightarrow> ld_inv l \<and> ld_live l) \<and>
    (refs_ok n (ap_loader s) ps \<longrightarrow> fst cb < n \<longrightarrow> refs_ok n l ps)"
proof -
  obtain oc l where eq: "addToNextGet (getAdjustedNow (ap_clock s)) ks mt ms cb (ap_loader s) = (oc, l)"
    by fastforce
  then obtain g' where "oc = Ok ()" and l: "l = arm_timer (getAdjustedNow (ap_clock s)) (getAdjustedNow (ap_clock s) + mt)
      ((ap_loader s)\<lparr>ld_id := next_id (ld_id (ap_loader s)), ld_cbObjs := iset (next_id (ld_id (ap_loader s)))
         \<lparr>co_keys = ks, co_cb = cb, co_id = next_id (ld_id (ap_loader s)), co_maxSamples = ms\<rparr> (ld_cbObjs (ap_loader s)),
         ld_getting := g'\<rparr>)"
    using addToNextGet_eq [OF assms, of "getAdjustedNow (ap_clock s)" mt ms cb "ap_loader s"] by auto
  then have "loader_add ks mt ms cb s = s\<lparr>ap_loader := l\<rparr>"
    using eq by (simp add: loader_add_def guarded_def guard_def)
  moreover have "ld_inv (ap_loader s) \<longrightarrow> ld_inv l \<and> ld_live l" using addToNextGet_inv [OF assms _ eq] by blast
  moreover have "refs_ok n (ap_loader s) ps \<longrightarrow> fst cb < n \<longrightarrow> refs_ok n l ps"
    by (auto simp: refs_ok_def l app_simps intro: cbs_ok_iset split: option.splits)
  ultimately show ?thesis by blast
qed

text \<open>A reload changes nothing but the loader.\<close>

lemma reload_eq:
  assumes "app_inv s" "g < length (ap_surfaces s)"
  shows "\<exists>l. reload g s = s\<lparr>ap_loader := l\<rparr> \<and> ld_live l \<and> app_inv (s\<lparr>ap_loader := l\<rparr>)"
proof -
  have "series_ok (surf g s)" using assms by (auto simp: app_inv_def grid_ok_def surf_def)
  then have "\<forall>k\<in>set (series_keys (surf g s)). \<not> inherited k" by (rule okeys_series)
  from loader_add_eq [OF this, where s = s and mt = 500 and ms = "sample_count s"
      and cb = "(g, series_keys (surf g s))" and n = "length (ap_surfaces s)" and ps = "ap_paints s"]
  obtain l where "reload g s = s\<lparr>ap_loader := l\<rparr>" "ld_inv l" "ld_live l"
    "refs_ok (length (ap_surfaces s)) l (ap_paints s)"
    using assms by (auto simp: reload_def Let_def app_inv_def)
  then show ?thesis using assms(1) by (auto simp: app_inv_def)
qed

lemma reload_frame:
  assumes "app_inv s" "g < length (ap_surfaces s)"
  shows "app_inv (reload g s)" "ap_surfaces (reload g s) = ap_surfaces s"
    "ap_allGraphs (reload g s) = ap_allGraphs s" "ap_selected (reload g s) = ap_selected s"
    "ui_error (reload g s) = ui_error s" "tl_curStart (reload g s) = tl_curStart s"
    "tl_curStop (reload g s) = tl_curStop s" "ap_paints (reload g s) = ap_paints s"
    "ld_live (ap_loader (reload g s))"
  using reload_eq [OF assms] by auto

lemma grid_ok_ref: "grid_ok sfs gs sel \<Longrightarrow> g \<in> set gs \<Longrightarrow> g < length sfs"
  by (simp add: grid_ok_def)

lemma fold_reload:
  assumes "app_inv s" "\<forall>g\<in>set gs. g < length (ap_surfaces s)"
  shows "\<exists>l. fold reload gs s = s\<lparr>ap_loader := l\<rparr> \<and> app_inv (s\<lparr>ap_loader := l\<rparr>)"
  using assms
proof (induction gs arbitrary: s)
  case Nil
  then show ?case by (intro exI [of _ "ap_loader s"]) simp
next
  case (Cons g gs)
  then obtain l where l: "reload g s = s\<lparr>ap_loader := l\<rparr>" "app_inv (s\<lparr>ap_loader := l\<rparr>)"
    using reload_eq [of s g] by auto
  then show ?case using Cons.IH [of "s\<lparr>ap_loader := l\<rparr>"] Cons.prems by auto
qed

lemma reloadAll_eq:
  assumes "app_inv s"
  shows "\<exists>l. reloadAll s = s\<lparr>ap_loader := l\<rparr> \<and> app_inv (s\<lparr>ap_loader := l\<rparr>)"
  unfolding reloadAll_def using assms by (intro fold_reload) (auto simp: app_inv_def grid_ok_def)

section \<open>Every operation keeps the invariant\<close>

lemma grid_ok_update:
  assumes "grid_ok sfs gs sel" "g < length sfs" "series_ok v" "sf_series v = None \<longleftrightarrow> sf_series (sfs ! g) = None"
  shows "grid_ok (sfs[g := v]) gs sel"
  using assms set_update_subset_insert [of sfs g v]
  by (auto simp: grid_ok_def nth_list_update)

lemma set_surf_inv:
  assumes "app_inv s" "g < length (ap_surfaces s)" "series_ok v"
    "sf_series v = None \<longleftrightarrow> sf_series (surf g s) = None"
  shows "app_inv (set_surf g v s)"
  using assms grid_ok_update by (simp add: app_inv_def set_surf_def surf_def)

lemma surf_ok: "app_inv s \<Longrightarrow> g < length (ap_surfaces s) \<Longrightarrow> series_ok (surf g s)"
  by (auto simp: app_inv_def grid_ok_def surf_def)

lemma surf_set_surf [simp]: "g < length (ap_surfaces s) \<Longrightarrow> surf g (set_surf g v s) = v"
  by (simp add: surf_def set_surf_def)

lemma set_surf_fields [simp]:
  "length (ap_surfaces (set_surf g v s)) = length (ap_surfaces s)" "ap_allGraphs (set_surf g v s) = ap_allGraphs s"
  "ap_selected (set_surf g v s) = ap_selected s" "ap_loader (set_surf g v s) = ap_loader s"
  "ui_error (set_surf g v s) = ui_error s" "ap_paints (set_surf g v s) = ap_paints s"
  by (simp_all add: set_surf_def)

lemma toggle_series_keys:
  "set (okeys (toggle_series p ser)) =
     (if otruthy ser p then (if length (okeys ser) > 1 then set (okeys ser) - {p} else set (okeys ser))
      else insert p (set (okeys ser)))"
  by (simp add: toggle_series_def keys_def obj_simps)

lemma toggle_series_ok:
  assumes "wf_obj ser" "\<forall>k\<in>set (okeys ser). \<not> inherited k"
  shows "wf_obj (toggle_series p ser) \<and> (\<forall>k\<in>set (okeys (toggle_series p ser)). \<not> inherited k)"
proof
  show "wf_obj (toggle_series p ser)"
    using assms(1) by (simp add: toggle_series_def sobj.inv_put sobj.inv_del)
  show "\<forall>k\<in>set (okeys (toggle_series p ser)). \<not> inherited k"
    using assms(2) by (auto simp: toggle_series_keys otruthy_def split: if_splits)
qed

lemma toggleSeries_open:
  assumes "app_inv s" "g < length (ap_surfaces s)" "sf_series (surf g s) = Some ser"
  shows "\<exists>l. toggleSeries g p s =
      (set_surf g ((surf g s)\<lparr>sf_series := Some (toggle_series p ser)\<rparr>) s)\<lparr>ap_loader := l\<rparr> \<and>
    app_inv (toggleSeries g p s) \<and> ld_live l"
proof -
  let ?t = "set_surf g ((surf g s)\<lparr>sf_series := Some (toggle_series p ser)\<rparr>) s"
  have "series_ok ((surf g s)\<lparr>sf_series := Some (toggle_series p ser)\<rparr>)"
    using surf_ok [OF assms(1,2)] toggle_series_ok [of ser p] assms(3) by (simp add: series_ok_def)
  then have "app_inv ?t" using set_surf_inv [OF assms(1,2)] assms(3) by simp
  then obtain l where l: "reload g ?t = ?t\<lparr>ap_loader := l\<rparr>" "ld_live l" "app_inv (?t\<lparr>ap_loader := l\<rparr>)"
    using reload_eq [of ?t g] assms(2) by auto
  have "toggleSeries g p s = reload g ?t"
    unfolding toggleSeries_def by (rule guarded_ok [where x = "()"]) (simp add: assms(3))
  then show ?thesis using l by auto
qed

lemma toggleSeries_inv:
  assumes "app_inv s" "g < length (ap_surfaces s)"
  shows "app_inv (toggleSeries g p s)"
proof (cases "sf_series (surf g s)")
  case None
  then show ?thesis using assms unfolding toggleSeries_def by (intro guarded_inv) simp
next
  case (Some ser)
  then show ?thesis using toggleSeries_open [OF assms] by blast
qed

lemma toggleSeries_frame:
  assumes "app_inv s" "g < length (ap_surfaces s)" "sf_series (surf g s) \<noteq> None"
  shows "ap_allGraphs (toggleSeries g p s) = ap_allGraphs s"
    "length (ap_surfaces (toggleSeries g p s)) = length (ap_surfaces s)"
    "sf_series (surf g (toggleSeries g p s)) \<noteq> None"
    "ui_error (toggleSeries g p s) = ui_error s" "ap_selected (toggleSeries g p s) = ap_selected s"
    "\<And>g'. g' \<noteq> g \<Longrightarrow> surf g' (toggleSeries g p s) = surf g' s"
    "tl_curStart (toggleSeries g p s) = tl_curStart s" "tl_curStop (toggleSeries g p s) = tl_curStop s"
  using assms toggleSeries_open [OF assms(1,2), of _ p]
  by (auto simp: surf_def set_surf_def)

lemma app_inv_paints:
  "app_inv s \<Longrightarrow> \<forall>p\<in>set ps. fst p < length (ap_surfaces s) \<Longrightarrow> app_inv (s\<lparr>ap_paints := ps\<rparr>)"
  by (simp add: app_inv_def refs_ok_def)

lemma app_inv_refs: "app_inv s \<Longrightarrow> p \<in> set (ap_paints s) \<Longrightarrow> fst p < length (ap_surfaces s)"
  by (simp add: app_inv_def refs_ok_def)

lemma series_ok_update [simp]:
  "series_ok (sf\<lparr>sf_last := d\<rparr>) = series_ok sf" "series_ok (sf\<lparr>sf_box := b\<rparr>) = series_ok sf"
  "series_ok (sf\<lparr>sf_dygraph := pl\<rparr>) = series_ok sf" "series_ok (sf\<lparr>sf_format := f\<rparr>) = series_ok sf"
  "series_ok (sf\<lparr>sf_summary := b2\<rparr>) = series_ok sf" "series_ok (sf\<lparr>sf_series := None, sf_inDom := d2\<rparr>)"
  by (simp_all add: series_ok_def)

lemma renderData_inv:
  assumes "app_inv s" "g < length (ap_surfaces s)"
  shows "app_inv (renderData g ks d s)"
proof -
  have "app_inv (set_surf g ((surf g s)\<lparr>sf_last := render_fields ks d\<rparr>) s)"
    using assms surf_ok by (intro set_surf_inv) auto
  then show ?thesis
    using assms app_inv_refs [OF assms(1)] by (auto simp: renderData_def intro!: app_inv_paints)
qed

lemma app_inv_dimmed [simp]: "app_inv (s\<lparr>ap_dimmed := d\<rparr>) = app_inv s"
  by (simp add: app_inv_def)

lemma repaint_inv:
  assumes "app_inv s" "g < length (ap_surfaces s)" "repaint g s = Some t"
  shows "app_inv t"
proof -
  let ?s1 = "set_surf g ((surf g s)\<lparr>sf_box := (ap_width s - 30, ap_height s - 60)\<rparr>) s"
  have inv1: "app_inv ?s1" using assms surf_ok by (intro set_surf_inv) auto
  moreover have "app_inv (set_surf g ((destroyDygraph (surf g ?s1))\<lparr>sf_dygraph := Some pl\<rparr>) (?s1\<lparr>ap_dimmed := False\<rparr>))" for pl
    using inv1 assms(2) surf_ok [OF inv1, of g]
    by (intro set_surf_inv) (auto simp: destroyDygraph_def surf_def set_surf_def)
  ultimately show ?thesis
    using assms(3) by (auto simp: repaint_def Let_def split: option.splits outcome.splits)
qed

lemma newGraph_inv:
  assumes "app_inv s" "newGraph s = (g, t)"
  shows "app_inv t \<and> g = length (ap_surfaces s) \<and> g < length (ap_surfaces t) \<and> g \<in> set (ap_allGraphs t)"
proof -
  have t: "t = s\<lparr>ap_surfaces := ap_surfaces s @ [new_surface], ap_allGraphs := ap_allGraphs s @ [length (ap_surfaces s)]\<rparr>"
    and g: "g = length (ap_surfaces s)"
    using assms(2) by (auto simp: newGraph_def grid_add_def Let_def)
  have "series_ok new_surface" by (simp add: series_ok_def new_surface_def)
  then have "grid_ok (ap_surfaces t) (ap_allGraphs t) (ap_selected t)"
    using assms(1) by (auto simp: t app_inv_def grid_ok_def nth_append new_surface_def less_Suc_eq split: option.splits)
  moreover have "refs_ok (length (ap_surfaces t)) (ap_loader t) (ap_paints t)"
    using assms(1) by (auto simp: t app_inv_def refs_ok_def cbs_ok_def split: option.splits dest: less_SucI)
  ultimately show ?thesis using assms(1) by (simp add: app_inv_def t g)
qed

lemma select_inv: "app_inv s \<Longrightarrow> g \<in> set (ap_allGraphs s) \<Longrightarrow> app_inv (select g s)"
  by (simp add: app_inv_def select_def grid_ok_def)

lemma grid_click_inv: "app_inv s \<Longrightarrow> app_inv (grid_click s)"
  by (simp add: app_inv_def grid_click_def grid_ok_def)

lemma app_inv_restore [simp]: "app_inv (restoreOriginalInterval s) = app_inv s"
  by (simp add: app_inv_def restoreOriginalInterval_def auto_ok_def)

definition closed :: "surface \<Rightarrow> surface" where
  "closed sf = (destroyDygraph sf)\<lparr>sf_series := None, sf_inDom := False\<rparr>"

text \<open>What \<open>close\<close> does to the fields of the state.\<close>

lemma close_surface_fields:
  "ap_surfaces (close_surface g s) = (ap_surfaces s)[g := closed (surf g s)]"
  "ap_allGraphs (close_surface g s) = remove1 g (ap_allGraphs s)"
  "ap_selected (close_surface g s) = (if ap_selected s = Some g then None else ap_selected s)"
  "ap_loader (close_surface g s) = ap_loader s" "ap_paints (close_surface g s) = ap_paints s"
  "tl_origStart (close_surface g s) = tl_origStart s" "tl_origStop (close_surface g s) = tl_origStop s"
  "auto_ok (close_surface g s) = auto_ok s"
  by (simp_all add: close_surface_def grid_remove_def set_surf_def restoreOriginalInterval_def arrayRemove_eq
      closed_def auto_ok_def Let_def)

lemma close_surface_range:
  "remove1 g (ap_allGraphs s) = [] \<Longrightarrow>
     tl_curStart (close_surface g s) = tl_origStart s \<and> tl_curStop (close_surface g s) = tl_origStop s"
  by (simp add: close_surface_def grid_remove_def set_surf_def restoreOriginalInterval_def arrayRemove_eq Let_def)

lemma close_surface_inv:
  assumes "app_inv s" "g \<in> set (ap_allGraphs s)"
  shows "app_inv (close_surface g s)"
proof -
  have "series_ok (closed (surf g s))" by (simp add: closed_def series_ok_def)
  then have "grid_ok ((ap_surfaces s)[g := closed (surf g s)]) (remove1 g (ap_allGraphs s))
      (if ap_selected s = Some g then None else ap_selected s)"
    using assms set_update_subset_insert [of "ap_surfaces s" g "closed (surf g s)"]
    by (auto simp: app_inv_def grid_ok_def nth_list_update closed_def split: option.splits if_splits)
  then show ?thesis using assms by (simp add: app_inv_def close_surface_fields)
qed

end
