(* ===== verification/Page.thy ===== *)
theory Page
  imports Grid
begin

text \<open>
  The page as a machine: the events of the user, of the timers and of the network that act on
  the grid of graphs, the invariant of the whole state, and the properties of the grid, of the
  bulk operations on counters, of the time range and of the loader working together.
\<close>

section \<open>Bulk operations keep the invariant\<close>

lemma clear_loop:
  assumes "app_inv s" "distinct gs" "set gs \<subseteq> set (ap_allGraphs s)"
  shows "app_inv (fold close_surface gs s) \<and>
    ap_allGraphs (fold close_surface gs s) = filter (\<lambda>g. g \<notin> set gs) (ap_allGraphs s) \<and>
    tl_origStart (fold close_surface gs s) = tl_origStart s \<and>
    tl_origStop (fold close_surface gs s) = tl_origStop s \<and>
    (ap_selected s = None \<longrightarrow> ap_selected (fold close_surface gs s) = None)"
  using assms
proof (induction gs arbitrary: s)
  case (Cons g gs)
  have d: "distinct (ap_allGraphs s)" using Cons.prems(1) by (simp add: app_inv_def grid_ok_def)
  then have "set gs \<subseteq> set (ap_allGraphs (close_surface g s))"
    using Cons.prems by (auto simp: close_surface_fields)
  moreover have "app_inv (close_surface g s)" using Cons.prems by (simp add: close_surface_inv)
  ultimately show ?case
    using Cons.IH [of "close_surface g s"] Cons.prems(2) d
    by (auto simp: close_surface_fields distinct_remove1_removeAll removeAll_filter_not_eq
        intro!: filter_cong)
qed simp

lemma app_inv_select_none: "app_inv s \<Longrightarrow> app_inv (s\<lparr>ap_selected := None\<rparr>)"
  by (simp add: app_inv_def grid_ok_def)

lemma app_inv_distinct: "app_inv s \<Longrightarrow> distinct (ap_allGraphs s)"
  by (simp add: app_inv_def grid_ok_def)

lemma clear_state:
  assumes "app_inv s"
  shows "app_inv (clear s)" "ap_allGraphs (clear s) = []" "ap_selected (clear s) = None"
    "tl_origStart (clear s) = tl_origStart s" "tl_origStop (clear s) = tl_origStop s"
  using clear_loop [OF app_inv_select_none [OF assms] app_inv_distinct [OF assms]]
  by (simp_all add: clear_def)

lemma repaintAll_inv:
  assumes "app_inv s"
  shows "app_inv (repaintAll s)"
proof -
  have "g < length (ap_surfaces s)" if "(g, v) \<in> set (zip (ap_allGraphs s) [0..<length (ap_allGraphs s)])" for g v
    using set_zip_leftD [OF that] assms by (simp add: app_inv_def grid_ok_def)
  then show ?thesis
    unfolding repaintAll_def using assms app_inv_refs [OF assms] by (intro app_inv_paints) auto
qed

lemma toggleGraphing_inv:
  assumes "app_inv s"
  shows "app_inv (snd (toggleGraphing path off s))"
proof -
  have nu: "app_inv (toggleSeries nu path (select nu s1))" if "newGraph s = (nu, s1)" for nu s1
  proof -
    note n = newGraph_inv [OF assms that]
    then have "app_inv (select nu s1)" by (auto intro: select_inv)
    then show ?thesis using n by (intro toggleSeries_inv) (auto simp: select_def)
  qed
  have ref: "app_inv (toggleSeries g path s)" if "g \<in> set (ap_allGraphs s)" for g
    using assms that by (intro toggleSeries_inv) (auto simp: app_inv_def grid_ok_def)
  have "g \<in> set (ap_allGraphs s)" if "ap_selected s = Some g" for g
    using assms that by (auto simp: app_inv_def grid_ok_def)
  then show ?thesis
    using nu ref assms by (auto simp: toggleGraphing_def split: option.splits prod.splits)
qed

text \<open>What one visit of \<open>change_counters\<close> leaves alone.\<close>

lemma change_path_frame:
  assumes "app_inv s" "g < length (ap_surfaces s)" "sf_series (surf g s) \<noteq> None"
  shows "app_inv (change_path a b keep g p s) \<and> ap_allGraphs (change_path a b keep g p s) = ap_allGraphs s \<and>
    length (ap_surfaces (change_path a b keep g p s)) = length (ap_surfaces s) \<and>
    sf_series (surf g (change_path a b keep g p s)) \<noteq> None \<and>
    (\<forall>g'. g' \<noteq> g \<longrightarrow> surf g' (change_path a b keep g p s) = surf g' s) \<and>
    ui_error (change_path a b keep g p s) = ui_error s"
proof -
  let ?s1 = "toggleSeries g (replace_first a b p) s"
  have "app_inv ?s1" "g < length (ap_surfaces ?s1)" "sf_series (surf g ?s1) \<noteq> None"
    using assms(2) toggleSeries_inv [OF assms(1,2)] toggleSeries_frame(2,3) [OF assms] by simp_all
  note two = toggleSeries_frame [OF this, where p = p] toggleSeries_inv [OF this(1,2), where p = p]
  note one = toggleSeries_frame [OF assms, where p = "replace_first a b p"]
    toggleSeries_inv [OF assms(1,2), where p = "replace_first a b p"]
  show ?thesis using assms one two by (simp add: change_path_def Let_def)
qed

lemma change_graph_frame:
  assumes "app_inv s" "g < length (ap_surfaces s)" "sf_series (surf g s) \<noteq> None"
  shows "app_inv (fold (change_path a b keep g) ps s) \<and>
    ap_allGraphs (fold (change_path a b keep g) ps s) = ap_allGraphs s \<and>
    length (ap_surfaces (fold (change_path a b keep g) ps s)) = length (ap_surfaces s) \<and>
    sf_series (surf g (fold (change_path a b keep g) ps s)) \<noteq> None \<and>
    (\<forall>g'. g' \<noteq> g \<longrightarrow> surf g' (fold (change_path a b keep g) ps s) = surf g' s) \<and>
    ui_error (fold (change_path a b keep g) ps s) = ui_error s"
  using assms
proof (induction ps arbitrary: s)
  case (Cons p ps)
  note f = change_path_frame [OF Cons.prems, of a b keep p]
  have "app_inv (change_path a b keep g p s)" "g < length (ap_surfaces (change_path a b keep g p s))"
    "sf_series (surf g (change_path a b keep g p s)) \<noteq> None"
    using f Cons.prems(2) by auto
  from Cons.IH [OF this] f show ?case by simp
qed simp

lemma change_graph_inv:
  assumes "app_inv s" "g \<in> set (ap_allGraphs s)"
  shows "app_inv (change_graph a b keep g s) \<and> ap_allGraphs (change_graph a b keep g s) = ap_allGraphs s \<and>
    ui_error (change_graph a b keep g s) = ui_error s \<and>
    (\<forall>g'. g' \<noteq> g \<longrightarrow> surf g' (change_graph a b keep g s) = surf g' s)"
proof -
  have g: "g < length (ap_surfaces s)" "sf_series (surf g s) \<noteq> None"
    using assms by (auto simp: app_inv_def grid_ok_def surf_def)
  note f = change_graph_frame [OF assms(1) g, of a b keep "series_keys (surf g s)"]
  let ?t = "fold (change_path a b keep g) (series_keys (surf g s)) s"
  have "app_inv ?t" "g < length (ap_surfaces ?t)" using f g by auto
  note reload_frame [OF this]
  then show ?thesis using f by (auto simp: change_graph_def surf_def)
qed

lemma change_counters_inv:
  assumes "app_inv s"
  shows "app_inv (change_counters from_to keep s) \<and> ap_allGraphs (change_counters from_to keep s) = ap_allGraphs s \<and>
    ui_error (change_counters from_to keep s) = ui_error s"
proof -
  have "app_inv (fold (change_graph a b keep) gs s) \<and> ap_allGraphs (fold (change_graph a b keep) gs s) = ap_allGraphs s \<and>
      ui_error (fold (change_graph a b keep) gs s) = ui_error s"
    if "app_inv s" "set gs \<subseteq> set (ap_allGraphs s)" for a b gs and s :: "'a app_scheme"
    using that
  proof (induction gs arbitrary: s)
    case (Cons g gs)
    then show ?case using change_graph_inv [of s g a b keep] Cons.IH [of "change_graph a b keep g s"] by simp
  qed simp
  then show ?thesis unfolding change_counters_def using assms by blast
qed

section \<open>The time range keeps the invariant\<close>

lemma app_inv_timeline:
  assumes "app_inv s"
  shows "app_inv (calcReloadInterval s)" "app_inv (setAutoRefresh b s)" "app_inv (slide_window c s)"
    "app_inv (setManual m s)" "app_inv (snd (begin_progress s))" "app_inv (snd (end_progress h s))"
    "app_inv (auto_refresh s)"
proof -
  have a: "auto_ok s" using assms by (simp add: app_inv_def)
  then have "auto_ok (setAutoRefresh b s)" "auto_ok (auto_refresh s)"
    by (auto simp: auto_refresh_def auto_ok_def [of "setAutoRefresh b t" for b t] setAutoRefresh_cases)
  then show "app_inv (calcReloadInterval s)" "app_inv (setAutoRefresh b s)" "app_inv (slide_window c s)"
    "app_inv (setManual m s)" "app_inv (snd (begin_progress s))" "app_inv (snd (end_progress h s))"
    "app_inv (auto_refresh s)"
    using assms a by (auto intro: same_core_inv [OF same_core_ops(2)] same_core_inv [OF same_core_ops(4)]
        same_core_inv [OF same_core_ops(5)] same_core_inv [OF same_core_ops(6)] same_core_inv [OF same_core_ops(7)]
        same_core_inv [OF same_core_ops(8)] same_core_inv [OF same_core_ops(9)])
qed

lemma reloadAll_inv: "app_inv s \<Longrightarrow> app_inv (reloadAll s)"
  using reloadAll_eq by force

lemma refresh_inv:
  assumes "app_inv s"
  shows "app_inv (refresh s)"
  unfolding refresh_def
proof (rule guarded_inv)
  obtain h s1 where b: "begin_progress s = (h, s1)" by fastforce
  then have "app_inv s1" using app_inv_timeline(5) [OF assms] by simp
  then have "app_inv (reloadAll (slide_window (ap_clock s1) s1))"
    by (intro reloadAll_inv app_inv_timeline)
  then show "app_inv (snd (if tl_hidden s then (Ok (), s)
       else case begin_progress s of (h, s1) \<Rightarrow> end_progress h (reloadAll (slide_window (ap_clock s1) s1))))"
    using assms b by (simp add: app_inv_timeline)
qed

lemma app_inv_fields [simp]:
  "app_inv (s\<lparr>tl_origStart := x\<rparr>) = app_inv s" "app_inv (s\<lparr>tl_origStop := x\<rparr>) = app_inv s"
  "app_inv (s\<lparr>tl_curStart := x\<rparr>) = app_inv s" "app_inv (s\<lparr>tl_curStop := x\<rparr>) = app_inv s"
  "app_inv (s\<lparr>ap_maxSamples := y\<rparr>) = app_inv s" "app_inv (s\<lparr>ap_sizeDropdown := z\<rparr>) = app_inv s"
  "app_inv (s\<lparr>ap_width := w\<rparr>) = app_inv s" "app_inv (s\<lparr>ap_height := w\<rparr>) = app_inv s"
  "app_inv (s\<lparr>ap_clock := w\<rparr>) = app_inv s" "app_inv (s\<lparr>ap_domains := ds\<rparr>) = app_inv s"
  "app_inv (s\<lparr>tl_hidden := b\<rparr>) = app_inv s"
  by (simp_all add: app_inv_def auto_ok_def)

lemma range_ops_inv:
  assumes "app_inv s"
  shows "app_inv (set_interval i s)" "app_inv (zoomOutIntervals s)" "app_inv (resetDateRange f t s)"
    "app_inv (zoomCallback gs mn mx s)" "app_inv (zoom_mouseup gs xr s)"
    "app_inv (setGraphSize w h s)" "app_inv (graph_size w h item s)"
    "app_inv (snd (size_setCustom str s))" "app_inv (snd (daterange_submit today off from to ms s))"
  using assms
  by (auto simp: set_interval_def zoomOutIntervals_def resetDateRange_def reset_range_state_def zoomCallback_def
      zoom_mouseup_def setGraphSize_def graph_size_def size_setCustom_def daterange_submit_def Let_def
      split: option.splits intro!: refresh_inv reloadAll_inv repaintAll_inv app_inv_timeline)

section \<open>The network keeps the invariant\<close>

lemma refs_startRequest:
  assumes "refs_ok n l ps" "startRequest cur l = (oc, l')"
  shows "refs_ok n l' ps"
  using assms by (auto simp: startRequest_def refs_ok_def cbs_ok_def [of n "[]"] Let_def split: if_splits option.splits)

lemma refs_onTimer:
  assumes "refs_ok n l ps" "onTimer cur l = (oc, l')"
  shows "refs_ok n l' ps"
proof -
  have "refs_ok n (l\<lparr>ld_nextEvent := None, ld_nextEventTime := 0\<rparr>) ps" using assms(1) by (simp add: refs_ok_def)
  then show ?thesis using assms(2) refs_startRequest by (auto simp: onTimer_def Let_def split: if_splits)
qed

lemma loader_timer_inv:
  assumes "app_inv s" "(h, d) \<in> set (ld_timers (ap_loader s))"
  shows "app_inv (loader_timer h s)"
  unfolding loader_timer_def
proof (rule guarded_inv)
  let ?l = "(ap_loader s)\<lparr>ld_timers := filter (\<lambda>p. fst p \<noteq> h) (ld_timers (ap_loader s))\<rparr>"
  obtain oc l where eq: "onTimer (cur_range s) ?l = (oc, l)" by fastforce
  have "refs_ok (length (ap_surfaces s)) ?l (ap_paints s)" using assms(1) by (simp add: app_inv_def refs_ok_def)
  then have "refs_ok (length (ap_surfaces s)) l (ap_paints s)" using eq by (rule refs_onTimer)
  moreover have "ld_inv l" using onTimer_inv [OF _ assms(2) eq] assms(1) by (simp add: app_inv_def)
  ultimately show "app_inv (snd (case onTimer (cur_range s) ?l of (oc, l) \<Rightarrow> (oc, s\<lparr>ap_loader := l\<rparr>)))"
    using assms(1) eq by (simp add: app_inv_def)
qed

lemma deliver_render:
  "deliverData run_render d cs s = (Ok (), fold (\<lambda>p s. renderData (fst (co_cb (snd p))) (snd (co_cb (snd p))) d s) cs s)"
  by (induction cs arbitrary: s) (auto simp: run_render_def)

lemma renderData_frame [simp]:
  "ap_loader (renderData g ks d s) = ap_loader s" "length (ap_surfaces (renderData g ks d s)) = length (ap_surfaces s)"
  "tl_curStart (renderData g ks d s) = tl_curStart s" "tl_curStop (renderData g ks d s) = tl_curStop s"
  "ap_allGraphs (renderData g ks d s) = ap_allGraphs s" "ap_selected (renderData g ks d s) = ap_selected s"
  by (simp_all add: renderData_def set_surf_def)

lemma fold_render:
  assumes "app_inv s" "cbs_ok (length (ap_surfaces s)) cs"
  shows "app_inv (fold (\<lambda>p s. renderData (fst (co_cb (snd p))) (snd (co_cb (snd p))) d s) cs s) \<and>
    ap_loader (fold (\<lambda>p s. renderData (fst (co_cb (snd p))) (snd (co_cb (snd p))) d s) cs s) = ap_loader s \<and>
    length (ap_surfaces (fold (\<lambda>p s. renderData (fst (co_cb (snd p))) (snd (co_cb (snd p))) d s) cs s)) = length (ap_surfaces s)"
  using assms
proof (induction cs arbitrary: s)
  case (Cons c cs)
  then have "app_inv (renderData (fst (co_cb (snd c))) (snd (co_cb (snd c))) d s)"
    by (intro renderData_inv) (auto simp: cbs_ok_def)
  then show ?case
    using Cons.IH [of "renderData (fst (co_cb (snd c))) (snd (co_cb (snd c))) d s"] Cons.prems(2)
    by (simp add: cbs_ok_def)
qed simp

lemma app_inv_loader:
  "app_inv s \<Longrightarrow> ld_inv l \<Longrightarrow> refs_ok (length (ap_surfaces s)) l (ap_paints s) \<Longrightarrow> app_inv (s\<lparr>ap_loader := l\<rparr>)"
  by (simp add: app_inv_def)

lemma app_inv_loaderD:
  "app_inv s \<Longrightarrow> ld_inv (ap_loader s) \<and> refs_ok (length (ap_surfaces s)) (ap_loader s) (ap_paints s)"
  by (simp add: app_inv_def)

lemma loader_complete_inv:
  assumes "app_inv s"
  shows "app_inv (loader_complete r s)"
  unfolding loader_complete_def
proof (rule guarded_inv, cases "ld_xhr (ap_loader s)")
  case None
  then show "app_inv (snd (case ld_xhr (ap_loader s) of None \<Rightarrow> (Ok (), s)
      | Some rq \<Rightarrow> (case onXhrComplete run_render (cur_range s) r rq s (ap_loader s) of
           (oc, s1, l) \<Rightarrow> (oc, s1\<lparr>ap_loader := l\<rparr>))))"
    using assms by simp
next
  case (Some rq)
  obtain oc s1 l where eq: "onXhrComplete run_render (cur_range s) r rq s (ap_loader s) = (oc, s1, l)"
    by (metis prod_cases3)
  have l: "ld_inv l" using onXhrComplete_inv [OF _ Some eq] app_inv_loaderD [OF assms] by blast
  have "cbs_ok (length (ap_surfaces s)) (rq_cbObjs rq)"
    using assms Some by (simp add: app_inv_def refs_ok_def)
  note f = fold_render [OF assms this]
  let ?l1 = "(ap_loader s)\<lparr>ld_xhr := None\<rparr>"
  have s1: "app_inv s1 \<and> ap_loader s1 = ap_loader s \<and> (l = ?l1 \<or> (\<exists>oc. startRequest (cur_range s) ?l1 = (oc, l)))"
    using eq f assms
    by (auto simp: onXhrComplete_def Let_def deliver_render split: if_splits option.splits prod.splits)
  then have "refs_ok (length (ap_surfaces s1)) ?l1 (ap_paints s1)"
    using app_inv_loaderD [of s1] by (simp add: refs_ok_def)
  then have "refs_ok (length (ap_surfaces s1)) l (ap_paints s1)"
    using s1 refs_startRequest [of "length (ap_surfaces s1)" ?l1 "ap_paints s1" "cur_range s"] by blast
  then show "app_inv (snd (case ld_xhr (ap_loader s) of None \<Rightarrow> (Ok (), s)
      | Some rq \<Rightarrow> (case onXhrComplete run_render (cur_range s) r rq s (ap_loader s) of
           (oc, s1, l) \<Rightarrow> (oc, s1\<lparr>ap_loader := l\<rparr>))))"
    using s1 l by (simp add: Some eq app_inv_loader)
qed

lemma paint_inv:
  assumes "app_inv s" "paint s = Some t"
  shows "app_inv t"
proof (cases "ap_paints s")
  case Nil
  then show ?thesis using assms by (simp add: paint_def)
next
  case (Cons p rest)
  obtain g v c where p: "p = (g, v, c)" by (cases p)
  have "g < length (ap_surfaces s)" using app_inv_refs [OF assms(1), of p] Cons p by simp
  moreover have "app_inv (s\<lparr>ap_paints := rest\<rparr>)"
    using assms(1) app_inv_refs [OF assms(1)] Cons by (intro app_inv_paints) auto
  ultimately show ?thesis
    using assms(2) Cons p repaint_inv [of "s\<lparr>ap_paints := rest\<rparr>" g t]
    by (auto simp: paint_def Let_def split: if_splits)
qed

section \<open>The page as a machine\<close>

text \<open>
  One step is one event: a click, a dialog's answer, a timer, a reply of the server, or the
  passing of time. Events of a surface come from its own elements, which are in the page only
  while the surface is in the grid.
\<close>

inductive app_step :: "app \<Rightarrow> app \<Rightarrow> bool" where
  ev_counter: "app_step s (snd (toggleGraphing path off s))"
| ev_legend: "g \<in> set (ap_allGraphs s) \<Longrightarrow> app_step s (toggleSeries g path s)"
| ev_select: "g \<in> set (ap_allGraphs s) \<Longrightarrow> app_step s (surface_click g s)"
| ev_deselect: "app_step s (grid_click s)"
| ev_new: "newGraph s = (g, t) \<Longrightarrow> app_step s t"
| ev_close: "g \<in> set (ap_allGraphs s) \<Longrightarrow> app_step s (close_surface g s)"
| ev_clear: "app_step s (clear s)"
| ev_format: "g \<in> set (ap_allGraphs s) \<Longrightarrow> choose_format g v s = Some t \<Longrightarrow> app_step s t"
| ev_change: "app_step s (change_counters from_to keep s)"
| ev_refresh: "app_step s (refresh s)"
| ev_auto: "app_step s (auto_refresh s)"
| ev_interval: "app_step s (set_interval i s)"
| ev_zoom: "app_step s (zoomCallback gs mn mx s)"
| ev_mouseup: "app_step s (zoom_mouseup gs xr s)"
| ev_zoomout: "app_step s (zoomOutIntervals s)"
| ev_daterange: "app_step s (snd (daterange_submit today off from to ms s))"
| ev_size: "app_step s (graph_size w h item s)"
| ev_custom: "app_step s (snd (size_setCustom str s))"
| ev_timer: "(h, d) \<in> set (ld_timers (ap_loader s)) \<Longrightarrow> app_step s (loader_timer h s)"
| ev_reply: "app_step s (loader_complete r s)"
| ev_paint: "paint s = Some t \<Longrightarrow> app_step s t"
| ev_time: "ap_clock s \<le> c \<Longrightarrow> app_step s (s\<lparr>ap_clock := c\<rparr>)"
| ev_visibility: "app_step s (s\<lparr>tl_hidden := b\<rparr>)"

inductive_cases app_stepE: "app_step s t"

definition app_start :: "int \<Rightarrow> app" where
  "app_start clock = \<lparr>ui_nesting = 0, ui_barVisible = False, ui_fx = [], ui_nullProgress = [],
     ui_handles = 0, ui_error = None, ui_prompt = None, ui_prompts = 0,
     tl_origStart = Some (getAdjustedNow clock - 3600 * 1000), tl_origStop = Some (getAdjustedNow clock),
     tl_curStart = Some (getAdjustedNow clock - 3600 * 1000), tl_curStop = Some (getAdjustedNow clock),
     tl_reloadInterval = 10000, tl_isAutoRefresh = False, tl_autoTimer = None, tl_intervals = [],
     tl_freshInterval = 1, tl_hidden = False, tl_sliderManual = False,
     ap_clock = clock, ap_stack = [], ap_surfaces = [], ap_allGraphs = [], ap_selected = None,
     ap_loader = new_Loader, ap_width = 600, ap_height = 240, ap_maxSamples = None,
     ap_sizeDropdown = None, ap_paints = [], ap_dimmed = False, ap_domains = []\<rparr>"

definition app_init :: "app \<Rightarrow> bool" where
  "app_init s \<longleftrightarrow> s = app_start (ap_clock s)"

lemma app_inv_start: "app_inv (app_start clock)"
  using ld_inv_new by (simp add: app_inv_def app_start_def grid_ok_def refs_ok_def cbs_ok_def new_Loader_def auto_ok_def)

lemma app_step_inv: "app_step s t \<Longrightarrow> app_inv s \<Longrightarrow> app_inv t"
proof (induction rule: app_step.induct)
  case (ev_legend g s path)
  then have "g < length (ap_surfaces s)" by (simp add: app_inv_def grid_ok_def)
  then show ?case using ev_legend.prems by (rule toggleSeries_inv [rotated])
next
  case (ev_format g s v t)
  then have g: "g < length (ap_surfaces s)" by (simp add: app_inv_def grid_ok_def)
  then have "app_inv (set_surf g ((surf g s)\<lparr>sf_format := v\<rparr>) s)"
    using ev_format surf_ok by (intro set_surf_inv) auto
  then show ?case using repaint_inv [of _ g t] ev_format g by (simp add: choose_format_def)
qed (auto intro: toggleGraphing_inv select_inv grid_click_inv close_surface_inv clear_state refresh_inv app_inv_timeline
    range_ops_inv loader_timer_inv loader_complete_inv paint_inv simp: surface_click_def change_counters_inv
    dest: newGraph_inv)

interpretation page: machine app_init app_step app_inv
proof unfold_locales
  show "app_init s \<Longrightarrow> app_inv s" for s
    unfolding app_init_def by (metis app_inv_start)
qed (auto intro: app_step_inv)

end
