(* ===== verification/Page_Props.thy ===== *)
theory Page_Props
  imports Page
begin

text \<open>
  What the page guarantees: the invariant of every state it can reach, the exact effect of
  toggling a counter, of renaming counters in bulk and of clearing the grid, the sliding of the
  time window on a refresh, and the delivery of a reply to the graphs that asked for it.
\<close>

section \<open>Reachable states\<close>

lemmas page_reach = page.inv_reach

text \<open>C1: in every state the page can reach, the grid lists each open graph exactly once and no
  closed one, the selected graph is in the grid, no graph plots a counter whose name every
  object inherits, a request in flight asks for all the keys of the graphs it will answer, and
  there is at most one refresh timer.\<close>

theorem page_invariant:
  assumes "app_init s0" "app_step\<^sup>*\<^sup>* s0 s"
  shows "distinct (ap_allGraphs s) \<and>
    (\<forall>g. g \<in> set (ap_allGraphs s) \<longleftrightarrow> g < length (ap_surfaces s) \<and> sf_series (surf g s) \<noteq> None) \<and>
    ap_selected s \<in> insert None (Some ` set (ap_allGraphs s)) \<and>
    (\<forall>g\<in>set (ap_allGraphs s). \<forall>k\<in>set (getSeries g s). k \<notin> set object_proto) \<and>
    (\<forall>rq. ld_xhr (ap_loader s) = Some rq \<longrightarrow>
       (\<forall>p\<in>set (rq_cbObjs rq). set (co_keys (snd p)) \<subseteq> set (rq_keys rq))) \<and>
    length (tl_intervals s) = (if tl_isAutoRefresh s then 1 else 0)"
proof -
  have inv: "app_inv s" by (rule page_reach [OF assms])
  then have g: "grid_ok (ap_surfaces s) (ap_allGraphs s) (ap_selected s)" "ld_inv (ap_loader s)" "auto_ok s"
    by (auto simp: app_inv_def)
  have "\<forall>g\<in>set (ap_allGraphs s). \<forall>k\<in>set (getSeries g s). k \<notin> set object_proto"
    using okeys_series [OF surf_ok [OF inv]] grid_ok_ref [OF g(1)]
    by (auto simp: getSeries_def inherited_def)
  moreover have "length (tl_intervals s) = (if tl_isAutoRefresh s then 1 else 0)"
    using g(3) arg_cong [of "map fst (tl_intervals s)" _ length] by (auto simp: auto_ok_def split: option.splits)
  ultimately show ?thesis
    using g(1,2) by (auto simp: grid_ok_def surf_def ld_inv_def rq_ok_def split: option.splits)
qed

definition demo_page :: app where
  "demo_page = snd (toggleGraphing ''cpu.idle'' None (app_start 1400000010000))"

lemma demo_page_reach: "app_init (app_start 1400000010000)" "app_step\<^sup>*\<^sup>* (app_start 1400000010000) demo_page"
  by (auto simp: app_init_def app_start_def demo_page_def intro: ev_counter)

lemma demo_page_inv: "app_inv demo_page"
  using page_reach [OF demo_page_reach] .

lemma demo_page_graphs: "ap_allGraphs demo_page = [0]" "getSeries 0 demo_page = [''cpu.idle'']"
  by code_simp+

theorem page_invariant_witness:
  "ap_allGraphs demo_page = [0] \<and> ap_selected demo_page \<in> {None, Some 0} \<and> ''cpu.idle'' \<notin> set object_proto"
  using page_invariant [OF demo_page_reach] demo_page_graphs by auto

section \<open>Toggling a counter\<close>

lemma in_grid:
  assumes "app_inv s" "g \<in> set (ap_allGraphs s)"
  shows "g < length (ap_surfaces s) \<and> (\<exists>ser. sf_series (surf g s) = Some ser \<and> getSeries g s = okeys ser \<and> wf_obj ser \<and>
    (\<forall>k\<in>set (okeys ser). \<not> inherited k))"
proof -
  have g: "g < length (ap_surfaces s)" and "sf_series (surf g s) \<noteq> None"
    using assms by (auto simp: app_inv_def grid_ok_def surf_def)
  then obtain ser where "sf_series (surf g s) = Some ser" by blast
  with g surf_ok [OF assms(1) g] show ?thesis
    by (simp add: getSeries_def series_keys_def keys_def series_ok_def)
qed

lemma toggleSeries_keys:
  assumes "app_inv s" "g \<in> set (ap_allGraphs s)" "\<not> inherited p" "S = set (getSeries g s)"
  shows "set (getSeries g (toggleSeries g p s)) = (if p \<notin> S then insert p S else if S = {p} then S else S - {p}) \<and>
    getSeries g (toggleSeries g p s) \<noteq> [] \<and> ui_error (toggleSeries g p s) = ui_error s \<and>
    (\<forall>g'. g' \<noteq> g \<longrightarrow> surf g' (toggleSeries g p s) = surf g' s) \<and>
    ld_live (ap_loader (toggleSeries g p s))"
proof -
  obtain ser where ser: "g < length (ap_surfaces s)" "sf_series (surf g s) = Some ser" "getSeries g s = okeys ser"
    "wf_obj ser"
    using in_grid [OF assms(1,2)] by blast
  obtain l where l: "toggleSeries g p s =
      (set_surf g ((surf g s)\<lparr>sf_series := Some (toggle_series p ser)\<rparr>) s)\<lparr>ap_loader := l\<rparr>" "ld_live l"
    using toggleSeries_open [OF assms(1) ser(1,2)] by blast
  then have k: "getSeries g (toggleSeries g p s) = okeys (toggle_series p ser)"
    using ser(1) by (simp add: getSeries_def surf_def set_surf_def series_keys_def keys_def)
  have S: "S = set (okeys ser)" "distinct (okeys ser)" using assms(4) ser(3,4) by (auto simp: distinct_okeys)
  have one: "length (okeys ser) > 1 \<longleftrightarrow> S \<noteq> {p}" if "p \<in> S"
  proof -
    have "card S = length (okeys ser)" using S distinct_card by fastforce
    moreover have "{p} = S" if "card S \<le> 1"
      using card_seteq [of S "{p}"] that \<open>p \<in> S\<close> S(1) by simp
    moreover have "card S = 1" if "S = {p}" using that by simp
    ultimately show ?thesis by (metis not_less less_numeral_extra(4) One_nat_def)
  qed
  have t: "otruthy ser p \<longleftrightarrow> p \<in> S" using assms(3) S(1) by (simp add: otruthy_def sobj.enum_iff)
  have keys: "set (getSeries g (toggleSeries g p s)) = (if p \<notin> S then insert p S else if S = {p} then S else S - {p})"
    unfolding k toggle_series_keys t S(1) [symmetric] using one by (cases "p \<in> S") simp_all
  moreover have "(if p \<notin> S then insert p S else if S = {p} then S else S - {p}) \<noteq> {}" by auto
  ultimately have "getSeries g (toggleSeries g p s) \<noteq> []" by (metis empty_set)
  moreover have "ui_error (toggleSeries g p s) = ui_error s" "ld_live (ap_loader (toggleSeries g p s))"
    "\<And>g'. g' \<noteq> g \<Longrightarrow> surf g' (toggleSeries g p s) = surf g' s"
    using l by (simp_all add: surf_def set_surf_def)
  ultimately show ?thesis using keys by blast
qed



section \<open>Clearing the grid\<close>

lemma clear_range:
  assumes "app_inv s" "distinct gs" "set gs = set (ap_allGraphs s)" "gs \<noteq> []"
  shows "tl_curStart (fold close_surface gs s) = tl_origStart s \<and> tl_curStop (fold close_surface gs s) = tl_origStop s"
  using assms
proof (induction gs arbitrary: s)
  case (Cons g gs)
  have d: "distinct (ap_allGraphs s)" by (rule app_inv_distinct [OF Cons.prems(1)])
  have inv: "app_inv (close_surface g s)" using Cons.prems by (auto intro: close_surface_inv)
  have left: "set (ap_allGraphs (close_surface g s)) = set gs"
    using Cons.prems d by (auto simp: close_surface_fields)
  show ?case
  proof (cases "gs = []")
    case True
    then have "remove1 g (ap_allGraphs s) = []" using left by (simp add: close_surface_fields)
    then show ?thesis using True close_surface_range by simp
  next
    case False
    then show ?thesis using Cons.IH [OF inv] Cons.prems(2) left by (simp add: close_surface_fields)
  qed
qed simp

text \<open>\<open>clear\<close> closes every graph, selects nothing, and, when there was a graph, takes the time
  range back to the original one.\<close>

theorem clear_empties:
  assumes "app_inv s"
  shows "ap_allGraphs (clear s) = [] \<and> ap_selected (clear s) = None \<and>
    (\<forall>g < length (ap_surfaces (clear s)). sf_series (surf g (clear s)) = None) \<and>
    (ap_allGraphs s \<noteq> [] \<longrightarrow> tl_curStart (clear s) = tl_origStart s \<and> tl_curStop (clear s) = tl_origStop s)"
proof -
  have "app_inv (clear s)" by (rule clear_state [OF assms])
  then have "\<forall>g < length (ap_surfaces (clear s)). sf_series (surf g (clear s)) = None"
    using clear_state(2) [OF assms] by (auto simp: app_inv_def grid_ok_def surf_def)
  then show ?thesis
    using clear_state [OF assms] clear_range [OF app_inv_select_none [OF assms] app_inv_distinct [OF assms]]
    by (simp add: clear_def)
qed

theorem clear_empties_witness: "ap_allGraphs (clear demo_page) = [] \<and> tl_curStop (clear demo_page) = Some 1400000000000"
proof -
  have "tl_origStop demo_page = Some 1400000000000" by code_simp
  then show ?thesis using clear_empties [OF demo_page_inv] demo_page_graphs by simp
qed

section \<open>Renaming counters\<close>

text \<open>One visit of \<open>change_counters\<close> on a counter whose new name the graph does not plot yet.\<close>

lemma change_path_renames:
  assumes "app_inv s" "g \<in> set (ap_allGraphs s)" "p \<in> set (getSeries g s)" "index_of a p \<noteq> None"
    "replace_first a b p \<notin> set (getSeries g s)" "\<not> inherited (replace_first a b p)"
  shows "set (getSeries g (change_path a b False g p s)) =
    insert (replace_first a b p) (set (getSeries g s) - {p})"
proof -
  let ?s1 = "toggleSeries g (replace_first a b p) s"
  have g: "g < length (ap_surfaces s)" "sf_series (surf g s) \<noteq> None" using in_grid [OF assms(1,2)] by auto
  have s1: "app_inv ?s1" "g \<in> set (ap_allGraphs ?s1)"
    using toggleSeries_inv [OF assms(1) g(1)] toggleSeries_frame(1) [OF assms(1) g] assms(2) by auto
  have S1: "set (getSeries g ?s1) = insert (replace_first a b p) (set (getSeries g s))"
    using toggleSeries_keys [OF assms(1,2,6) refl] assms(5) by simp
  have "\<not> inherited p" using in_grid [OF assms(1,2)] assms(3) by auto
  moreover have "p \<noteq> replace_first a b p" using assms(3,5) by auto
  moreover have "insert (replace_first a b p) (set (getSeries g s)) \<noteq> {p}" using assms(3,5) by auto
  ultimately have "set (getSeries g (toggleSeries g p ?s1)) = insert (replace_first a b p) (set (getSeries g s)) - {p}"
    using toggleSeries_keys [OF s1 _ refl, of p] S1 assms(3) by simp
  moreover have "change_path a b False g p s = toggleSeries g p ?s1"
    using assms(3,4) by (simp add: change_path_def getSeries_def)
  ultimately show ?thesis using \<open>p \<noteq> replace_first a b p\<close> by (simp add: insert_Diff_if)
qed

lemma change_path_skips:
  "index_of a p = None \<Longrightarrow> change_path a b keep g p s = s"
  by (simp add: change_path_def)

lemma change_loop_renames:
  assumes "app_inv s" "g \<in> set (ap_allGraphs s)" "distinct ps" "set ps \<subseteq> set (getSeries g s)"
    "\<And>p. p \<in> set ps \<Longrightarrow> index_of a p \<noteq> None \<Longrightarrow>
       replace_first a b p \<notin> set (getSeries g s) \<and> \<not> inherited (replace_first a b p)"
    "inj_on (\<lambda>p. replace_first a b p) {p \<in> set ps. index_of a p \<noteq> None}"
  shows "set (getSeries g (fold (change_path a b False g) ps s)) =
    (set (getSeries g s) - {p \<in> set ps. index_of a p \<noteq> None}) \<union>
    (\<lambda>p. replace_first a b p) ` {p \<in> set ps. index_of a p \<noteq> None}"
  using assms
proof (induction ps arbitrary: s)
  case Nil
  then show ?case by simp
next
  case (Cons p ps)
  let ?r = "\<lambda>p. replace_first a b p"
  have inj: "inj_on ?r {p \<in> set ps. index_of a p \<noteq> None}"
    using Cons.prems(6) by (rule inj_on_subset) auto
  show ?case
  proof (cases "index_of a p")
    case None
    then have "{q \<in> set (p # ps). index_of a q \<noteq> None} = {q \<in> set ps. index_of a q \<noteq> None}" by auto
    then show ?thesis using Cons.IH [of s] Cons.prems inj None by (simp add: change_path_skips)
  next
    case (Some i)
    let ?t = "change_path a b False g p s"
    have S: "set (getSeries g ?t) = insert (?r p) (set (getSeries g s) - {p})"
      using Cons.prems(1,2,4) Cons.prems(5) [of p] Some by (intro change_path_renames) auto
    have t: "app_inv ?t" "g \<in> set (ap_allGraphs ?t)"
      using change_path_frame [OF Cons.prems(1), of g a b False p] in_grid [OF Cons.prems(1,2)] Cons.prems(2) by auto
    have new: "?r q \<notin> set (getSeries g ?t) \<and> \<not> inherited (?r q)" if "q \<in> set ps" "index_of a q \<noteq> None" for q
    proof -
      have "q \<noteq> p" using that Cons.prems(3) by auto
      then have "?r q \<noteq> ?r p" using Cons.prems(6) that Some by (auto simp: inj_on_def)
      then show ?thesis using S Cons.prems(5) [of q] that by auto
    qed
    have "set (getSeries g (fold (change_path a b False g) ps ?t)) =
      (insert (?r p) (set (getSeries g s) - {p}) - {q \<in> set ps. index_of a q \<noteq> None}) \<union>
      ?r ` {q \<in> set ps. index_of a q \<noteq> None}"
    proof -
      have "set ps \<subseteq> set (getSeries g ?t)" using Cons.prems(3,4) S by auto
      then show ?thesis using Cons.IH [OF t _ _ new inj] Cons.prems(3) unfolding S by simp
    qed
    moreover have "?r p \<notin> set ps" using Cons.prems(4) Cons.prems(5) [of p] Some by auto
    moreover have "{q \<in> set (p # ps). index_of a q \<noteq> None} = insert p {q \<in> set ps. index_of a q \<noteq> None}"
      using Some by auto
    ultimately show ?thesis by (simp only: fold_simps image_insert) auto
  qed
qed

lemma getSeries_surf: "surf g s = surf g t \<Longrightarrow> getSeries g s = getSeries g t"
  by (simp add: getSeries_def)

lemma change_other:
  assumes "app_inv s" "set gs \<subseteq> set (ap_allGraphs s)" "g \<notin> set gs"
  shows "app_inv (fold (change_graph a b keep) gs s) \<and>
    ap_allGraphs (fold (change_graph a b keep) gs s) = ap_allGraphs s \<and>
    surf g (fold (change_graph a b keep) gs s) = surf g s"
  using assms
proof (induction gs arbitrary: s)
  case (Cons h gs)
  then show ?case
    using change_graph_inv [of s h a b keep] Cons.IH [of "change_graph a b keep h s"] by simp
qed simp

text \<open>C21: \<open>change_counters\<close> with the text \<open>from:to\<close> renames, on every graph of the grid, exactly the
  counters that contain the first part, provided the new names are not plotted by that graph
  yet, are pairwise different and are not names every object has.\<close>

theorem change_counters_renames:
  assumes "app_inv s" "g \<in> set (ap_allGraphs s)" "S = set (getSeries g s)"
    "M = {p \<in> S. index_of (from_part from_to) p \<noteq> None}"
    "r = (\<lambda>p. replace_first (from_part from_to) (to_part from_to) p)"
    "inj_on r M" "r ` M \<inter> S = {}" "\<forall>p\<in>M. \<not> inherited (r p)"
  shows "set (getSeries g (change_counters from_to False s)) = (S - M) \<union> r ` M"
proof -
  let ?a = "from_part from_to" and ?b = "to_part from_to"
  obtain us vs where split: "ap_allGraphs s = us @ g # vs" using assms(2) split_list by metis
  have d: "g \<notin> set us" "g \<notin> set vs" using app_inv_distinct [OF assms(1)] split by auto
  let ?s1 = "fold (change_graph ?a ?b False) us s"
  have s1: "app_inv ?s1" "ap_allGraphs ?s1 = ap_allGraphs s" "surf g ?s1 = surf g s"
    using change_other [OF assms(1) _ d(1), of ?a ?b False] split by auto
  let ?s2 = "change_graph ?a ?b False g ?s1"
  have g1: "g \<in> set (ap_allGraphs ?s1)" using assms(2) s1(2) by simp
  have s2: "app_inv ?s2" "ap_allGraphs ?s2 = ap_allGraphs s"
    using change_graph_inv [OF s1(1) g1, of ?a ?b False] s1(2) by auto
  have last: "surf g (fold (change_graph ?a ?b False) vs ?s2) = surf g ?s2"
    using change_other [OF s2(1) _ d(2), of ?a ?b False] split s2(2) by auto
  let ?t = "fold (change_path ?a ?b False g) (getSeries g ?s1) ?s1"
  have S1: "getSeries g ?s1 = getSeries g s" by (rule getSeries_surf [OF s1(3)])
  have "distinct (getSeries g s)" using in_grid [OF assms(1,2)] by (auto simp: distinct_okeys)
  then have "set (getSeries g ?t) = (S - M) \<union> r ` M"
    using change_loop_renames [OF s1(1) g1, of "getSeries g ?s1" ?a ?b] assms(3-8) S1 by auto
  moreover have "getSeries g ?s2 = getSeries g ?t"
  proof -
    have "app_inv ?t" "g < length (ap_surfaces ?t)"
      using change_graph_frame [OF s1(1), of g ?a ?b False "getSeries g ?s1"] in_grid [OF s1(1) g1] by auto
    then have "ap_surfaces ?s2 = ap_surfaces ?t"
      using reload_frame(2) by (simp add: change_graph_def getSeries_def)
    then show ?thesis by (simp add: getSeries_def surf_def)
  qed
  ultimately show ?thesis
    using getSeries_surf [OF last] split by (simp add: change_counters_def)
qed

theorem change_counters_renames_witness:
  "set (getSeries 0 (change_counters ''idle:user'' False demo_page)) = {''cpu.user''}"
proof -
  have parts: "from_part ''idle:user'' = ''idle''" "to_part ''idle:user'' = ''user''" by code_simp+
  have "index_of ''idle'' ''cpu.idle'' \<noteq> None" "replace_first ''idle'' ''user'' ''cpu.idle'' = ''cpu.user''"
    "\<not> inherited ''cpu.user''" by code_simp+
  note facts = this
  have M: "{''cpu.idle''} = {p \<in> {''cpu.idle''}. index_of (from_part ''idle:user'') p \<noteq> None}"
    using facts(1) unfolding parts by auto
  have "set (getSeries 0 (change_counters ''idle:user'' False demo_page)) =
      ({''cpu.idle''} - {''cpu.idle''}) \<union> (\<lambda>p. replace_first (from_part ''idle:user'') (to_part ''idle:user'') p) ` {''cpu.idle''}"
    by (rule change_counters_renames [OF demo_page_inv _ _ M refl])
      (use facts in \<open>simp_all add: demo_page_graphs parts\<close>)
  then show ?thesis using facts(2) by (simp add: parts)
qed


section \<open>Refreshing\<close>

lemma loader_add_getting:
  assumes "\<forall>k\<in>set ks. \<not> inherited k"
  shows "set (okeys (ld_getting (ap_loader (loader_add ks mt ms cb s)))) =
    set ks \<union> set (okeys (ld_getting (ap_loader s)))"
proof -
  obtain l where l: "addToNextGet (getAdjustedNow (ap_clock s)) ks mt ms cb (ap_loader s) = (Ok (), l)"
    "set (okeys (ld_getting l)) = set ks \<union> set (okeys (ld_getting (ap_loader s)))"
    using addToNextGet_eq [OF assms, of "getAdjustedNow (ap_clock s)" mt ms cb "ap_loader s"]
    by (auto simp: app_simps)
  then have "loader_add ks mt ms cb s = s\<lparr>ap_loader := l\<rparr>"
    unfolding loader_add_def by (intro guarded_ok [where x = "()"]) simp
  then show ?thesis using l(2) by simp
qed

lemma reload_getting:
  assumes "app_inv s" "g < length (ap_surfaces s)"
  shows "set (okeys (ld_getting (ap_loader (reload g s)))) =
    set (getSeries g s) \<union> set (okeys (ld_getting (ap_loader s)))"
  using loader_add_getting [OF okeys_series [OF surf_ok [OF assms]]]
  by (simp add: reload_def getSeries_def Let_def)

lemma fold_reload_getting:
  assumes "app_inv s" "\<forall>g\<in>set gs. g < length (ap_surfaces s)"
  shows "set (okeys (ld_getting (ap_loader (fold reload gs s)))) =
    (\<Union>g\<in>set gs. set (getSeries g s)) \<union> set (okeys (ld_getting (ap_loader s)))"
  using assms
proof (induction gs arbitrary: s)
  case (Cons g gs)
  then obtain l where l: "reload g s = s\<lparr>ap_loader := l\<rparr>" "app_inv (reload g s)"
    using reload_eq [of s g] by auto
  then have "getSeries h (reload g s) = getSeries h s" for h by (simp add: getSeries_def surf_def)
  then show ?case
    using Cons.IH [OF l(2)] Cons.prems reload_getting [of s g] l(1) by auto
qed simp

lemma reloadAll_getting:
  assumes "app_inv s" "g \<in> set (ap_allGraphs s)"
  shows "set (getSeries g s) \<subseteq> set (okeys (ld_getting (ap_loader (reloadAll s))))"
proof -
  have "\<forall>g\<in>set (ap_allGraphs s). g < length (ap_surfaces s)"
    using assms(1) by (simp add: app_inv_def grid_ok_def)
  from fold_reload_getting [OF assms(1) this] show ?thesis
    using assms(2) by (auto simp: reloadAll_def)
qed

text \<open>The state a visible refresh ends in, up to the progress bar and the error box.\<close>

lemma refresh_state:
  assumes "app_inv s" "\<not> tl_hidden s"
  shows "tl_curStart (refresh s) = tl_curStart (slide_window (ap_clock s) s)"
    "tl_curStop (refresh s) = tl_curStop (slide_window (ap_clock s) s)"
    "ap_surfaces (refresh s) = ap_surfaces s" "ap_allGraphs (refresh s) = ap_allGraphs s"
    "\<And>g. g \<in> set (ap_allGraphs s) \<Longrightarrow> set (getSeries g s) \<subseteq> set (okeys (ld_getting (ap_loader (refresh s))))"
proof -
  obtain h s1 where b: "begin_progress s = (h, s1)" by fastforce
  let ?s2 = "slide_window (ap_clock s1) s1"
  have i1: "app_inv s1" using app_inv_timeline(5) [OF assms(1)] b by simp
  then have i2: "app_inv ?s2" by (rule app_inv_timeline)
  have c1: "same_core s s1" using same_core_ops(7) [of s] b by simp
  then have c2: "same_core s ?s2" using same_core_ops(5) same_core_trans by blast
  have tl: "tl_curStart ?s2 = tl_curStart (slide_window (ap_clock s) s)"
    "tl_curStop ?s2 = tl_curStop (slide_window (ap_clock s) s)"
    using b by (auto simp: begin_progress_def slide_window_def Let_def split: if_splits)
  obtain l where l: "reloadAll ?s2 = ?s2\<lparr>ap_loader := l\<rparr>" using reloadAll_eq [OF i2] by blast
  let ?s3 = "snd (end_progress h (reloadAll ?s2))"
  have s3: "tl_curStart ?s3 = tl_curStart ?s2" "tl_curStop ?s3 = tl_curStop ?s2" "ap_surfaces ?s3 = ap_surfaces ?s2"
    "ap_allGraphs ?s3 = ap_allGraphs ?s2" "ap_loader ?s3 = ap_loader (reloadAll ?s2)"
    by (auto simp: l end_progress_def Let_def)
  have r: "refresh s = ?s3 \<or> (\<exists>m. refresh s = errorDialog m ?s3)"
    using guarded_cases [of "''_refresh''" "\<lambda>s. if tl_hidden s then (Ok (), s)
            else (case begin_progress s of (h, s1) \<Rightarrow> end_progress h (reloadAll (slide_window (ap_clock s1) s1)))" s]
      assms(2) b by (simp add: refresh_def)
  then show "tl_curStart (refresh s) = tl_curStart (slide_window (ap_clock s) s)"
    "tl_curStop (refresh s) = tl_curStop (slide_window (ap_clock s) s)"
    "ap_surfaces (refresh s) = ap_surfaces s" "ap_allGraphs (refresh s) = ap_allGraphs s"
    using s3 tl c2 by (auto simp: errorDialog_def same_core_def)
  show "set (getSeries g s) \<subseteq> set (okeys (ld_getting (ap_loader (refresh s))))"
    if g: "g \<in> set (ap_allGraphs s)" for g
  proof -
    have "getSeries g s = getSeries g ?s2" using c2 by (simp add: same_core_def getSeries_def surf_def)
    moreover have "ap_loader (refresh s) = ap_loader (reloadAll ?s2)" using r s3(5) by (auto simp: errorDialog_def)
    ultimately show ?thesis using reloadAll_getting [OF i2, of g] g c2 by (simp add: same_core_def)
  qed
qed

text \<open>C23: a refresh of a visible page asks again for every counter of every graph; a time window
  as long as the original one moves so that it ends ten seconds before now and keeps its
  length, a zoomed window stays where it is; a hidden page does nothing.\<close>

theorem refresh_window:
  assumes "app_inv s" "tl_curStart s = Some a" "tl_curStop s = Some b" "tl_origStart s = Some oa"
    "tl_origStop s = Some ob" "\<bar>ap_clock s - 10000 - (b - a)\<bar> \<le> 8640000000000000"
  shows "if tl_hidden s then refresh s = s
    else (tl_curStart (refresh s), tl_curStop (refresh s)) =
        (if b - a = ob - oa then (Some (ap_clock s - 10000 - (b - a)), Some (ap_clock s - 10000)) else (Some a, Some b)) \<and>
      (\<forall>g\<in>set (ap_allGraphs s). set (getSeries g s) \<subseteq> set (okeys (ld_getting (ap_loader (refresh s)))))"
proof (cases "tl_hidden s")
  case True
  then show ?thesis by (simp add: refresh_def guarded_def guard_def)
next
  case False
  then show ?thesis
    using refresh_state [OF assms(1) False] assms(2-6)
    by (auto simp: slide_window_def getAdjustedNow_def new_Date_def Let_def)
qed

theorem refresh_window_witness:
  "(tl_curStart (refresh (demo_page\<lparr>ap_clock := 1400000020000\<rparr>)), tl_curStop (refresh (demo_page\<lparr>ap_clock := 1400000020000\<rparr>))) =
     (Some 1399996410000, Some 1400000010000)"
proof -
  have "tl_curStart demo_page = Some 1399996400000" "tl_curStop demo_page = Some 1400000000000"
    "tl_origStart demo_page = Some 1399996400000" "tl_origStop demo_page = Some 1400000000000"
    "tl_hidden demo_page = False"
    by code_simp+
  then show ?thesis
    using refresh_window [of "demo_page\<lparr>ap_clock := 1400000020000\<rparr>" 1399996400000 1400000000000 1399996400000 1400000000000]
      demo_page_inv by simp
qed

section \<open>A reply reaches the graphs\<close>

definition cb_surface :: "nat \<times> render_cb cb_obj \<Rightarrow> nat" where
  "cb_surface p = fst (co_cb (snd p))"

definition cb_keys :: "nat \<times> render_cb cb_obj \<Rightarrow> string list" where
  "cb_keys p = snd (co_cb (snd p))"

lemma fold_render_other:
  assumes "\<forall>p\<in>set cs. cb_surface p = g \<longrightarrow> cb_keys p = []"
  shows "surf g (fold (\<lambda>p s. renderData (fst (co_cb (snd p))) (snd (co_cb (snd p))) d s) cs s) = surf g s"
  using assms
proof (induction cs arbitrary: s)
  case (Cons p cs)
  have "surf g (renderData (fst (co_cb (snd p))) (snd (co_cb (snd p))) d s) = surf g s"
    using Cons.prems by (auto simp: renderData_def cb_surface_def cb_keys_def surf_def set_surf_def)
  then show ?case using Cons by simp
qed simp

lemma fold_render_last:
  assumes "cs = us @ p # vs" "cb_surface p = g" "cb_keys p \<noteq> []" "\<forall>q\<in>set vs. cb_surface q \<noteq> g"
    "g < length (ap_surfaces s)" "app_inv s" "cbs_ok (length (ap_surfaces s)) cs"
  shows "sf_last (surf g (fold (\<lambda>p s. renderData (fst (co_cb (snd p))) (snd (co_cb (snd p))) d s) cs s)) =
    render_fields (cb_keys p) d"
proof -
  let ?f = "\<lambda>p s. renderData (fst (co_cb (snd p))) (snd (co_cb (snd p))) d s"
  have len: "length (ap_surfaces (fold ?f us s)) = length (ap_surfaces s)"
    using fold_render [OF assms(6), of us d] assms(1,7) by (simp add: cbs_ok_def)
  have "sf_last (surf g (?f p t)) = render_fields (cb_keys p) d"
    if "length (ap_surfaces t) = length (ap_surfaces s)" for t
    using that assms(2,3,5) by (auto simp: renderData_def cb_surface_def cb_keys_def surf_def set_surf_def)
  note this [OF len]
  moreover have "surf g (fold ?f vs (?f p (fold ?f us s))) = surf g (?f p (fold ?f us s))"
    by (rule fold_render_other) (use assms(4) in auto)
  ultimately show ?thesis using assms(1) by simp
qed

text \<open>C22: when the request in flight succeeds, a graph that asked in it holds the fields of the
  reply for the keys of its last question: the range and, for each key, what the server sent
  or undefined.\<close>

theorem reply_reaches_graph:
  assumes "app_inv s" "ld_xhr (ap_loader s) = Some rq" "rp_status r \<le> 299" "rp_body r = Some d"
    "rq_cbObjs rq = us @ p # vs" "cb_surface p = g" "cb_keys p \<noteq> []" "\<forall>q\<in>set vs. cb_surface q \<noteq> g"
  shows "sf_last (surf g (loader_complete r s)) = render_fields (cb_keys p) d \<and>
    (\<forall>k\<in>set (cb_keys p). oget (render_fields (cb_keys p) d) k = Some (reply_field d k))"
proof
  let ?f = "\<lambda>p s. renderData (fst (co_cb (snd p))) (snd (co_cb (snd p))) d s"
  have cbs: "cbs_ok (length (ap_surfaces s)) (rq_cbObjs rq)"
    using assms(1,2) by (simp add: app_inv_def refs_ok_def)
  then have g: "g < length (ap_surfaces s)" using assms(5,6) by (auto simp: cbs_ok_def cb_surface_def)
  have "\<exists>oc l. onXhrComplete run_render (cur_range s) r rq s (ap_loader s) = (oc, fold ?f (rq_cbObjs rq) s, l)"
    using assms(3,4) by (auto simp: onXhrComplete_def Let_def deliver_render split: prod.splits)
  then obtain oc l where eq: "onXhrComplete run_render (cur_range s) r rq s (ap_loader s) = (oc, fold ?f (rq_cbObjs rq) s, l)"
    by blast
  let ?h = "\<lambda>s. case ld_xhr (ap_loader s) of None \<Rightarrow> (Ok (), s)
      | Some rq \<Rightarrow> (case onXhrComplete run_render (cur_range s) r rq s (ap_loader s) of
           (oc, s1, l) \<Rightarrow> (oc, s1\<lparr>ap_loader := l\<rparr>))"
  have "?h s = (oc, (fold ?f (rq_cbObjs rq) s)\<lparr>ap_loader := l\<rparr>)" by (simp add: assms(2) eq)
  then have "surf g (loader_complete r s) = surf g (fold ?f (rq_cbObjs rq) s)"
    using guarded_cases [of "''Loader_onXhrComplete''" ?h s]
    by (auto simp: loader_complete_def surf_def errorDialog_def)
  then show "sf_last (surf g (loader_complete r s)) = render_fields (cb_keys p) d"
    using fold_render_last [OF assms(5-8) g assms(1) cbs] by simp
  have "oget (fold (\<lambda>k. oset k (reply_field d k)) ks o0) k =
      (if k \<in> set ks then Some (reply_field d k) else oget o0 k)" for k ks o0
    by (induction ks arbitrary: o0) (auto simp: obj_simps)
  then show "\<forall>k\<in>set (cb_keys p). oget (render_fields (cb_keys p) d) k = Some (reply_field d k)"
    by (simp add: render_fields_def)
qed

definition demo_flight :: app where
  "demo_flight = loader_timer 1 demo_page"

definition demo_reply :: "render_data reply" where
  "demo_reply = \<lparr>rp_status = 200, rp_statusText = ''OK'',
     rp_body = Some [(''start'', RNum 10), (''stop'', RNum 30), (''interval'', RNum 10),
       (''cpu.idle'', RSeries (Some [mk_bucket 10 1 2 3]))]\<rparr>"

lemma demo_flight_inv: "app_inv demo_flight"
proof -
  have "(1, 500) \<in> set (ld_timers (ap_loader demo_page))" by code_simp
  then show ?thesis unfolding demo_flight_def by (rule loader_timer_inv [OF demo_page_inv])
qed

lemma demo_flight_request:
  "map_option rq_cbObjs (ld_xhr (ap_loader demo_flight)) =
     Some [(1, \<lparr>co_keys = [''cpu.idle''], co_cb = (0, [''cpu.idle'']), co_id = 1, co_maxSamples = 600\<rparr>)]"
  by code_simp

theorem reply_reaches_graph_witness:
  "oget (sf_last (surf 0 (loader_complete demo_reply demo_flight))) ''cpu.idle'' =
     Some (RSeries (Some [mk_bucket 10 1 2 3]))"
proof -
  let ?p = "(1, \<lparr>co_keys = [''cpu.idle''], co_cb = (0, [''cpu.idle'']), co_id = 1, co_maxSamples = 600\<rparr>) :: nat \<times> render_cb cb_obj"
  obtain rq where rq: "ld_xhr (ap_loader demo_flight) = Some rq" "rq_cbObjs rq = [] @ ?p # []"
    using demo_flight_request by auto
  from reply_reaches_graph [OF demo_flight_inv rq(1) _ _ rq(2), of demo_reply "the (rp_body demo_reply)" 0]
  show ?thesis by (simp add: demo_reply_def cb_surface_def cb_keys_def reply_field_def oget_def)
qed

definition demo_closed :: app where
  "demo_closed = loader_complete demo_reply (close_surface 0 demo_flight)"

lemma demo_closed_fields:
  "ap_allGraphs demo_closed = []" "sf_inDom (surf 0 demo_closed) = False" "sf_series (surf 0 demo_closed) = None"
  "ap_paints demo_closed = [(0, 1, True)]" "tl_hidden demo_closed = False" "length (ap_surfaces demo_closed) = 1"
  "sf_last (surf 0 demo_closed) = the (rp_body demo_reply)" "sf_format (surf 0 demo_closed) = ''customBars''"
  by code_simp+

lemma demo_reply_plot: "\<exists>pl. repaint_plot ''customBars'' (the (rp_body demo_reply)) = Some (Ok (Some pl))"
proof -
  have t: "plot_times (the (rp_body demo_reply)) = Some [Some 10000, Some 20000]"
    by (simp add: demo_reply_def plot_times_def get_num_def oget_def plot_loop.simps new_Date_def)
  have k: "okeys (the (rp_body demo_reply)) = [''start'', ''stop'', ''interval'', ''cpu.idle'']"
    by code_simp
  have "\<exists>p. each_series ''customBars'' [Some 10000, Some 20000] (the (rp_body demo_reply))
      (okeys (the (rp_body demo_reply))) init_plot = Ok p"
    unfolding k by (simp add: demo_reply_def oget_def)
  then show ?thesis unfolding repaint_plot_def t by (auto simp: Let_def)
qed

text \<open>A graph that is closed while its request is in flight is drawn again when the reply
  arrives: it is no longer in the grid nor in the page, and it owns a new plot that nothing
  destroys. The test for removed graphs in \<open>renderData\<close> looks at the keys that were asked
  for, which a closed graph still has.\<close>

theorem closed_graph_is_repainted:
  "ap_allGraphs demo_closed = [] \<and> sf_inDom (surf 0 demo_closed) = False \<and> sf_series (surf 0 demo_closed) = None \<and>
   map_option (\<lambda>t. sf_dygraph (surf 0 t) = None) (paint demo_closed) = Some False"
proof -
  obtain pl where "repaint_plot ''customBars'' (the (rp_body demo_reply)) = Some (Ok (Some pl))"
    using demo_reply_plot by blast
  then show ?thesis
    using demo_closed_fields by (simp add: paint_def repaint_def surf_def set_surf_def Let_def)
qed

section \<open>Sizes\<close>

lemma digits_only_nat_str [simp]: "digits_only (nat_str n) = nat_str n"
  by (simp add: digits_only_def filter_id_conv nat_str_digits)

lemma size_setCustom_cases:
  obtains m where "size_setCustom str s = (False, errorDialog m s)"
  | w h where "10 \<le> w" "w \<le> 4000" "10 \<le> h" "h \<le> 2000" "size_setCustom str s = (True, setGraphSize w h s)"
proof -
  define a where "a = (if length (split_lim (CHR ''x'') 2 str) \<noteq> 2 then split_chr (CHR '','') str
     else split_lim (CHR ''x'') 2 str)"
  define w h where "w = int (digits_val (digits_only (a ! 0)))" and "h = int (digits_val (digits_only (a ! 1)))"
  have eq: "size_setCustom str s =
     (if length a \<noteq> 2 then (False, errorDialog ''Please specify size as WxH (or W,H).'' s)
      else if digits_only (a ! 0) = [] \<or> digits_only (a ! 1) = []
      then (False, errorDialog ''Please specify integer width and height as WxH (or W,H).'' s)
      else if w < 10 \<or> w > 4000 \<or> h < 10 \<or> h > 2000
      then (False, errorDialog ''Please specify width and height within reasonable ranges.'' s)
      else (True, setGraphSize w h s))"
    unfolding size_setCustom_def Let_def a_def w_def h_def by (rule refl)
  show thesis
  proof (cases "length a \<noteq> 2 \<or> digits_only (a ! 0) = [] \<or> digits_only (a ! 1) = [] \<or> w < 10 \<or> w > 4000 \<or> h < 10 \<or> h > 2000")
    case True
    then show thesis using that(1) eq by metis
  next
    case False
    then show thesis using that(2) [of w h] eq by simp
  qed
qed

lemma split_size:
  "split_lim (CHR ''x'') 2 (nat_str w @ ''x'' @ nat_str h) = [nat_str w, nat_str h]"
proof -
  have "CHR ''x'' \<notin> set (nat_str n)" for n using nat_str_no_letter by blast
  then show ?thesis using split_join [of "[nat_str w, nat_str h]" "CHR ''x''"] by (simp add: split_lim_def)
qed

text \<open>Any text for a custom size either shows an error and changes nothing else, or leaves a
  size within 10..4000 by 10..2000; the text WxH of two numbers is accepted exactly when they
  are within these bounds, and then sets that size.\<close>

theorem size_setCustom_range:
  "(size_setCustom str s \<in> {(False, errorDialog m s) | m. True} \<union>
     {(True, setGraphSize w h s) | w h. w \<in> {10..4000} \<and> h \<in> {10..2000}}) \<and>
   size_setCustom (nat_str w @ ''x'' @ nat_str h) s =
     (if w \<in> {10..4000} \<and> h \<in> {10..2000} then (True, setGraphSize (int w) (int h) s)
      else (False, errorDialog ''Please specify width and height within reasonable ranges.'' s))"
proof
  show "size_setCustom str s \<in> {(False, errorDialog m s) | m. True} \<union>
     {(True, setGraphSize w h s) | w h. w \<in> {10..4000} \<and> h \<in> {10..2000}}"
    by (rule size_setCustom_cases [of str s]) auto
  show "size_setCustom (nat_str w @ ''x'' @ nat_str h) s =
     (if w \<in> {10..4000} \<and> h \<in> {10..2000} then (True, setGraphSize (int w) (int h) s)
      else (False, errorDialog ''Please specify width and height within reasonable ranges.'' s))"
    unfolding size_setCustom_def Let_def split_size
    by (simp add: digits_val_nat_str nat_str_nonempty)
qed

end
