(* ===== verification/Slider.thy ===== *)
theory Slider
  imports Page_Props
begin

text \<open>
  The time slider of src/files/graph.js (\<open>TimeSlider\<close>): the marker the thumb is on, dragging,
  and the interval each marker stands for. The markers and their actions are the ones of
  src/files/index.html; positions are exact rationals.
\<close>

section \<open>State\<close>

record slider_app = app +
  sl_index :: "nat option"
  sl_thumb :: rat
  sl_dragging :: bool

text \<open>The intervals in seconds of the markers' actions, from five minutes to five years.\<close>

definition marker_secs :: "int list" where
  "marker_secs = [5 * 60, 15 * 60, 3600, 3 * 3600, 12 * 3600, 86400, 3 * 86400, 7 * 86400, 31 * 86400,
     92 * 86400, 183 * 86400, 366 * 86400, 731 * 86400, 1827 * 86400]"

definition marker_count :: nat where
  "marker_count = length marker_secs"

definition clamp_index :: "int \<Rightarrow> nat" where
  "clamp_index i = nat (min (max i 0) (int marker_count - 1))"

definition snap :: "rat \<Rightarrow> rat" where
  "snap width = width / (of_nat marker_count - 1)"

section \<open>Operations\<close>

definition getIndex :: "'z slider_app_scheme \<Rightarrow> nat option" where
  "getIndex s = sl_index s"

definition isManual :: "'z slider_app_scheme \<Rightarrow> bool" where
  "isManual s = tl_sliderManual s"

definition moveThumb :: "rat \<Rightarrow> nat \<Rightarrow> 'z slider_app_scheme \<Rightarrow> 'z slider_app_scheme" where
  "moveThumb width i s = setManual False (s\<lparr>sl_thumb := of_nat i * snap width + 4\<rparr>)"

text \<open>The action of a marker calls \<open>set_interval\<close> with the marker's seconds; it runs only when the
  index changes.\<close>

definition update_index :: "nat \<Rightarrow> 'z slider_app_scheme \<Rightarrow> 'z slider_app_scheme" where
  "update_index i s =
     (let s1 = (if Some i \<noteq> sl_index s then set_interval (marker_secs ! i) s else s)
      in s1\<lparr>sl_index := Some i\<rparr>)"

definition setIndex :: "rat \<Rightarrow> int \<Rightarrow> 'z slider_app_scheme \<Rightarrow> 'z slider_app_scheme" where
  "setIndex width i s = update_index (clamp_index i) (moveThumb width (clamp_index i) s)"

text \<open>\<open>Math.round\<close> rounds halves up.\<close>

definition math_round :: "rat \<Rightarrow> int" where
  "math_round x = \<lfloor>x + 1 / 2\<rfloor>"

definition calculateIndex :: "rat \<Rightarrow> rat \<Rightarrow> rat \<Rightarrow> nat" where
  "calculateIndex left width x = clamp_index (math_round ((x - left) / snap width))"

definition slider_move :: "rat \<Rightarrow> rat \<Rightarrow> rat \<Rightarrow> 'z slider_app_scheme \<Rightarrow> 'z slider_app_scheme" where
  "slider_move left width x s =
     (moveThumb width (calculateIndex left width x) s)\<lparr>sl_dragging := True\<rparr>"

definition slider_drop :: "rat \<Rightarrow> rat \<Rightarrow> rat \<Rightarrow> 'z slider_app_scheme \<Rightarrow> 'z slider_app_scheme" where
  "slider_drop left width x s =
     update_index (calculateIndex left width x) (s\<lparr>sl_dragging := False\<rparr>)"

section \<open>Lemmas\<close>

lemma marker_count_eq: "marker_count = 14"
  by code_simp

lemma clamp_index_less: "clamp_index i < marker_count"
  by (simp add: clamp_index_def marker_count_eq nat_less_iff)

lemma clamp_index_id: "i < marker_count \<Longrightarrow> clamp_index (int i) = i"
  by (simp add: clamp_index_def marker_count_eq)

lemma calculateIndex_less: "calculateIndex left width x < marker_count"
  by (simp add: calculateIndex_def clamp_index_less)

text \<open>Dropping the thumb within half a step of a marker finds that marker.\<close>

lemma calculateIndex_near:
  assumes "0 < width" "i < marker_count" "\<bar>x - left - of_nat i * snap width\<bar> < snap width / 2"
  shows "calculateIndex left width x = i"
proof -
  have s: "0 < snap width" using assms(1) by (simp add: snap_def marker_count_eq)
  define y where "y = (x - left) / snap width"
  have "x - left = y * snap width" using s by (simp add: y_def)
  then have "\<bar>y - of_nat i\<bar> * snap width < 1 / 2 * snap width"
    using assms(3) s by (simp add: abs_mult left_diff_distrib [symmetric])
  then have "\<bar>y - of_nat i\<bar> < 1 / 2" using s by (simp only: mult_less_cancel_right_pos)
  then have "\<lfloor>y + 1 / 2\<rfloor> = int i" by (intro floor_unique; simp; linarith)
  then show ?thesis using assms(2) by (simp add: calculateIndex_def math_round_def y_def [symmetric] clamp_index_id)
qed

text \<open>Fields that a refresh never touches, whatever the loader does.\<close>

definition same_plan :: "'z app_scheme \<Rightarrow> 'z app_scheme \<Rightarrow> bool" where
  "same_plan s t \<longleftrightarrow> tl_origStart t = tl_origStart s \<and> tl_origStop t = tl_origStop s \<and>
     tl_sliderManual t = tl_sliderManual s \<and> ap_maxSamples t = ap_maxSamples s \<and>
     tl_isAutoRefresh t = tl_isAutoRefresh s \<and> ap_width t = ap_width s \<and> ap_height t = ap_height s \<and>
     ap_clock t = ap_clock s \<and> tl_hidden t = tl_hidden s \<and> ap_sizeDropdown t = ap_sizeDropdown s \<and>
     app.more t = app.more s"

lemma same_plan_refl [simp]: "same_plan s s"
  by (simp add: same_plan_def)

lemma same_plan_trans: "same_plan s t \<Longrightarrow> same_plan t u \<Longrightarrow> same_plan s u"
  by (simp add: same_plan_def)

lemma same_plan_ops [simp]:
  "same_plan s (errorDialog m s)" "same_plan s (s\<lparr>ap_loader := l\<rparr>)" "same_plan s (slide_window c s)"
  "same_plan s (snd (begin_progress s))" "same_plan s (snd (end_progress h s))" "same_plan s (calcReloadInterval s)"
  "same_plan s (restoreOriginalInterval s)"
  by (simp_all add: same_plan_def errorDialog_def slide_window_def begin_progress_def end_progress_def
      calcReloadInterval_def restoreOriginalInterval_def Let_def split: option.splits)

lemma same_plan_guarded: "same_plan s (snd (f s)) \<Longrightarrow> same_plan s (guarded fname f s)"
  using guarded_cases [of fname f s] same_plan_trans same_plan_ops(1) by metis

lemma same_plan_reload: "same_plan s (reload g s)"
  unfolding reload_def loader_add_def Let_def
  by (rule same_plan_guarded) (simp split: prod.split)

lemma same_plan_fold: "same_plan s (fold reload gs s)"
  by (induction gs arbitrary: s) (auto intro: same_plan_trans same_plan_reload)

lemma same_plan_refresh: "same_plan s (refresh s)"
  unfolding refresh_def
proof (rule same_plan_guarded)
  obtain h s1 where b: "begin_progress s = (h, s1)" by fastforce
  have "same_plan s s1" using same_plan_ops(4) [of s] b by simp
  then have "same_plan s (reloadAll (slide_window (ap_clock s1) s1))"
    unfolding reloadAll_def using same_plan_trans same_plan_ops(3) same_plan_fold by blast
  then have "same_plan s (snd (end_progress h (reloadAll (slide_window (ap_clock s1) s1))))"
    using same_plan_trans same_plan_ops(5) by blast
  then show "same_plan s (snd (if tl_hidden s then (Ok (), s)
       else case begin_progress s of (h, s1) \<Rightarrow> end_progress h (reloadAll (slide_window (ap_clock s1) s1))))"
    using b by simp
qed

lemma set_interval_plan:
  "tl_origStop (set_interval i s) = tl_origStop s"
  "tl_origStart (set_interval i s) = new_Date (num_minus (tl_origStop s) (Some (i * 1000)))"
  "ap_maxSamples (set_interval i s) = None" "tl_sliderManual (set_interval i s) = tl_sliderManual s"
proof -
  let ?t = "calcReloadInterval (restoreOriginalInterval
     (s\<lparr>tl_origStart := new_Date (num_minus (tl_origStop s) (Some (i * 1000))), ap_maxSamples := None\<rparr>))"
  have "same_plan ?t (set_interval i s)" unfolding set_interval_def by (rule same_plan_refresh)
  moreover have "tl_origStop ?t = tl_origStop s" "ap_maxSamples ?t = None" "tl_sliderManual ?t = tl_sliderManual s"
    "tl_origStart ?t = new_Date (num_minus (tl_origStop s) (Some (i * 1000)))"
    by (simp_all add: calcReloadInterval_def restoreOriginalInterval_def split: option.splits)
  ultimately show "tl_origStop (set_interval i s) = tl_origStop s"
    "tl_origStart (set_interval i s) = new_Date (num_minus (tl_origStop s) (Some (i * 1000)))"
    "ap_maxSamples (set_interval i s) = None" "tl_sliderManual (set_interval i s) = tl_sliderManual s"
    unfolding same_plan_def by metis+
qed

text \<open>The window that \<open>set_interval\<close> shows on a visible page.\<close>

lemma set_interval_window:
  assumes "app_inv s" "\<not> tl_hidden s" "tl_origStop s = Some b" "\<bar>b - i * 1000\<bar> \<le> 8640000000000000"
    "\<bar>ap_clock s - 10000 - i * 1000\<bar> \<le> 8640000000000000"
  shows "tl_curStart (set_interval i s) = Some (ap_clock s - 10000 - i * 1000)"
    "tl_curStop (set_interval i s) = Some (ap_clock s - 10000)"
proof -
  let ?t = "calcReloadInterval (restoreOriginalInterval
     (s\<lparr>tl_origStart := new_Date (num_minus (tl_origStop s) (Some (i * 1000))), ap_maxSamples := None\<rparr>))"
  have t: "app_inv ?t" using assms(1) by (intro app_inv_timeline) simp
  have f: "tl_curStart ?t = Some (b - i * 1000)" "tl_curStop ?t = Some b" "tl_origStart ?t = Some (b - i * 1000)"
    "tl_origStop ?t = Some b" "ap_clock ?t = ap_clock s" "\<not> tl_hidden ?t"
    using assms(2-4) by (simp_all add: calcReloadInterval_def restoreOriginalInterval_def new_Date_def split: option.splits)
  show "tl_curStart (set_interval i s) = Some (ap_clock s - 10000 - i * 1000)"
    "tl_curStop (set_interval i s) = Some (ap_clock s - 10000)"
    unfolding set_interval_def refresh_state(1,2) [OF t f(6)]
    using f assms(5) by (simp_all add: slide_window_def getAdjustedNow_def new_Date_def Let_def)
qed

section \<open>Properties\<close>

text \<open>Moving the slider of a visible page to another marker shows the interval of that marker,
  ending ten seconds before now: the index is the marker's, the manual mode is off, the
  sample limit is gone, and the window has exactly the marker's length.\<close>

theorem setIndex_shows_interval:
  assumes "app_inv s" "\<not> tl_hidden s" "i < marker_count" "sl_index s \<noteq> Some i" "tl_origStop s = Some b"
    "0 \<le> b" "b \<le> 4000000000000" "0 \<le> ap_clock s" "ap_clock s \<le> 4000000000000"
  shows "tl_curStop (setIndex width (int i) s) = Some (ap_clock s - 10000) \<and>
    tl_curStart (setIndex width (int i) s) = Some (ap_clock s - 10000 - marker_secs ! i * 1000) \<and>
    sl_index (setIndex width (int i) s) = Some i \<and> \<not> isManual (setIndex width (int i) s) \<and>
    ap_maxSamples (setIndex width (int i) s) = None"
proof -
  let ?s1 = "moveThumb width i s"
  have "\<forall>m\<in>set marker_secs. 0 \<le> m \<and> m \<le> 157852800" by code_simp
  then have m: "0 \<le> marker_secs ! i" "marker_secs ! i \<le> 157852800"
    using assms(3) by (auto simp: marker_count_def)
  have eq: "setIndex width (int i) s = (set_interval (marker_secs ! i) ?s1)\<lparr>sl_index := Some i\<rparr>"
    using assms(3,4) by (simp add: setIndex_def clamp_index_id update_index_def moveThumb_def setManual_def)
  have "app_inv ?s1" using assms(1) by (simp add: moveThumb_def setManual_def app_inv_def auto_ok_def)
  note w = set_interval_window [OF this, of b "marker_secs ! i"]
  have "ap_clock ?s1 = ap_clock s" "tl_hidden ?s1 = tl_hidden s" "tl_origStop ?s1 = tl_origStop s" "\<not> tl_sliderManual ?s1"
    by (simp_all add: moveThumb_def setManual_def)
  then show ?thesis
    using w assms(2,5-9) m set_interval_plan(3,4) [of "marker_secs ! i" ?s1] by (simp add: eq isManual_def)
qed

definition demo_slider :: slider_app where
  "demo_slider = app.extend demo_page \<lparr>sl_index = Some 2, sl_thumb = 0, sl_dragging = False\<rparr>"

lemma app_inv_extend: "app_inv (app.extend s m) = app_inv (s :: app)"
  by (simp add: app_inv_def auto_ok_def app.extend_def)

lemma demo_slider_inv: "app_inv demo_slider"
  using demo_page_inv by (simp add: demo_slider_def app_inv_extend)

theorem setIndex_shows_interval_witness:
  "tl_curStart (setIndex 130 3 demo_slider) = Some 1399989200000 \<and> tl_curStop (setIndex 130 3 demo_slider) = Some 1400000000000"
proof -
  have "\<not> tl_hidden demo_slider" "sl_index demo_slider = Some 2" "tl_origStop demo_slider = Some 1400000000000"
    "ap_clock demo_slider = 1400000010000" "marker_secs ! 3 = 10800"
    by code_simp+
  then show ?thesis
    using setIndex_shows_interval [OF demo_slider_inv, of 3 1400000000000 130] by (simp add: marker_count_eq)
qed

text \<open>After a manual date range, moving the slider to the marker it was last on takes the manual
  mark away and leaves the manual range in place: the action of a marker runs only when the
  index changes, and a manual range does not reset the index.\<close>

theorem slider_same_marker_keeps_range:
  assumes "app_inv s" "sl_index s = Some i" "i < marker_count"
  shows "tl_curStart (setIndex width (int i) (resetDateRange f t s)) = f \<and>
    tl_curStop (setIndex width (int i) (resetDateRange f t s)) = t \<and>
    isManual (resetDateRange f t s) \<and> \<not> isManual (setIndex width (int i) (resetDateRange f t s))"
proof -
  let ?r = "reset_range_state f t s"
  have "app_inv ?r" using assms(1) by (simp add: reset_range_state_def app_inv_timeline)
  then obtain l where l: "resetDateRange f t s = ?r\<lparr>ap_loader := l\<rparr>"
    using reloadAll_eq unfolding resetDateRange_def by blast
  have r: "tl_curStart ?r = f" "tl_curStop ?r = t" "tl_sliderManual ?r"
    by (simp_all add: reset_range_state_def app_simps restoreOriginalInterval_def setManual_def)
  have "sl_index ?r = sl_index s"
    by (simp add: reset_range_state_def restoreOriginalInterval_def setManual_def calcReloadInterval_def setAutoRefresh_def
        set_interval_timer_def clear_interval_timer_def Let_def split: option.splits)
  then have "setIndex width (int i) (?r\<lparr>ap_loader := l\<rparr>) =
      (moveThumb width i (?r\<lparr>ap_loader := l\<rparr>))\<lparr>sl_index := Some i\<rparr>"
    using assms(2,3) by (simp add: setIndex_def clamp_index_id update_index_def moveThumb_def setManual_def)
  then show ?thesis using r l by (simp add: isManual_def moveThumb_def setManual_def)
qed

theorem slider_same_marker_keeps_range_witness:
  "tl_curStart (setIndex 130 2 (resetDateRange (Some 1000) (Some 2000) demo_slider)) = Some 1000"
proof -
  have "sl_index demo_slider = Some 2" by code_simp
  then show ?thesis
    using slider_same_marker_keeps_range [OF demo_slider_inv, of 2 130 "Some 1000" "Some 2000"]
    by (simp add: marker_count_eq)
qed

end
