(* ===== verification/Dashboard.thy ===== *)
theory Dashboard
  imports Slider
begin

text \<open>
  Dashboards of src/files/graph.js: \<open>getDashboard\<close> and \<open>openDashboard\<close>, the settings requests
  \<open>loadSettings\<close> and \<open>saveSettings\<close> with their pending replies, the list of dashboards
  (\<open>DashboardList\<close>), saving and deleting. What travels through \<open>JSON.stringify\<close> and
  \<open>JSON.parse\<close> is kept as the value itself; undefined and NaN arrive as null, here a missing
  value. Time intervals are kept in milliseconds.
\<close>

section \<open>Data\<close>

text \<open>\<open>timeSlider\<close> is the text manual, a number, or anything else.\<close>

datatype slider_json = SManual | SIndex int | SOther

record dash_json =
  dj_size :: "(int \<times> int) option"
  dj_autoRefresh :: bool
  dj_timeInterval :: "int option"
  dj_timeSlider :: slider_json
  dj_sizeDropdown :: "int option"
  dj_graphs :: "string list list"
  dj_formats :: "nat option list option"

text \<open>What a settings request answers: each value is the text of a dashboard, or not JSON.\<close>

type_synonym settings = "dash_json option jsobj"

datatype load_cb =
    DashLoad string "string list" nat
  | ListLoad "string option"

datatype save_val = SaveDash dash_json | SaveEmpty

datatype save_cb = SavedList | Deleted string | NoCallback

record dash_app = slider_app +
  da_userName :: "string option"
  da_hash :: string
  da_itemsByName :: "unit jsobj"
  da_list :: "(string option \<times> string) list"
  da_current :: "string option"
  da_marked :: "string option"
  da_loads :: "(string \<times> string \<times> load_cb) list"
  da_saves :: "(string \<times> string \<times> save_val \<times> nat \<times> save_cb) list"
  da_left :: bool

section \<open>Formats\<close>

definition bars_fmt_to_ix :: "nat jsobj" where
  "bars_fmt_to_ix = [(''noBars'', 1), (''errorBars'', 2), (''customBars'', 3), (''stacked'', 4), (''area'', 5)]"

definition bars_ix_to_fmt :: "string jsobj" where
  "bars_ix_to_fmt = [(''1'', ''noBars''), (''2'', ''errorBars''), (''3'', ''customBars''), (''4'', ''stacked''),
     (''5'', ''area'')]"

text \<open>\<open>bars_ix_to_fmt[k] || "errorBars"\<close>; for a member that every object inherits the format is a
  function, which is none of the known formats.\<close>

definition fmt_of_key :: "string \<Rightarrow> string" where
  "fmt_of_key k = (case oget bars_ix_to_fmt k of Some f \<Rightarrow> f
     | None \<Rightarrow> if inherited k then ''[function]'' else ''errorBars'')"

definition ix_text :: "nat option \<Rightarrow> string" where
  "ix_text i = (case i of None \<Rightarrow> ''undefined'' | Some n \<Rightarrow> nat_str n)"

section \<open>Reading the state out\<close>

definition getDashboard :: "'z dash_app_scheme \<Rightarrow> dash_json" where
  "getDashboard s =
     \<lparr>dj_size = Some (ap_width s, ap_height s),
      dj_autoRefresh = tl_isAutoRefresh s,
      dj_timeInterval = num_minus (tl_curStop s) (tl_curStart s),
      dj_timeSlider = (if isManual s then SManual
                       else case getIndex s of None \<Rightarrow> SOther | Some i \<Rightarrow> SIndex (int i)),
      dj_sizeDropdown = ap_sizeDropdown s,
      dj_graphs = map (\<lambda>g. getSeries g s) (ap_allGraphs s),
      dj_formats = Some (map (\<lambda>g. oget bars_fmt_to_ix (sf_format (surf g s))) (ap_allGraphs s))\<rparr>"

section \<open>Writing it back\<close>

definition add_graph :: "string \<Rightarrow> string list \<Rightarrow> 'z app_scheme \<Rightarrow> 'z app_scheme" where
  "add_graph fmt serii s =
     (case newGraph s of (nu, s1) \<Rightarrow>
        fold (\<lambda>ser s. toggleSeries nu ser s) serii (set_surf nu ((surf nu s1)\<lparr>sf_format := fmt\<rparr>) s1))"

definition nth_format :: "nat option list option \<Rightarrow> nat \<Rightarrow> string" where
  "nth_format fs k =
     (case fs of None \<Rightarrow> ''errorBars''
      | Some l \<Rightarrow> fmt_of_key (if k < length l then (case l ! k of None \<Rightarrow> ''null'' | Some n \<Rightarrow> nat_str n) else ''undefined''))"

definition open_graphs :: "dash_json \<Rightarrow> 'z app_scheme \<Rightarrow> 'z app_scheme" where
  "open_graphs json s =
     fold (\<lambda>k s. add_graph (nth_format (dj_formats json) k) (dj_graphs json ! k) s) [0..<length (dj_graphs json)] s"

text \<open>The item of the size menu (which has four) that a number picks; a number out of range picks
  no item, whose index is reported as -1.\<close>

definition dropdown_pick :: "int \<Rightarrow> int" where
  "dropdown_pick j = (let k = (if j < 0 then j + 4 else j) in if 0 \<le> k \<and> k < 4 then k else -1)"

definition open_size :: "dash_json \<Rightarrow> 'z app_scheme \<Rightarrow> 'z app_scheme" where
  "open_size json s =
     (case dj_size json of
        None \<Rightarrow> s
      | Some (w, h) \<Rightarrow>
          graph_size w h (if dj_timeSlider json = SManual then None
                          else map_option dropdown_pick (dj_sizeDropdown json)) s)"

definition open_interval :: "dash_json \<Rightarrow> 'z app_scheme \<Rightarrow> 'z app_scheme" where
  "open_interval json s =
     (case dj_timeInterval json of
        None \<Rightarrow> s
      | Some ti \<Rightarrow>
          (if ti = 0 then s
           else restoreOriginalInterval (s\<lparr>tl_origStart := new_Date (num_minus (tl_origStop s) (Some ti))\<rparr>)))"

definition open_slider :: "rat \<Rightarrow> dash_json \<Rightarrow> 'z slider_app_scheme \<Rightarrow> 'z slider_app_scheme" where
  "open_slider width json s =
     (case dj_timeSlider json of SManual \<Rightarrow> setManual True s | SIndex i \<Rightarrow> setIndex width i s | SOther \<Rightarrow> s)"

text \<open>Marking the current dashboard in the list. A name that is not in the table but that every
  object inherits finds a function, which has no \<open>addClass\<close>.\<close>

definition updateCurrentDashboard :: "'z dash_app_scheme \<Rightarrow> unit outcome \<times> 'z dash_app_scheme" where
  "updateCurrentDashboard s =
     (let s1 = s\<lparr>da_marked := None\<rparr>
      in case da_current s of
           None \<Rightarrow> (Ok (), s1)
         | Some n \<Rightarrow>
             (if n = [] then (Ok (), s1)
              else if oget (da_itemsByName s) n \<noteq> None then (Ok (), s1\<lparr>da_marked := Some n\<rparr>)
              else if inherited n then (Throw (TypeError ''addClass is not a function''), s1)
              else (Ok (), s1)))"

definition setCurrentDashboard :: "string \<Rightarrow> 'z dash_app_scheme \<Rightarrow> unit outcome \<times> 'z dash_app_scheme" where
  "setCurrentDashboard name s = updateCurrentDashboard (s\<lparr>da_current := Some name\<rparr>)"

definition open_json :: "rat \<Rightarrow> dash_json \<Rightarrow> 'z dash_app_scheme \<Rightarrow> 'z dash_app_scheme" where
  "open_json width json s =
     repaintAll (setAutoRefresh (dj_autoRefresh json) (calcReloadInterval
       (open_slider width json (open_interval json (open_graphs json (open_size json (clear s)))))))"

definition openDashboard :: "rat \<Rightarrow> string \<Rightarrow> settings \<Rightarrow> 'z dash_app_scheme \<Rightarrow> unit outcome \<times> 'z dash_app_scheme" where
  "openDashboard width dashboard json s =
     (case oget json (''dashboard.'' @ dashboard) of
        Some (Some d) \<Rightarrow>
          setCurrentDashboard dashboard ((open_json width d s)\<lparr>da_hash := ''#?dashboard='' @ dashboard\<rparr>)
      | _ \<Rightarrow> (Throw (SyntaxError ''JSON.parse''), s))"

section \<open>Loading settings\<close>

definition loadSettings :: "string \<Rightarrow> string \<Rightarrow> load_cb \<Rightarrow> 'z dash_app_scheme \<Rightarrow> 'z dash_app_scheme" where
  "loadSettings scope flt cb s = s\<lparr>da_loads := da_loads s @ [(scope, flt, cb)]\<rparr>"

fun load_dashboard :: "string \<Rightarrow> string list \<Rightarrow> nat \<Rightarrow> 'z dash_app_scheme \<Rightarrow> unit outcome \<times> 'z dash_app_scheme" where
  "load_dashboard name [] cb s = end_progress cb (errorDialog ''Error loading dashboard'' s)"
| "load_dashboard name (ctx # contexts) cb s =
     (Ok (), loadSettings ctx (''dashboard.'' @ name) (DashLoad name contexts cb) s)"

definition list_item :: "string option \<Rightarrow> string \<Rightarrow> 'z dash_app_scheme \<Rightarrow> 'z dash_app_scheme" where
  "list_item ctx k s =
     (if take 10 k = ''dashboard.''
      then s\<lparr>da_itemsByName := oset (drop 10 k) () (da_itemsByName s), da_list := da_list s @ [(ctx, drop 10 k)]\<rparr>
      else s)"

definition on_userDashboards :: "string option \<Rightarrow> settings \<Rightarrow> 'z dash_app_scheme \<Rightarrow> unit outcome \<times> 'z dash_app_scheme" where
  "on_userDashboards ctx json s =
     (let s1 = fold (list_item ctx) (okeys json) s;
          s2 = (if ctx \<noteq> Some ''global'' then loadSettings ''global'' ''dashboard.*'' (ListLoad (Some ''global'')) s1 else s1)
      in updateCurrentDashboard s2)"

definition list_reload :: "'z dash_app_scheme \<Rightarrow> unit outcome \<times> 'z dash_app_scheme" where
  "list_reload s =
     (let s1 = s\<lparr>da_list := []\<rparr>
      in case da_userName s1 of
           Some u \<Rightarrow> (if u = [] then on_userDashboards (Some u) [] s1
                      else (Ok (), loadSettings u ''dashboard.*'' (ListLoad (Some u)) s1))
         | None \<Rightarrow> on_userDashboards None [] s1)"

text \<open>The reply to a settings request: a status and a body that may fail to parse.\<close>

record load_reply =
  lr_status :: int
  lr_body :: "settings option"

definition load_success :: "rat \<Rightarrow> load_cb \<Rightarrow> settings \<Rightarrow> 'z dash_app_scheme \<Rightarrow> unit outcome \<times> 'z dash_app_scheme" where
  "load_success width cb json s =
     (case cb of
        DashLoad name contexts h \<Rightarrow>
          (case openDashboard width name json s of
             (Throw e, s1) \<Rightarrow> (Throw e, s1)
           | (Ok _, s1) \<Rightarrow> end_progress h s1)
      | ListLoad ctx \<Rightarrow> on_userDashboards ctx json s)"

definition load_error :: "load_cb \<Rightarrow> 'z dash_app_scheme \<Rightarrow> unit outcome \<times> 'z dash_app_scheme" where
  "load_error cb s =
     (case cb of
        DashLoad name contexts h \<Rightarrow> load_dashboard name contexts h s
      | ListLoad ctx \<Rightarrow> on_userDashboards ctx [] s)"

definition settings_loaded :: "rat \<Rightarrow> nat \<Rightarrow> load_reply \<Rightarrow> 'z dash_app_scheme \<Rightarrow> 'z dash_app_scheme" where
  "settings_loaded width i r s =
     (if i < length (da_loads s) then
        (case da_loads s ! i of (scope, flt, cb) \<Rightarrow>
           guarded []
             (\<lambda>s. case lr_body r of
                    None \<Rightarrow> (Throw (SyntaxError ''JSON.parse''), s)
                  | Some json \<Rightarrow> (if lr_status r > 299 then load_error cb s else load_success width cb json s))
             (s\<lparr>da_loads := take i (da_loads s) @ drop (Suc i) (da_loads s)\<rparr>))
      else s)"

section \<open>Saving settings\<close>

definition saveSettings :: "string \<Rightarrow> string \<Rightarrow> save_val \<Rightarrow> save_cb \<Rightarrow> 'z dash_app_scheme \<Rightarrow> 'z dash_app_scheme" where
  "saveSettings scope name v cb s =
     (case begin_progress s of (h, s1) \<Rightarrow> s1\<lparr>da_saves := da_saves s1 @ [(scope, name, v, h, cb)]\<rparr>)"

definition save_callback :: "save_cb \<Rightarrow> 'z dash_app_scheme \<Rightarrow> unit outcome \<times> 'z dash_app_scheme" where
  "save_callback cb s =
     (case cb of
        NoCallback \<Rightarrow> (Ok (), s)
      | SavedList \<Rightarrow> list_reload s
      | Deleted name \<Rightarrow>
          (case list_reload s of
             (Throw e, s1) \<Rightarrow> (Throw e, s1)
           | (Ok _, s1) \<Rightarrow>
               (Ok (), if da_current s1 = Some name then s1\<lparr>da_hash := [], da_left := True\<rparr> else s1)))"

text \<open>The server's answer to a save: a status, its texts, and the parsed success flag with a message.\<close>

record save_reply =
  sr_status :: int
  sr_text :: string
  sr_body :: "(bool \<times> string) option"

definition settings_saved :: "nat \<Rightarrow> save_reply \<Rightarrow> 'z dash_app_scheme \<Rightarrow> 'z dash_app_scheme" where
  "settings_saved i r s =
     (if i < length (da_saves s) then
        (case da_saves s ! i of (scope, name, v, h, cb) \<Rightarrow>
           guarded ''_saveSettings_readyStateChange''
             (\<lambda>s. case end_progress h s of
                    (Throw e, s1) \<Rightarrow> (Throw e, s1)
                  | (Ok _, s1) \<Rightarrow>
                      (if sr_status r > 299
                       then save_callback cb (errorDialog (''saveSettings error: '' @ sr_text r) s1)
                       else (case sr_body r of
                               None \<Rightarrow> (Throw (SyntaxError ''JSON.parse''), s1)
                             | Some (success, message) \<Rightarrow>
                                 save_callback cb
                                    (if success then s1 else errorDialog (''saveSettings error: '' @ [CHR 0x0A] @ message) s1))))
             (s\<lparr>da_saves := take i (da_saves s) @ drop (Suc i) (da_saves s)\<rparr>))
      else s)"

definition name_char :: "char \<Rightarrow> bool" where
  "name_char c \<longleftrightarrow> (CHR ''a'' \<le> c \<and> c \<le> CHR ''z'') \<or> (CHR ''A'' \<le> c \<and> c \<le> CHR ''Z'') \<or> c = CHR ''_'' \<or> is_digit c"

definition proper_name :: "string \<Rightarrow> bool" where
  "proper_name fn \<longleftrightarrow> fn \<noteq> [] \<and> list_all name_char fn"

definition save_now :: "string \<Rightarrow> string \<Rightarrow> dash_json \<Rightarrow> 'z dash_app_scheme \<Rightarrow> 'z dash_app_scheme" where
  "save_now user fn theDash s =
     (saveSettings user (''dashboard.'' @ fn) (SaveDash theDash) SavedList s)\<lparr>da_hash := ''#?dashboard='' @ fn\<rparr>"

definition proper_name_error :: string where
  "proper_name_error = ''Please enter a proper file name first. Alphanumeric and underscore characters only.''"

definition save_dashboard_named :: "string \<Rightarrow> 'z dash_app_scheme \<Rightarrow> 'z dash_app_scheme" where
  "save_dashboard_named fn s =
     (if \<not> proper_name fn then errorDialog proper_name_error s
      else (case da_userName s of
              Some u \<Rightarrow>
                (if u = [] then errorDialog ''You must log in to save dashboards'' s
                 else if otruthy (da_itemsByName s) fn
                 then snd (choiceDialog (''Dashboard named '' @ [CHR 0x27] @ fn @ [CHR 0x27] @ '' already exists. Overwrite it?'')
                        [(''save'', ''Save''), (''no'', ''Cancel'')] s)
                 else save_now u fn (getDashboard s) s)
            | None \<Rightarrow> errorDialog ''You must log in to save dashboards'' s))"

text \<open>The answer to the question about overwriting; the dashboard is the one taken when the
  question was asked.\<close>

definition overwrite_choice :: "string \<Rightarrow> dash_json \<Rightarrow> string \<Rightarrow> 'z dash_app_scheme \<Rightarrow> 'z dash_app_scheme" where
  "overwrite_choice fn theDash opt s =
     (if opt = ''save'' then (case da_userName s of None \<Rightarrow> save_now ''null'' fn theDash s | Some u \<Rightarrow> save_now u fn theDash s) else s)"

definition delete_choice :: "string \<Rightarrow> string \<Rightarrow> 'z dash_app_scheme \<Rightarrow> 'z dash_app_scheme" where
  "delete_choice name opt s =
     (if opt = ''delete''
      then saveSettings (case da_userName s of None \<Rightarrow> ''null'' | Some u \<Rightarrow> u) (''dashboard.'' @ name) SaveEmpty (Deleted name) s
      else s)"

definition list_click :: "string option \<Rightarrow> string \<Rightarrow> 'z dash_app_scheme \<Rightarrow> unit outcome \<times> 'z dash_app_scheme" where
  "list_click ctx name s =
     (case begin_progress s of (h, s1) \<Rightarrow>
        load_dashboard name [case ctx of None \<Rightarrow> ''null'' | Some c \<Rightarrow> c] h s1)"

end
