(* ===== verification/Dashboard_Props.thy ===== *)
theory Dashboard_Props
  imports Dashboard
begin

text \<open>
  A dashboard that was read out and is opened again, on any page, gives back the graphs with
  their counters and formats, the size and the refresh mode; the search for a dashboard in
  several scopes; what saving refuses.
\<close>

section \<open>Rebuilding graphs\<close>

text \<open>What a user sees of the grid: the counters and the format of each graph, in order.\<close>

definition grid_view :: "'z app_scheme \<Rightarrow> (string list \<times> string) list" where
  "grid_view s = map (\<lambda>g. (getSeries g s, sf_format (surf g s))) (ap_allGraphs s)"

lemma grid_view_cong:
  "ap_surfaces t = ap_surfaces s \<Longrightarrow> ap_allGraphs t = ap_allGraphs s \<Longrightarrow> grid_view t = grid_view s"
  by (simp add: grid_view_def getSeries_def surf_def)

lemma order_keys_idem: "order_keys (order_keys ks) = order_keys ks"
proof -
  have "sort_key digits_val (sort_key digits_val xs) = sort_key digits_val xs" for xs :: "string list"
    by (simp add: sort_key_id_if_sorted)
  then show ?thesis by (simp add: order_keys_def filter_sort)
qed

lemma toggle_fresh:
  assumes "p \<notin> fst ` set ser" "\<not> inherited p"
  shows "toggle_series p ser = ser @ [(p, ())]"
proof -
  have "oget ser p = None" using assms(1) by (simp add: oget_def map_of_eq_None_iff)
  moreover have "oset p () ser = ser @ [(p, ())]" using assms(1) by (induction ser) auto
  ultimately show ?thesis using assms(2) by (simp add: toggle_series_def otruthy_def)
qed

lemma toggle_list:
  assumes "app_inv s" "g < length (ap_surfaces s)" "sf_series (surf g s) = Some ser"
    "distinct (map fst ser @ ps)" "\<forall>p\<in>set ps. \<not> inherited p"
  shows "app_inv (fold (toggleSeries g) ps s) \<and> ap_allGraphs (fold (toggleSeries g) ps s) = ap_allGraphs s \<and>
    ap_surfaces (fold (toggleSeries g) ps s) =
      (ap_surfaces s)[g := (surf g s)\<lparr>sf_series := Some (ser @ map (\<lambda>p. (p, ())) ps)\<rparr>]"
  using assms
proof (induction ps arbitrary: s ser)
  case Nil
  then have "(surf g s)\<lparr>sf_series := Some ser\<rparr> = surf g s" by (metis surface.surjective surface.update_convs(1))
  moreover have "(ap_surfaces s)[g := surf g s] = ap_surfaces s" by (simp add: surf_def)
  ultimately have "ap_surfaces s = (ap_surfaces s)[g := (surf g s)\<lparr>sf_series := Some ser\<rparr>]" by (simp only:)
  then show ?case using Nil by simp
next
  case (Cons p ps)
  have t: "toggle_series p ser = ser @ [(p, ())]" using Cons.prems(4,5) by (intro toggle_fresh) auto
  obtain l where l: "toggleSeries g p s = (set_surf g ((surf g s)\<lparr>sf_series := Some (ser @ [(p, ())])\<rparr>) s)\<lparr>ap_loader := l\<rparr>"
    "app_inv (toggleSeries g p s)"
    using toggleSeries_open [OF Cons.prems(1-3), of p] unfolding t by blast
  have s1: "surf g (toggleSeries g p s) = (surf g s)\<lparr>sf_series := Some (ser @ [(p, ())])\<rparr>"
    "ap_surfaces (toggleSeries g p s) = (ap_surfaces s)[g := (surf g s)\<lparr>sf_series := Some (ser @ [(p, ())])\<rparr>]"
    "ap_allGraphs (toggleSeries g p s) = ap_allGraphs s"
    using Cons.prems(2) by (simp_all add: l(1) surf_def set_surf_def)
  show ?case
    using Cons.IH [OF l(2), of "ser @ [(p, ())]"] Cons.prems(2,4,5) s1 by simp
qed

lemma add_graph_view:
  assumes "app_inv s" "distinct ps" "\<forall>p\<in>set ps. \<not> inherited p"
  shows "app_inv (add_graph fmt ps s) \<and> grid_view (add_graph fmt ps s) = grid_view s @ [(order_keys ps, fmt)]"
proof -
  obtain nu s1 where n: "newGraph s = (nu, s1)" by fastforce
  note i = newGraph_inv [OF assms(1) n]
  have nu: "nu = length (ap_surfaces s)" "nu < length (ap_surfaces s1)" "surf nu s1 = new_surface"
    "ap_surfaces s1 = ap_surfaces s @ [new_surface]" "ap_allGraphs s1 = ap_allGraphs s @ [nu]"
    using n by (auto simp: newGraph_def grid_add_def surf_def Let_def)
  let ?s2 = "set_surf nu ((surf nu s1)\<lparr>sf_format := fmt\<rparr>) s1"
  have "series_ok new_surface" by (simp add: series_ok_def new_surface_def)
  then have "app_inv ?s2" using i nu(2,3) by (intro set_surf_inv) auto
  moreover have "sf_series (surf nu ?s2) = Some []" using nu by (simp add: new_surface_def)
  ultimately have f: "app_inv (add_graph fmt ps s)" "ap_allGraphs (add_graph fmt ps s) = ap_allGraphs s @ [nu]"
    "ap_surfaces (add_graph fmt ps s) = (ap_surfaces ?s2)[nu := (surf nu ?s2)\<lparr>sf_series := Some (map (\<lambda>p. (p, ())) ps)\<rparr>]"
    using toggle_list [of ?s2 nu "[]" ps] assms(2,3) nu n by (auto simp: add_graph_def)
  have sf: "ap_surfaces (add_graph fmt ps s) = ap_surfaces s @ [new_surface\<lparr>sf_format := fmt, sf_series := Some (map (\<lambda>p. (p, ())) ps)\<rparr>]"
    using f(3) nu by (simp add: set_surf_def surf_def)
  have "surf g (add_graph fmt ps s) = surf g s" if "g \<in> set (ap_allGraphs s)" for g
    using that sf assms(1) by (simp add: surf_def app_inv_def grid_ok_def nth_append)
  moreover have "getSeries nu (add_graph fmt ps s) = order_keys ps" "sf_format (surf nu (add_graph fmt ps s)) = fmt"
    using sf nu(1) by (simp_all add: getSeries_def surf_def series_keys_def keys_def okeys_def comp_def)
  ultimately show ?thesis using f by (simp add: grid_view_def getSeries_def)
qed

definition good_series :: "string list \<Rightarrow> bool" where
  "good_series ps \<longleftrightarrow> distinct ps \<and> order_keys ps = ps \<and> (\<forall>p\<in>set ps. \<not> inherited p)"

lemma getSeries_good: "app_inv s \<Longrightarrow> g \<in> set (ap_allGraphs s) \<Longrightarrow> good_series (getSeries g s)"
proof -
  assume "app_inv s" "g \<in> set (ap_allGraphs s)"
  then obtain ser :: "unit jsobj" where ser: "getSeries g s = okeys ser" "wf_obj ser" "\<forall>k\<in>set (okeys ser). \<not> inherited k"
    using in_grid [of s g] by auto
  have "order_keys (okeys ser) = okeys ser" unfolding okeys_def by (rule order_keys_idem)
  then show ?thesis using ser by (simp add: good_series_def distinct_okeys)
qed

lemma add_graphs_view:
  assumes "app_inv s" "\<forall>k\<in>set ks. good_series (ps k)"
  shows "app_inv (fold (\<lambda>k s. add_graph (fm k) (ps k) s) ks s) \<and>
    grid_view (fold (\<lambda>k s. add_graph (fm k) (ps k) s) ks s) = grid_view s @ map (\<lambda>k. (ps k, fm k)) ks"
  using assms
proof (induction ks arbitrary: s)
  case (Cons k ks)
  then show ?case
    using add_graph_view [of s "ps k" "fm k"] Cons.IH [of "add_graph (fm k) (ps k) s"] by (simp add: good_series_def)
qed simp

section \<open>Opening a dashboard\<close>

lemma refresh_grid:
  assumes "app_inv s"
  shows "ap_surfaces (refresh s) = ap_surfaces s \<and> ap_allGraphs (refresh s) = ap_allGraphs s"
proof (cases "tl_hidden s")
  case True
  then show ?thesis by (simp add: refresh_def guarded_def guard_def)
next
  case False
  then show ?thesis using refresh_state(3,4) [OF assms] by simp
qed

lemma grid_view_timeline [simp]:
  "grid_view (calcReloadInterval s) = grid_view s" "grid_view (setAutoRefresh b s) = grid_view s"
  "grid_view (setManual b s) = grid_view s" "grid_view (restoreOriginalInterval s) = grid_view s"
  "grid_view (repaintAll s) = grid_view s"
  by (rule grid_view_cong; simp add: calcReloadInterval_def setAutoRefresh_def setManual_def
      restoreOriginalInterval_def repaintAll_def set_interval_timer_def clear_interval_timer_def Let_def
      split: option.splits)+

lemma set_interval_view: "app_inv s \<Longrightarrow> grid_view (set_interval i s) = grid_view s"
proof -
  assume inv: "app_inv s"
  let ?t = "calcReloadInterval (restoreOriginalInterval
     (s\<lparr>tl_origStart := new_Date (num_minus (tl_origStop s) (Some (i * 1000))), ap_maxSamples := None\<rparr>))"
  have "app_inv ?t" using inv by (intro app_inv_timeline) simp
  then have "grid_view (refresh ?t) = grid_view ?t" using refresh_grid by (intro grid_view_cong) auto
  moreover have "grid_view ?t = grid_view s"
    by (simp add: grid_view_def getSeries_def surf_def restoreOriginalInterval_def calcReloadInterval_def split: option.splits)
  ultimately show ?thesis by (simp add: set_interval_def)
qed

lemma open_slider_frame:
  assumes "app_inv s"
  shows "app_inv (open_slider w d s) \<and> grid_view (open_slider w d s) = grid_view s \<and>
    ap_width (open_slider w d s) = ap_width s \<and> ap_height (open_slider w d s) = ap_height s"
proof (cases "dj_timeSlider d")
  case SManual
  then show ?thesis using assms app_inv_timeline(4) [OF assms] by (simp add: open_slider_def) (simp add: setManual_def)
next
  case (SIndex i)
  let ?k = "clamp_index i"
  let ?s1 = "moveThumb w ?k s"
  have i1: "app_inv ?s1" using assms by (simp add: moveThumb_def setManual_def app_inv_def auto_ok_def)
  have v1: "grid_view ?s1 = grid_view s" "ap_width ?s1 = ap_width s" "ap_height ?s1 = ap_height s"
    by (simp_all add: moveThumb_def setManual_def grid_view_def getSeries_def surf_def)
  let ?s2 = "set_interval (marker_secs ! ?k) ?s1"
  have "app_inv ?s2" "grid_view ?s2 = grid_view s"
    using i1 v1 range_ops_inv(1) [OF i1] set_interval_view [OF i1] by simp_all
  moreover have "ap_width ?s2 = ap_width s" "ap_height ?s2 = ap_height s"
    using same_plan_refresh [of "calcReloadInterval (restoreOriginalInterval
       (?s1\<lparr>tl_origStart := new_Date (num_minus (tl_origStop ?s1) (Some (marker_secs ! ?k * 1000))), ap_maxSamples := None\<rparr>))"] v1
    by (simp_all add: set_interval_def same_plan_def restoreOriginalInterval_def calcReloadInterval_def split: option.splits)
  moreover have "app_inv (t\<lparr>sl_index := x\<rparr>) = app_inv t" "grid_view (t\<lparr>sl_index := x\<rparr>) = grid_view t" for t :: "'a slider_app_scheme" and x
    by (simp_all add: app_inv_def auto_ok_def grid_view_def getSeries_def surf_def)
  ultimately show ?thesis using i1 v1 SIndex by (simp add: open_slider_def setIndex_def update_index_def Let_def)
next
  case SOther
  then show ?thesis using assms by (simp add: open_slider_def)
qed

lemma open_json_stages:
  fixes s :: "'z dash_app_scheme"
  assumes "app_inv s" "\<forall>ps\<in>set (dj_graphs d). good_series ps"
  defines "s3 \<equiv> open_interval d (open_graphs d (open_size d (clear s)))"
  shows "app_inv s3" "grid_view s3 = map (\<lambda>k. (dj_graphs d ! k, nth_format (dj_formats d) k)) [0..<length (dj_graphs d)]"
proof -
  let ?s1 = "open_size d (clear s)"
  have c: "app_inv (clear s)" "ap_allGraphs (clear s) = []" using clear_state [OF assms(1)] by auto
  have s1: "app_inv ?s1" "grid_view ?s1 = []"
    using c range_ops_inv(7) [OF c(1)]
    by (auto simp: open_size_def graph_size_def setGraphSize_def repaintAll_def grid_view_def split: option.splits)
  let ?s2 = "open_graphs d ?s1"
  have s2: "app_inv ?s2" "grid_view ?s2 = map (\<lambda>k. (dj_graphs d ! k, nth_format (dj_formats d) k)) [0..<length (dj_graphs d)]"
    using add_graphs_view [OF s1(1), of "[0..<length (dj_graphs d)]" "\<lambda>k. dj_graphs d ! k" "nth_format (dj_formats d)"]
      s1(2) assms(2) by (auto simp: open_graphs_def)
  have "app_inv s3 \<and> grid_view s3 = grid_view ?s2"
    using s2(1) by (auto simp: s3_def open_interval_def grid_view_def getSeries_def surf_def restoreOriginalInterval_def
        app_inv_def auto_ok_def split: option.splits)
  then show "app_inv s3" "grid_view s3 = map (\<lambda>k. (dj_graphs d ! k, nth_format (dj_formats d) k)) [0..<length (dj_graphs d)]"
    using s2 by auto
qed

lemma reload_size [simp]: "ap_width (reload g s) = ap_width s" "ap_height (reload g s) = ap_height s"
  using same_plan_reload [of s g] by (simp_all add: same_plan_def)

lemma toggleSeries_size [simp]:
  "ap_width (toggleSeries g p s) = ap_width s" "ap_height (toggleSeries g p s) = ap_height s"
  by (simp_all add: toggleSeries_def guarded_def guard_def errorDialog_def set_surf_def split: option.splits)

lemma fold_toggle_size [simp]:
  "ap_width (fold (toggleSeries g) ps s) = ap_width s" "ap_height (fold (toggleSeries g) ps s) = ap_height s"
  by (induction ps arbitrary: s) simp_all

lemma add_graph_size [simp]: "ap_width (add_graph fmt ps s) = ap_width s" "ap_height (add_graph fmt ps s) = ap_height s"
  by (simp_all add: add_graph_def newGraph_def grid_add_def set_surf_def Let_def)

lemma add_graphs_size:
  "ap_width (fold (\<lambda>k s. add_graph (fm k) (ps k) s) ks s) = ap_width s"
  "ap_height (fold (\<lambda>k s. add_graph (fm k) (ps k) s) ks s) = ap_height s"
  by (induction ks arbitrary: s) simp_all

lemma open_graphs_size [simp]: "ap_width (open_graphs d s) = ap_width s" "ap_height (open_graphs d s) = ap_height s"
  by (simp_all add: open_graphs_def add_graphs_size)

lemma open_json_effect:
  fixes s :: "'z dash_app_scheme"
  assumes "app_inv s" "\<forall>ps\<in>set (dj_graphs d). good_series ps" "dj_size d = Some (w, h)"
  shows "app_inv (open_json sw d s) \<and>
    grid_view (open_json sw d s) = map (\<lambda>k. (dj_graphs d ! k, nth_format (dj_formats d) k)) [0..<length (dj_graphs d)] \<and>
    ap_width (open_json sw d s) = w \<and> ap_height (open_json sw d s) = h \<and>
    tl_isAutoRefresh (open_json sw d s) = dj_autoRefresh d"
proof -
  let ?s3 = "open_interval d (open_graphs d (open_size d (clear s)))"
  note s3 = open_json_stages [OF assms(1,2)]
  let ?s4 = "open_slider sw d ?s3"
  note s4 = open_slider_frame [OF s3(1), of sw d]
  let ?s5 = "calcReloadInterval ?s4"
  have i5: "app_inv ?s5" using s4 by (intro app_inv_timeline) simp
  then have a: "auto_ok ?s5" by (simp add: app_inv_def)
  let ?s6 = "setAutoRefresh (dj_autoRefresh d) ?s5"
  have s6: "tl_isAutoRefresh ?s6 = dj_autoRefresh d" using setAutoRefresh_cases(3) [OF a] .
  have "ap_width ?s3 = w \<and> ap_height ?s3 = h"
    using assms(3) by (simp add: open_interval_def restoreOriginalInterval_def open_size_def graph_size_def setGraphSize_def repaintAll_def
        split: option.splits)
  then have "ap_width ?s6 = w \<and> ap_height ?s6 = h"
    using s4 by (simp add: calcReloadInterval_def setAutoRefresh_def set_interval_timer_def clear_interval_timer_def Let_def
        split: option.splits)
  moreover have "app_inv (repaintAll ?s6)" by (rule repaintAll_inv [OF app_inv_timeline(2) [OF i5]])
  moreover have "grid_view (repaintAll ?s6) = grid_view ?s4" by simp
  moreover have "ap_width (repaintAll ?s6) = ap_width ?s6" "ap_height (repaintAll ?s6) = ap_height ?s6"
    "tl_isAutoRefresh (repaintAll ?s6) = tl_isAutoRefresh ?s6"
    by (simp_all add: repaintAll_def)
  ultimately show ?thesis using s3(2) s4 s6 by (simp add: open_json_def)
qed

section \<open>Round trip\<close>

definition known_format :: "string \<Rightarrow> bool" where
  "known_format f \<longleftrightarrow> f \<in> set (map fst bars_fmt_to_ix)"

lemma format_roundtrip: "known_format f \<Longrightarrow> \<exists>n. oget bars_fmt_to_ix f = Some n \<and> fmt_of_key (nat_str n) = f"
proof -
  assume "known_format f"
  then consider "f = ''noBars''" | "f = ''errorBars''" | "f = ''customBars''" | "f = ''stacked''" | "f = ''area''"
    by (auto simp: known_format_def bars_fmt_to_ix_def)
  then show ?thesis
  proof cases
    case 1
    moreover have "oget bars_fmt_to_ix ''noBars'' = Some 1" "fmt_of_key (nat_str 1) = ''noBars''" by code_simp+
    ultimately show ?thesis by blast
  next
    case 2
    moreover have "oget bars_fmt_to_ix ''errorBars'' = Some 2" "fmt_of_key (nat_str 2) = ''errorBars''" by code_simp+
    ultimately show ?thesis by blast
  next
    case 3
    moreover have "oget bars_fmt_to_ix ''customBars'' = Some 3" "fmt_of_key (nat_str 3) = ''customBars''" by code_simp+
    ultimately show ?thesis by blast
  next
    case 4
    moreover have "oget bars_fmt_to_ix ''stacked'' = Some 4" "fmt_of_key (nat_str 4) = ''stacked''" by code_simp+
    ultimately show ?thesis by blast
  next
    case 5
    moreover have "oget bars_fmt_to_ix ''area'' = Some 5" "fmt_of_key (nat_str 5) = ''area''" by code_simp+
    ultimately show ?thesis by blast
  qed
qed

lemma getDashboard_view:
  assumes "app_inv s" "\<forall>v\<in>set (grid_view s). known_format (snd v)"
  shows "map (\<lambda>k. (dj_graphs (getDashboard s) ! k, nth_format (dj_formats (getDashboard s)) k))
    [0..<length (dj_graphs (getDashboard s))] = grid_view s"
proof (rule nth_equalityI)
  fix k
  assume "k < length (map (\<lambda>k. (dj_graphs (getDashboard s) ! k, nth_format (dj_formats (getDashboard s)) k))
    [0..<length (dj_graphs (getDashboard s))])"
  then have k: "k < length (ap_allGraphs s)" by (simp add: getDashboard_def)
  let ?f = "sf_format (surf (ap_allGraphs s ! k) s)"
  have "known_format ?f" using assms(2) k by (auto simp: grid_view_def)
  then obtain n where n: "oget bars_fmt_to_ix ?f = Some n" "fmt_of_key (nat_str n) = ?f" using format_roundtrip by blast
  have "nth_format (dj_formats (getDashboard s)) k = ?f" using k n by (simp add: nth_format_def getDashboard_def)
  then show "map (\<lambda>k. (dj_graphs (getDashboard s) ! k, nth_format (dj_formats (getDashboard s)) k))
    [0..<length (dj_graphs (getDashboard s))] ! k = grid_view s ! k"
    using k by (simp add: grid_view_def getDashboard_def)
qed (simp add: getDashboard_def grid_view_def)

text \<open>C9: a dashboard saved from one page and opened on any other page shows the same graphs in the
  same order, each with the same counters and format, at the same size and with the same
  refresh mode, provided the formats are among the five the menu offers.\<close>

theorem dashboard_roundtrip:
  fixes s t :: "'z dash_app_scheme"
  assumes "app_inv s" "app_inv t" "\<forall>v\<in>set (grid_view s). known_format (snd v)"
  shows "grid_view (open_json w (getDashboard s) t) = grid_view s \<and>
    (ap_width (open_json w (getDashboard s) t), ap_height (open_json w (getDashboard s) t)) = (ap_width s, ap_height s) \<and>
    tl_isAutoRefresh (open_json w (getDashboard s) t) = tl_isAutoRefresh s \<and> app_inv (open_json w (getDashboard s) t)"
proof -
  have "\<forall>ps\<in>set (dj_graphs (getDashboard s)). good_series ps"
    using getSeries_good [OF assms(1)] by (auto simp: getDashboard_def)
  moreover have "dj_size (getDashboard s) = Some (ap_width s, ap_height s)" by (simp add: getDashboard_def)
  ultimately show ?thesis
    using open_json_effect [OF assms(2), of "getDashboard s" "ap_width s" "ap_height s" w] getDashboard_view [OF assms(1,3)]
    by (simp add: getDashboard_def)
qed

definition demo_dash :: dash_app where
  "demo_dash = slider_app.extend demo_slider \<lparr>da_userName = Some ''jon'', da_hash = [], da_itemsByName = [], da_list = [],
     da_current = None, da_marked = None, da_loads = [], da_saves = [], da_left = False\<rparr>"

lemma demo_dash_inv: "app_inv demo_dash"
  using demo_slider_inv by (simp add: demo_dash_def app_inv_def auto_ok_def slider_app.extend_def)

theorem dashboard_roundtrip_witness:
  "grid_view (open_json 130 (getDashboard demo_dash) demo_dash) = [([''cpu.idle''], ''customBars'')]"
proof -
  have v: "grid_view demo_dash = [([''cpu.idle''], ''customBars'')]" by code_simp
  moreover have "known_format ''customBars''" by code_simp
  ultimately show ?thesis using dashboard_roundtrip [OF demo_dash_inv demo_dash_inv, of 130] by simp
qed

section \<open>Departures from the intent\<close>

text \<open>Whether the item of the size menu is restored depends on the time slider, not on the size:
  a dashboard whose slider is in manual mode loses the chosen item.\<close>

theorem open_size_drops_menu_item:
  assumes "dj_size d = Some (w, h)" "dj_sizeDropdown d = Some j"
  shows "ap_sizeDropdown (open_size d s) = (if dj_timeSlider d = SManual then None else Some (dropdown_pick j))"
  using assms by (simp add: open_size_def graph_size_def setGraphSize_def repaintAll_def)

theorem open_size_drops_menu_item_witness:
  "ap_sizeDropdown (open_size ((getDashboard demo_dash)\<lparr>dj_timeSlider := SManual, dj_sizeDropdown := Some 2\<rparr>) demo_dash) = None"
  using open_size_drops_menu_item [of "(getDashboard demo_dash)\<lparr>dj_timeSlider := SManual, dj_sizeDropdown := Some 2\<rparr>"
      "ap_width demo_dash" "ap_height demo_dash" 2 demo_dash]
  by (simp add: getDashboard_def)

text \<open>The table of dashboard names is never pruned: after a dashboard was deleted and the list was
  loaded again, whatever the server answers, saving under its name still asks whether to
  overwrite it.\<close>

theorem deleted_name_stays_known:
  assumes "oget (da_itemsByName s) n \<noteq> None" "da_userName s = Some u" "u \<noteq> []" "proper_name n"
    "t = snd (on_userDashboards ctx json (snd (save_callback (Deleted n) s)))"
  shows "da_list (snd (save_callback (Deleted n) s)) = [] \<and> da_saves (save_dashboard_named n t) = da_saves t \<and>
    (\<exists>i m opts. ui_prompt (save_dashboard_named n t) = Some (i, Choice m opts))"
proof -
  let ?s1 = "snd (save_callback (Deleted n) s)"
  have s1: "da_itemsByName ?s1 = da_itemsByName s" "da_userName ?s1 = Some u" "da_list ?s1 = []"
    using assms(2,3) by (simp_all add: save_callback_def list_reload_def loadSettings_def)
  have items: "oget (da_itemsByName (fold (list_item ctx) ks x)) n \<noteq> None \<and> da_userName (fold (list_item ctx) ks x) = da_userName x"
    if "oget (da_itemsByName x) n \<noteq> None" for ks and x :: "'a dash_app_scheme"
    using that
  proof (induction ks arbitrary: x)
    case (Cons k ks)
    have "oget (da_itemsByName (list_item ctx k x)) n \<noteq> None" "da_userName (list_item ctx k x) = da_userName x"
      using Cons.prems by (auto simp: list_item_def obj_simps)
    then show ?case using Cons.IH by simp
  qed simp
  have t: "oget (da_itemsByName t) n \<noteq> None" "da_userName t = Some u"
    using items [of ?s1 "okeys json"] s1 assms(1,5)
    by (auto simp: on_userDashboards_def updateCurrentDashboard_def loadSettings_def Let_def split: option.splits)
  then have "save_dashboard_named n t = snd (choiceDialog (''Dashboard named '' @ [CHR 0x27] @ n @ [CHR 0x27] @ '' already exists. Overwrite it?'')
                        [(''save'', ''Save''), (''no'', ''Cancel'')] t)"
    using assms(3,4) by (auto simp: save_dashboard_named_def otruthy_def)
  then show ?thesis using s1(3) by (simp add: choiceDialog_def open_prompt_def)
qed

theorem deleted_name_stays_known_witness:
  "\<exists>i m opts. ui_prompt (save_dashboard_named ''mine'' (snd (on_userDashboards (Some ''jon'') []
     (snd (save_callback (Deleted ''mine'') (demo_dash\<lparr>da_itemsByName := [(''mine'', ())]\<rparr>)))))) = Some (i, Choice m opts)"
proof -
  have "da_userName demo_dash = Some ''jon''" "proper_name ''mine''" by code_simp+
  then show ?thesis
    using deleted_name_stays_known [of "demo_dash\<lparr>da_itemsByName := [(''mine'', ())]\<rparr>" "''mine''" "''jon''" _ "Some ''jon''" "[]"]
    by (simp add: oget_def)
qed

end
