(* ===== verification/Hash_State.thy ===== *)
theory Hash_State
  imports Dashboard_Props
begin

text \<open>
  The state of the page in its address (src/files/graph.js): \<open>packup_state_as_hash\<close> writes the
  graphs, their formats and the time range into the fragment, \<open>load_hash\<close> and \<open>load_state\<close>
  read them back, and \<open>gotohash\<close> dispatches. \<open>escape\<close> and \<open>unescape\<close> are the functions of
  the language's standard library on Latin-1 text; an escape of a character beyond Latin-1,
  which \<open>escape\<close> never writes for such text, is left as it is.
\<close>

section \<open>escape and unescape\<close>

definition unreserved :: "char \<Rightarrow> bool" where
  "unreserved c \<longleftrightarrow> (CHR ''a'' \<le> c \<and> c \<le> CHR ''z'') \<or> (CHR ''A'' \<le> c \<and> c \<le> CHR ''Z'') \<or> is_digit c \<or>
     c \<in> {CHR ''@'', CHR ''*'', CHR ''_'', CHR ''+'', CHR ''-'', CHR ''.'', CHR ''/''}"

definition hex_chr :: "nat \<Rightarrow> char" where
  "hex_chr n = (if n < 10 then char_of (48 + n) else char_of (55 + n))"

definition escape_char :: "char \<Rightarrow> string" where
  "escape_char c = (if unreserved c then [c] else [CHR ''%'', hex_chr (of_char c div 16), hex_chr (of_char c mod 16)])"

definition escape :: "string \<Rightarrow> string" where
  "escape str = concat (map escape_char str)"

text \<open>The character that the text after a percent sign stands for, with the length of that text:
  \<open>uXXXX\<close> or \<open>XX\<close>.\<close>

definition escape_seq :: "string \<Rightarrow> (char \<times> nat) option" where
  "escape_seq str =
     (let hs = map hex_val (take 4 (drop 1 str)); h2 = map hex_val (take 2 str)
      in if take 1 str = ''u'' \<and> length hs = 4 \<and> list_all (\<lambda>h. h \<noteq> None) hs
         then (if the (hs ! 0) = 0 \<and> the (hs ! 1) = 0 then Some (char_of (16 * the (hs ! 2) + the (hs ! 3)), 5) else None)
         else if length h2 = 2 \<and> list_all (\<lambda>h. h \<noteq> None) h2
         then Some (char_of (16 * the (h2 ! 0) + the (h2 ! 1)), 2)
         else None)"

function unescape :: "string \<Rightarrow> string" where
  "unescape [] = []"
| "unescape (c # rest) =
     (if c = CHR ''%''
      then (case escape_seq rest of Some (d, n) \<Rightarrow> d # unescape (drop n rest) | None \<Rightarrow> c # unescape rest)
      else c # unescape rest)"
  by pat_completeness auto

termination
  by (relation "measure length") auto

section \<open>Writing\<close>

text \<open>\<open>Math.floor(date.getTime() / 1000)\<close> as text.\<close>

definition secs_text :: "js_date \<Rightarrow> string" where
  "secs_text d = (case d of None \<Rightarrow> ''NaN'' | Some t \<Rightarrow> int_str (t div 1000))"

definition graph_entry :: "dash_json \<Rightarrow> nat \<Rightarrow> string" where
  "graph_entry d k = nat_str k @ '','' @ ix_text (the (dj_formats d) ! k)"

definition state_obj :: "dash_json \<Rightarrow> string jsobj" where
  "state_obj d =
     oset ''graphs'' (join_str '';'' (map (graph_entry d) [0..<length (dj_graphs d)]))
       (fold (\<lambda>k st. oset (nat_str k) (join_str '';'' (dj_graphs d ! k)) st) [0..<length (dj_graphs d)] [])"

definition query_pair :: "string \<Rightarrow> string \<Rightarrow> string" where
  "query_pair k v = escape k @ ''='' @ escape v @ ''&''"

definition state_text :: "'z dash_app_scheme \<Rightarrow> string" where
  "state_text s =
     (let st = state_obj (getDashboard s)
      in concat (map (\<lambda>k. query_pair k (the (oget st k))) (okeys st)) @
         ''from='' @ escape (secs_text (tl_curStart s)) @ ''&'' @
         ''to='' @ escape (secs_text (tl_curStop s)) @ ''&'' @ ''state='')"

definition packup_state_as_hash :: "'z dash_app_scheme \<Rightarrow> 'z dash_app_scheme" where
  "packup_state_as_hash s = s\<lparr>da_hash := ''#?'' @ state_text s\<rparr>"

section \<open>Reading\<close>

text \<open>One entry of the list of graphs; the graph is made before its counters are looked up, and a
  missing list of counters throws.\<close>

fun load_graphs :: "string jsobj \<Rightarrow> string list \<Rightarrow> 'z app_scheme \<Rightarrow> unit outcome \<times> 'z app_scheme" where
  "load_graphs st [] s = (Ok (), s)"
| "load_graphs st (g # gs) s =
     (let vals = split_chr (CHR '','') g;
          fmt = fmt_of_key (case vals of _ # f # _ \<Rightarrow> f | _ \<Rightarrow> ''undefined'')
      in case oget st (hd vals) of
           None \<Rightarrow> (Throw (TypeError ''split of undefined''), add_graph fmt [] s)
         | Some txt \<Rightarrow> load_graphs st gs (add_graph fmt (split_chr (CHR '';'') txt) s))"

definition state_date :: "string jsobj \<Rightarrow> string \<Rightarrow> js_date" where
  "state_date st k =
     (case oget st k of
        None \<Rightarrow> None
      | Some txt \<Rightarrow> (case parse_int txt of None \<Rightarrow> None | Some n \<Rightarrow> new_Date (Some (n * 1000))))"

definition load_state :: "string jsobj \<Rightarrow> nat \<Rightarrow> 'z app_scheme \<Rightarrow> unit outcome \<times> 'z app_scheme" where
  "load_state st cb s =
     (case oget st ''graphs'' of
        None \<Rightarrow> (Throw (TypeError ''split of undefined''), clear s)
      | Some graphs \<Rightarrow>
          (case load_graphs st (split_chr (CHR '';'') graphs) (clear s) of
             (Throw e, s1) \<Rightarrow> (Throw e, s1)
           | (Ok _, s1) \<Rightarrow> end_progress cb (resetDateRange (state_date st ''from'') (state_date st ''to'') s1)))"

datatype hash_func = NoFunc | FuncDashboard | FuncState

definition hash_arg :: "string \<Rightarrow> hash_func \<times> string jsobj \<Rightarrow> hash_func \<times> string jsobj" where
  "hash_arg kv fa =
     (let p = split_lim (CHR ''='') 2 kv;
          key = hd p;
          func = (if key = ''dashboard'' then FuncDashboard else fst fa)
      in (if key = ''state'' then FuncState else func,
          oset key (unescape (case p of _ # v # _ \<Rightarrow> v | _ \<Rightarrow> ''undefined'')) (snd fa)))"

definition hash_args :: "string \<Rightarrow> hash_func \<times> string jsobj" where
  "hash_args hash = fold hash_arg (split_chr (CHR ''&'') hash) (NoFunc, [])"

definition hash_contexts :: "'z dash_app_scheme \<Rightarrow> string list" where
  "hash_contexts s = ''global'' # (case da_userName s of None \<Rightarrow> [] | Some u \<Rightarrow> if u = [] then [] else [u])"

definition load_hash :: "string \<Rightarrow> 'z dash_app_scheme \<Rightarrow> 'z dash_app_scheme" where
  "load_hash hash s =
     guarded ''_load_hash''
       (\<lambda>s. case hash_args hash of
              (NoFunc, args) \<Rightarrow> (Ok (), s)
            | (FuncDashboard, args) \<Rightarrow>
                (case begin_progress s of (h, s1) \<Rightarrow> load_dashboard (the (oget args ''dashboard'')) (hash_contexts s) h s1)
            | (FuncState, args) \<Rightarrow> (case begin_progress s of (h, s1) \<Rightarrow> load_state args h s1)) s"

definition gotohash :: "'z dash_app_scheme \<Rightarrow> 'z dash_app_scheme" where
  "gotohash s =
     repaintAll (if take 2 (da_hash s) = ''#?'' then load_hash (drop 2 (da_hash s)) s else s)"

section \<open>escape is inverted by unescape\<close>

lemma hex_val_hex_chr: "n < 16 \<Longrightarrow> hex_val (hex_chr n) = Some n"
proof -
  have "\<forall>n\<in>set [0..<16]. hex_val (hex_chr n) = Some n" by code_simp
  then show "n < 16 \<Longrightarrow> hex_val (hex_chr n) = Some n" by auto
qed

lemma unreserved_not_percent [simp]: "\<not> unreserved CHR ''%''"
  by code_simp

lemma hex_chr_not_u: "n < 16 \<Longrightarrow> hex_chr n \<noteq> CHR ''u''"
proof -
  have "\<forall>n\<in>set [0..<16]. hex_chr n \<noteq> CHR ''u''" by code_simp
  then show "n < 16 \<Longrightarrow> hex_chr n \<noteq> CHR ''u''" by auto
qed

lemma escape_seq_hex:
  assumes "x < 16" "y < 16"
  shows "escape_seq (hex_chr x # hex_chr y # rest) = Some (char_of (16 * x + y), 2)"
  using assms by (simp add: escape_seq_def hex_val_hex_chr hex_chr_not_u)

lemma unescape_escape_char: "unescape (escape_char c @ rest) = c # unescape rest"
proof (cases "unreserved c")
  case True
  then have "c \<noteq> CHR ''%''" by auto
  then show ?thesis using True by (simp add: escape_char_def)
next
  case False
  have "of_char c mod 256 < (256 :: nat)" by (rule mod_less_divisor) simp
  then have "of_char c < (256 :: nat)" by simp
  then have "of_char c div 16 < (16 :: nat)" by (simp add: div_less_iff_less_mult)
  then have "unescape (escape_char c @ rest) = char_of (16 * (of_char c div 16) + of_char c mod 16 :: nat) # unescape rest"
    using False by (simp add: escape_char_def escape_seq_hex)
  then show ?thesis by simp
qed

lemma unescape_escape: "unescape (escape str) = str"
  by (induction str) (simp_all add: escape_def unescape_escape_char)

section \<open>The written text splits back\<close>

definition plain :: "char \<Rightarrow> bool" where
  "plain c \<longleftrightarrow> unreserved c \<or> c = CHR ''%''"

lemma hex_chr_plain: "n < 16 \<Longrightarrow> unreserved (hex_chr n)"
proof -
  have "\<forall>n\<in>set [0..<16]. unreserved (hex_chr n)" by code_simp
  then show "n < 16 \<Longrightarrow> unreserved (hex_chr n)" by auto
qed

lemma of_char_div_16: "of_char c div 16 < (16 :: nat)"
proof -
  have "of_char c mod 256 < (256 :: nat)" by (rule mod_less_divisor) simp
  then have "of_char c < (256 :: nat)" by simp
  then show ?thesis by (simp add: div_less_iff_less_mult)
qed

lemma escape_plain: "c \<in> set (escape str) \<Longrightarrow> plain c"
  by (auto simp: escape_def escape_char_def plain_def hex_chr_plain of_char_div_16 split: if_splits)

lemma plain_not: "plain c \<Longrightarrow> c \<noteq> CHR ''&'' \<and> c \<noteq> CHR ''=''"
proof -
  have "\<not> plain CHR ''&''" "\<not> plain CHR ''=''" by code_simp+
  then show "plain c \<Longrightarrow> c \<noteq> CHR ''&'' \<and> c \<noteq> CHR ''=''" by auto
qed

lemma escape_sep: "CHR ''&'' \<notin> set (escape str)" "CHR ''='' \<notin> set (escape str)"
  using escape_plain plain_not by blast+

lemma escape_unreserved: "list_all unreserved str \<Longrightarrow> escape str = str"
  by (induction str) (simp_all add: escape_def escape_char_def)

lemma nat_str_unreserved: "list_all unreserved (nat_str n)"
  using nat_str_digits by (simp add: list_all_iff unreserved_def)

lemma nat_str_inj [simp]: "nat_str a = nat_str b \<longleftrightarrow> a = b"
  by (metis digits_val_nat_str)

lemma nat_str_no_sep: "CHR '';'' \<notin> set (nat_str n)" "CHR '','' \<notin> set (nat_str n)"
  using nat_str_digits is_digit_neq by blast+

lemma join_amp: "concat (map (\<lambda>x. f x @ ''&'') xs) @ y = join_str ''&'' (map f xs @ [y])"
proof (induction xs)
  case (Cons x xs)
  then show ?case by (cases "map f xs @ [y]") auto
qed simp

text \<open>The keys and values of the fragment, in order.\<close>

definition pair_text :: "string \<times> string \<Rightarrow> string" where
  "pair_text p = escape (fst p) @ ''='' @ escape (snd p)"

definition state_pairs :: "'z dash_app_scheme \<Rightarrow> (string \<times> string) list" where
  "state_pairs s =
     (let st = state_obj (getDashboard s)
      in map (\<lambda>k. (k, the (oget st k))) (okeys st) @
         [(''from'', secs_text (tl_curStart s)), (''to'', secs_text (tl_curStop s)), (''state'', [])])"

lemma escape_words: "escape ''from'' = ''from''" "escape ''to'' = ''to''" "escape ''state'' = ''state''" "escape [] = []"
  by code_simp+

lemma state_text_join: "state_text s = join_str ''&'' (map pair_text (state_pairs s))"
proof -
  let ?st = "state_obj (getDashboard s)"
  let ?ps = "map (\<lambda>k. (k, the (oget ?st k))) (okeys ?st) @ [(''from'', secs_text (tl_curStart s)), (''to'', secs_text (tl_curStop s))]"
  have "state_text s = concat (map (\<lambda>p. pair_text p @ ''&'') ?ps) @ pair_text (''state'', [])"
    by (simp add: state_text_def query_pair_def pair_text_def escape_words Let_def comp_def)
  then show ?thesis by (simp only: join_amp) (simp add: state_pairs_def Let_def)
qed

lemma split_state_text: "split_chr (CHR ''&'') (state_text s) = map pair_text (state_pairs s)"
  unfolding state_text_join
proof (rule split_join)
  show "map pair_text (state_pairs s) \<noteq> []" by (simp add: state_pairs_def Let_def)
  show "\<forall>p\<in>set (map pair_text (state_pairs s)). CHR ''&'' \<notin> set p"
    using escape_sep by (auto simp: pair_text_def)
qed

lemma hash_arg_pair:
  assumes "list_all unreserved k"
  shows "hash_arg (pair_text (k, v)) (fn, args) =
    (if k = ''state'' then FuncState else if k = ''dashboard'' then FuncDashboard else fn, oset k v args)"
proof -
  have "split_lim (CHR ''='') 2 (pair_text (k, v)) = [escape k, escape v]"
    using split_join [of "[escape k, escape v]" "CHR ''=''"] escape_sep by (simp add: split_lim_def pair_text_def)
  then show ?thesis using assms by (auto simp: hash_arg_def escape_unreserved unescape_escape)
qed

lemma hash_args_fold:
  assumes "\<forall>p\<in>set ps. list_all unreserved (fst p) \<and> fst p \<noteq> ''dashboard'' \<and> fst p \<noteq> ''state''"
  shows "fold hash_arg (map pair_text ps) (fn, args) = (fn, fold (\<lambda>(k, v). oset k v) ps args)"
  using assms
proof (induction ps arbitrary: args)
  case (Cons p ps)
  obtain k v where p: "p = (k, v)" by (cases p)
  then have "hash_arg (pair_text (k, v)) (fn, args) = (fn, oset k v args)" using Cons.prems by (simp add: hash_arg_pair)
  then show ?case using Cons.IH Cons.prems p by simp
qed simp

section \<open>The object behind it\<close>

definition graph_keys :: "dash_json \<Rightarrow> (string \<times> string) list" where
  "graph_keys d = map (\<lambda>k. (nat_str k, join_str '';'' (dj_graphs d ! k))) [0..<length (dj_graphs d)]"

lemma state_obj_eq:
  "state_obj d = oset ''graphs'' (join_str '';'' (map (graph_entry d) [0..<length (dj_graphs d)]))
     (fold (\<lambda>(k, v). oset k v) (graph_keys d) [])"
  by (simp add: state_obj_def graph_keys_def fold_map comp_def)

lemma nat_str_not_word: "nat_str n \<noteq> ''graphs''" "nat_str n \<noteq> ''from''" "nat_str n \<noteq> ''to''" "nat_str n \<noteq> ''state''"
  "nat_str n \<noteq> ''dashboard''"
proof -
  have "nat_str n \<noteq> w" if "\<exists>c\<in>set w. \<not> is_digit c" for w using that nat_str_digits [of _ n] by auto
  moreover have "\<exists>c\<in>set ''graphs''. \<not> is_digit c" "\<exists>c\<in>set ''from''. \<not> is_digit c" "\<exists>c\<in>set ''to''. \<not> is_digit c"
    "\<exists>c\<in>set ''state''. \<not> is_digit c" "\<exists>c\<in>set ''dashboard''. \<not> is_digit c"
    by code_simp+
  ultimately show "nat_str n \<noteq> ''graphs''" "nat_str n \<noteq> ''from''" "nat_str n \<noteq> ''to''" "nat_str n \<noteq> ''state''"
    "nat_str n \<noteq> ''dashboard''"
    by blast+
qed

lemma graph_keys_get:
  assumes "k < length (dj_graphs d)"
  shows "oget (fold (\<lambda>(k, v). oset k v) (graph_keys d) []) (nat_str k) = Some (join_str '';'' (dj_graphs d ! k))"
proof -
  have "distinct (map fst (rev (graph_keys d)))" by (simp add: graph_keys_def comp_def distinct_map inj_on_def rev_map [symmetric])
  moreover have "(nat_str k, join_str '';'' (dj_graphs d ! k)) \<in> set (rev (graph_keys d))"
    using assms by (auto simp: graph_keys_def)
  ultimately have "map_of (rev (graph_keys d)) (nat_str k) = Some (join_str '';'' (dj_graphs d ! k))"
    by (simp only: map_of_eq_Some_iff)
  then show ?thesis by (simp add: sobj.get_fold_put)
qed

lemma state_obj_get:
  "oget (state_obj d) ''graphs'' = Some (join_str '';'' (map (graph_entry d) [0..<length (dj_graphs d)]))"
  "k < length (dj_graphs d) \<Longrightarrow> oget (state_obj d) (nat_str k) = Some (join_str '';'' (dj_graphs d ! k))"
  using graph_keys_get [of k d] nat_str_not_word(1) [of k] by (simp_all add: state_obj_eq oget_oset)

lemma state_obj_keys: "set (okeys (state_obj d)) = insert ''graphs'' (nat_str ` {0..<length (dj_graphs d)})"
  by (simp add: state_obj_eq okeys_oset sobj.enum_fold_put graph_keys_def image_image)

lemma state_obj_wf: "wf_obj (state_obj d)"
  unfolding state_obj_eq by (intro sobj.inv_put sobj.inv_fold_put) simp

definition state_args :: "'z dash_app_scheme \<Rightarrow> string jsobj" where
  "state_args s = fold (\<lambda>(k, v). oset k v) (state_pairs s) []"

lemma state_args_eq: "hash_args (state_text s) = (FuncState, state_args s)"
proof -
  let ?st = "state_obj (getDashboard s)"
  let ?ps = "map (\<lambda>k. (k, the (oget ?st k))) (okeys ?st) @ [(''from'', secs_text (tl_curStart s)), (''to'', secs_text (tl_curStop s))]"
  have w: "list_all unreserved ''graphs''" "list_all unreserved ''from''" "list_all unreserved ''to''" "list_all unreserved ''state''"
    by code_simp+
  have "\<forall>p\<in>set ?ps. list_all unreserved (fst p) \<and> fst p \<noteq> ''dashboard'' \<and> fst p \<noteq> ''state''"
    using w state_obj_keys [of "getDashboard s"] nat_str_unreserved nat_str_not_word by auto
  then have "fold hash_arg (map pair_text ?ps) (NoFunc, []) = (NoFunc, fold (\<lambda>(k, v). oset k v) ?ps [])"
    by (rule hash_args_fold)
  moreover have "state_pairs s = ?ps @ [(''state'', [])]" by (simp add: state_pairs_def Let_def)
  ultimately show ?thesis
    using hash_arg_pair [OF w(4)] by (simp add: hash_args_def split_state_text state_args_def del: fold_append map_append) simp
qed

lemma state_args_get:
  "oget (state_args s) ''graphs'' = oget (state_obj (getDashboard s)) ''graphs''"
  "k < length (ap_allGraphs s) \<Longrightarrow> oget (state_args s) (nat_str k) = oget (state_obj (getDashboard s)) (nat_str k)"
  "oget (state_args s) ''from'' = Some (secs_text (tl_curStart s))"
  "oget (state_args s) ''to'' = Some (secs_text (tl_curStop s))"
proof -
  let ?st = "state_obj (getDashboard s)"
  have keys: "''from'' \<notin> set (okeys ?st)" "''to'' \<notin> set (okeys ?st)" "''state'' \<notin> set (okeys ?st)"
  proof -
    have w: "w \<notin> nat_str ` A" if "\<And>n. nat_str n \<noteq> w" for w A using that by blast
    show "''from'' \<notin> set (okeys ?st)" "''to'' \<notin> set (okeys ?st)" "''state'' \<notin> set (okeys ?st)"
      by (simp_all add: state_obj_keys w nat_str_not_word)
  qed
  have d: "distinct (map fst (state_pairs s))"
    using keys distinct_okeys [OF state_obj_wf, of "getDashboard s"] by (simp add: state_pairs_def Let_def comp_def)
  have get: "oget (state_args s) k = Some v" if "(k, v) \<in> set (state_pairs s)" for k v
  proof -
    have "map_of (rev (state_pairs s)) k = Some v"
      using that d by (simp add: map_of_eq_Some_iff rev_map [symmetric])
    then show ?thesis by (simp add: state_args_def sobj.get_fold_put)
  qed
  have st: "oget (state_args s) k = oget ?st k" if "k \<in> set (okeys ?st)" for k
  proof -
    obtain v where v: "oget ?st k = Some v" using \<open>k \<in> set (okeys ?st)\<close> sobj.enum_iff [of k ?st] by auto
    then show ?thesis using get [of k v] that by (simp add: state_pairs_def Let_def image_iff)
  qed
  show "oget (state_args s) ''graphs'' = oget ?st ''graphs''" by (rule st) (simp add: state_obj_keys)
  show "k < length (ap_allGraphs s) \<Longrightarrow> oget (state_args s) (nat_str k) = oget ?st (nat_str k)"
    by (rule st) (simp add: state_obj_keys getDashboard_def)
  show "oget (state_args s) ''from'' = Some (secs_text (tl_curStart s))" "oget (state_args s) ''to'' = Some (secs_text (tl_curStop s))"
    by (rule get; simp add: state_pairs_def Let_def)+
qed

section \<open>Reading the graphs back\<close>

lemma split_series:
  assumes "ps \<noteq> []" "\<forall>p\<in>set ps. CHR '';'' \<notin> set p"
  shows "split_chr (CHR '';'') (join_str '';'' ps) = ps"
  using assms by (rule split_join)

lemma entry_parts:
  assumes "the (dj_formats d) ! k = Some n"
  shows "split_chr (CHR '','') (graph_entry d k) = [nat_str k, nat_str n]" "CHR '';'' \<notin> set (graph_entry d k)"
proof -
  show "split_chr (CHR '','') (graph_entry d k) = [nat_str k, nat_str n]"
    using split_join [of "[nat_str k, nat_str n]" "CHR '',''"] assms nat_str_no_sep by (simp add: graph_entry_def ix_text_def)
  show "CHR '';'' \<notin> set (graph_entry d k)"
    using assms nat_str_no_sep by (simp add: graph_entry_def ix_text_def)
qed

text \<open>Graphs that survive the address: at least one counter, no semicolon in a name.\<close>

definition addressable :: "string list \<times> string \<Rightarrow> bool" where
  "addressable v \<longleftrightarrow> fst v \<noteq> [] \<and> (\<forall>p\<in>set (fst v). CHR '';'' \<notin> set p) \<and> known_format (snd v)"

lemma load_graphs_fold:
  fixes s :: "'a app_scheme"
  assumes "\<And>k. k \<in> set ks \<Longrightarrow> oget st (nat_str k) = Some (join_str '';'' (ps k)) \<and> ps k \<noteq> [] \<and>
      (\<forall>p\<in>set (ps k). CHR '';'' \<notin> set p) \<and> split_chr (CHR '','') (e k) = [nat_str k, nat_str (n k)]"
  shows "load_graphs st (map e ks) s = (Ok (), fold (\<lambda>k s. add_graph (fmt_of_key (nat_str (n k))) (ps k) s) ks s)"
  using assms
proof (induction ks arbitrary: s)
  case (Cons k ks)
  have k: "split_chr (CHR '';'') (join_str '';'' (ps k)) = ps k" "oget st (nat_str k) = Some (join_str '';'' (ps k))"
    "split_chr (CHR '','') (e k) = [nat_str k, nat_str (n k)]"
    using Cons.prems [of k] split_series [of "ps k"] by simp_all
  have "load_graphs st (map e ks) u = (Ok (), fold (\<lambda>k s. add_graph (fmt_of_key (nat_str (n k))) (ps k) s) ks u)" for u :: "'a app_scheme"
    by (rule Cons.IH) (rule Cons.prems, simp)
  then show ?case using k by (simp add: Let_def)
qed simp

lemma load_graphs_state:
  fixes s :: "'z dash_app_scheme" and t :: "'y app_scheme"
  assumes "app_inv s" "ap_allGraphs s \<noteq> []" "\<forall>v\<in>set (grid_view s). addressable v" "app_inv t"
  shows "\<exists>graphs u. oget (state_args s) ''graphs'' = Some graphs \<and>
    load_graphs (state_args s) (split_chr (CHR '';'') graphs) t = (Ok (), u) \<and>
    grid_view u = grid_view t @ grid_view s \<and> app_inv u"
proof -
  let ?d = "getDashboard s" and ?n = "length (ap_allGraphs s)"
  let ?ps = "\<lambda>k. getSeries (ap_allGraphs s ! k) s" and ?f = "\<lambda>k. sf_format (surf (ap_allGraphs s ! k) s)"
  have a: "addressable (?ps k, ?f k)" if "k < ?n" for k using assms(3) that by (auto simp: grid_view_def)
  define nx where "nx k = the (oget bars_fmt_to_ix (?f k))" for k
  have nx: "the (dj_formats ?d) ! k = Some (nx k) \<and> fmt_of_key (nat_str (nx k)) = ?f k" if k: "k < ?n" for k
  proof -
    have "known_format (?f k)" using a [OF k] by (simp add: addressable_def)
    then obtain m where "oget bars_fmt_to_ix (?f k) = Some m" "fmt_of_key (nat_str m) = ?f k" using format_roundtrip by blast
    then show ?thesis using k by (simp add: nx_def getDashboard_def)
  qed
  have len: "length (dj_graphs ?d) = ?n" "\<And>k. k < ?n \<Longrightarrow> dj_graphs ?d ! k = ?ps k" by (simp_all add: getDashboard_def)
  let ?g = "join_str '';'' (map (graph_entry ?d) [0..<?n])"
  have g: "oget (state_args s) ''graphs'' = Some ?g" by (simp add: state_args_get state_obj_get len)
  have "split_chr (CHR '';'') ?g = map (graph_entry ?d) [0..<?n]"
    using assms(2) entry_parts(2) nx by (intro split_series) auto
  moreover have "load_graphs (state_args s) (map (graph_entry ?d) [0..<?n]) t =
     (Ok (), fold (\<lambda>k s. add_graph (fmt_of_key (nat_str (nx k))) (?ps k) s) [0..<?n] t)"
    using a nx entry_parts(1) len
    by (intro load_graphs_fold) (auto simp: addressable_def state_args_get state_obj_get)
  moreover have "\<forall>k\<in>set [0..<?n]. good_series (?ps k)" using getSeries_good [OF assms(1)] by simp
  note add_graphs_view [OF assms(4) this, of "\<lambda>k. fmt_of_key (nat_str (nx k))"]
  moreover have "map (\<lambda>k. (?ps k, fmt_of_key (nat_str (nx k)))) [0..<?n] = grid_view s"
    using nx by (intro nth_equalityI) (simp_all add: grid_view_def)
  ultimately show ?thesis using g by auto
qed

lemma state_date_back:
  assumes "tl_curStart s = Some a" "tl_curStop s = Some b" "\<bar>a\<bar> \<le> 8000000000000000" "\<bar>b\<bar> \<le> 8000000000000000"
  shows "state_date (state_args s) ''from'' = Some (a div 1000 * 1000)" "state_date (state_args s) ''to'' = Some (b div 1000 * 1000)"
proof -
  have bnd: "\<bar>x div 1000 * 1000\<bar> \<le> 8640000000000000" if "\<bar>x\<bar> \<le> 8000000000000000" for x :: int
  proof -
    have "x = x div 1000 * 1000 + x mod 1000" "0 \<le> x mod 1000" "x mod 1000 < 1000" by simp_all
    then show ?thesis using that by linarith
  qed
  show "state_date (state_args s) ''from'' = Some (a div 1000 * 1000)" "state_date (state_args s) ''to'' = Some (b div 1000 * 1000)"
    using assms bnd [of a] bnd [of b]
    by (simp_all add: state_date_def state_args_get secs_text_def parse_int_int_str new_Date_def)
qed

text \<open>The state a page is in after loading a fragment.\<close>

lemma load_hash_state:
  fixes s t :: "'z dash_app_scheme"
  assumes "app_inv s" "ap_allGraphs s \<noteq> []" "\<forall>v\<in>set (grid_view s). addressable v" "app_inv t"
  shows "\<exists>u h. app_inv u \<and> grid_view u = grid_view s \<and>
    (load_hash (state_text s) t = snd (end_progress h (resetDateRange (state_date (state_args s) ''from'') (state_date (state_args s) ''to'') u)) \<or>
     (\<exists>m. load_hash (state_text s) t =
        errorDialog m (snd (end_progress h (resetDateRange (state_date (state_args s) ''from'') (state_date (state_args s) ''to'') u)))))"
proof -
  obtain h t1 where b: "begin_progress t = (h, t1)" by fastforce
  have i1: "app_inv t1" using app_inv_timeline(5) [OF assms(4)] b by simp
  note c = clear_state [OF i1]
  obtain graphs u where u: "oget (state_args s) ''graphs'' = Some graphs"
    "load_graphs (state_args s) (split_chr (CHR '';'') graphs) (clear t1) = (Ok (), u)"
    "grid_view u = grid_view s" "app_inv u"
    using load_graphs_state [OF assms(1-3) c(1)] c(2) by (auto simp: grid_view_def)
  let ?F = "\<lambda>s0. case hash_args (state_text s) of
              (NoFunc, args) \<Rightarrow> (Ok (), s0)
            | (FuncDashboard, args) \<Rightarrow>
                (case begin_progress s0 of (h, s1) \<Rightarrow> load_dashboard (the (oget args ''dashboard'')) (hash_contexts s0) h s1)
            | (FuncState, args) \<Rightarrow> (case begin_progress s0 of (h, s1) \<Rightarrow> load_state args h s1)"
  have "?F t = end_progress h (resetDateRange (state_date (state_args s) ''from'') (state_date (state_args s) ''to'') u)"
    using u b by (simp add: state_args_eq load_state_def)
  then have "load_hash (state_text s) t = snd (end_progress h (resetDateRange (state_date (state_args s) ''from'') (state_date (state_args s) ''to'') u)) \<or>
     (\<exists>m. load_hash (state_text s) t =
        errorDialog m (snd (end_progress h (resetDateRange (state_date (state_args s) ''from'') (state_date (state_args s) ''to'') u))))"
    using guarded_cases [of "''_load_hash''" ?F t] unfolding load_hash_def by (simp only:)
  then show ?thesis using u(3,4) by (intro exI [of _ u] exI [of _ h] conjI)
qed



text \<open>The address written for a page without graphs cannot be loaded: the list of graphs is
  the empty text, which splits into one empty entry whose counters are missing, so loading
  it ends in an error box with one empty graph on the page.\<close>

theorem empty_page_address_fails:
  "ui_error (load_hash (drop 2 (da_hash (packup_state_as_hash (clear demo_dash)))) demo_dash) \<noteq> None \<and>
   grid_view (load_hash (drop 2 (da_hash (packup_state_as_hash (clear demo_dash)))) demo_dash) = [([], ''errorBars'')]"
  by code_simp

end
