(* ===== verification/Counter_Tree.thy ===== *)
theory Counter_Tree
  imports Util "HOL-Library.Sublist"
begin

text \<open>
  The tree of counters of src/files/graph.js: \<open>asCounterTree\<close> splits the dotted names into a
  tree and collapses the nodes that have a single child, \<open>formatTreeLevel\<close> makes the rows of
  one level, \<open>findNodeInCounterTree\<close> and \<open>getCounterName\<close> go from the rows back to nodes and
  counters, and \<open>render\<close> chooses the counters. The nodes are objects keyed by field; the walk
  over the children visits a snapshot of their keys, as the library's \<open>each\<close> does.
\<close>

section \<open>Data\<close>

datatype node = Node (n_text: string) (n_children: "(string \<times> node) list") (n_type: nat)

record counter =
  c_name :: string
  c_type :: nat
  c_leaf :: bool

text \<open>\<open>newNode\<close> with its default arguments: no children and type 2.\<close>

definition newNode :: "string \<Rightarrow> node" where
  "newNode txt = Node txt [] 2"

section \<open>Building the tree\<close>

text \<open>
  The walk along the fields of one name. A field that is no child but that every object
  inherits finds a function: the walk stops there with an error, or, when it is the last
  field, stores the type in the function and leaves the tree as it was.
\<close>

fun insert_fields :: "string list \<Rightarrow> nat \<Rightarrow> node \<Rightarrow> node outcome" where
  "insert_fields [] ty (Node t cs _) = Ok (Node t cs ty)"
| "insert_fields (f # fs) ty (Node t cs ty0) =
     (case oget cs f of
        Some c \<Rightarrow>
          (case insert_fields fs ty c of Throw e \<Rightarrow> Throw e | Ok c' \<Rightarrow> Ok (Node t (oset f c' cs) ty0))
      | None \<Rightarrow>
          (if inherited f then (if fs = [] then Ok (Node t cs ty0) else Throw (TypeError ''children of function''))
           else (case insert_fields fs ty (newNode f) of
                   Throw e \<Rightarrow> Throw e
                 | Ok c' \<Rightarrow> Ok (Node t (oset f c' cs) ty0))))"

fun insert_counters :: "counter list \<Rightarrow> node \<Rightarrow> node outcome" where
  "insert_counters [] n = Ok n"
| "insert_counters (c # cs) n =
     (case insert_fields (split_chr (CHR ''.'') (c_name c)) (c_type c) n of
        Throw e \<Rightarrow> Throw e
      | Ok n' \<Rightarrow> insert_counters cs n')"

section \<open>Collapsing\<close>

text \<open>\<open>maybeMoveUp\<close> for the child under a key, after the child itself was collapsed in place.\<close>

definition maybeMoveUp :: "string \<Rightarrow> node \<Rightarrow> node jsobj \<Rightarrow> node jsobj" where
  "maybeMoveUp key subtree tree =
     (let tree1 = oset key subtree tree
      in case n_children subtree of
           [(child_key, child)] \<Rightarrow>
             (let new_key = key @ ''.'' @ child_key
              in odel key (oset new_key (Node new_key (n_children child) (n_type child)) tree1))
         | _ \<Rightarrow> tree1)"

definition child_items :: "node jsobj \<Rightarrow> (string \<times> node) list" where
  "child_items cs = map (\<lambda>k. (k, the (oget cs k))) (okeys cs)"

lemma child_items_in: "p \<in> set (child_items cs) \<Longrightarrow> p \<in> set cs"
proof -
  assume "p \<in> set (child_items cs)"
  then obtain k where k: "k \<in> set (okeys cs)" "p = (k, the (oget cs k))" by (auto simp: child_items_def)
  then obtain n where "map_of cs k = Some n" by (auto simp: okeys_iff oget_def)
  then show ?thesis using k map_of_SomeD by (fastforce simp: oget_def)
qed

lemma child_size: "p \<in> set cs \<Longrightarrow> size (snd p) < size (Node t cs ty)"
proof -
  assume p: "p \<in> set cs"
  have "size (snd p) \<le> size_prod (\<lambda>_. 0) size p" by (cases p) simp
  then have "size (snd p) \<le> size_list (size_prod (\<lambda>_. 0) size) cs"
    using size_list_estimation' [OF p] by blast
  then show ?thesis by simp
qed

lemma child_item_size: "p \<in> set (child_items cs) \<Longrightarrow> size (snd p) < size (Node t cs ty)"
  by (rule child_size [OF child_items_in])

function collapse :: "node \<Rightarrow> node" where
  "collapse (Node t cs ty) = Node t (fold (\<lambda>p tree. maybeMoveUp (fst p) (collapse (snd p)) tree) (child_items cs) cs) ty"
  by pat_completeness auto

termination
  by (relation "measure size") (auto dest: child_item_size simp del: node.size)

definition asCounterTree :: "counter list \<Rightarrow> node outcome" where
  "asCounterTree counters =
     (case insert_counters counters (newNode ''#'') of Throw e \<Rightarrow> Throw e | Ok n \<Rightarrow> Ok (collapse n))"

section \<open>Rows and names\<close>

record row =
  r_text :: string
  r_branch :: bool
  r_class :: "string option"

definition icons :: "nat \<Rightarrow> string option" where
  "icons ty = (if ty = 0 then Some ''istatd-gauge'' else if ty = 1 then Some ''istatd-counter'' else None)"

text \<open>A leaf always has the attribute, even when its type has no icon.\<close>

definition formatTreeLevel :: "node \<Rightarrow> row list" where
  "formatTreeLevel tree =
     map (\<lambda>p. if n_children (snd p) \<noteq> []
             then \<lparr>r_text = fst p, r_branch = True, r_class = None\<rparr>
             else \<lparr>r_text = fst p, r_branch = False, r_class = icons (n_type (snd p))\<rparr>)
       (child_items (n_children tree))"

text \<open>The argument is the list of the rows' texts from the top level down.\<close>

fun findNodeInCounterTree :: "node \<Rightarrow> string list \<Rightarrow> node outcome" where
  "findNodeInCounterTree n [] = Ok n"
| "findNodeInCounterTree n (t # ts) =
     (case oget (n_children n) t of
        None \<Rightarrow> Throw (TypeError ''children of undefined'')
      | Some c \<Rightarrow> findNodeInCounterTree c ts)"

definition getCounterName :: "string list \<Rightarrow> string" where
  "getCounterName texts = join_str ''.'' texts"

section \<open>Choosing the counters\<close>

text \<open>The source of the regular expression that the pattern stands for.\<close>

definition pattern_source :: "string \<Rightarrow> string" where
  "pattern_source proto_pat =
     (if proto_pat = ''*'' then ''.*''
      else if CHR ''*'' \<notin> set proto_pat then ''.*'' @ proto_pat @ ''.*''
      else join_str ''.*'' (split_chr (CHR ''*'') proto_pat))"

text \<open>\<open>search\<close> says whether a regular expression, given by its source, matches somewhere in a text.\<close>

definition chosen_counters :: "(string \<Rightarrow> string \<Rightarrow> bool) \<Rightarrow> string \<Rightarrow> counter list \<Rightarrow> counter list" where
  "chosen_counters search proto_pat names =
     sort_key c_name (filter (\<lambda>c. c_leaf c \<and> search (pattern_source proto_pat) (c_name c)) names)"

definition render_tree :: "(string \<Rightarrow> string \<Rightarrow> bool) \<Rightarrow> string \<Rightarrow> counter list \<Rightarrow> node outcome" where
  "render_tree search proto_pat names = asCounterTree (chosen_counters search proto_pat names)"

section \<open>What the tree contains\<close>

text \<open>The counters below a node: the dotted rest of each name with its type.\<close>

function tails :: "node \<Rightarrow> (string \<times> nat) list" where
  "tails (Node t cs ty) =
     (if cs = [] then [([], ty)]
      else concat (map (\<lambda>p. map (\<lambda>q. (CHR ''.'' # fst p @ fst q, snd q)) (tails (snd p))) cs))"
  by pat_completeness auto

termination
  by (relation "measure size") (auto dest!: child_size simp del: node.size)

definition tree_names :: "node \<Rightarrow> (string \<times> nat) list" where
  "tree_names n = (if n_children n = [] then [] else map (\<lambda>q. (drop 1 (fst q), snd q)) (tails n))"

text \<open>Every node below has no child or several.\<close>

function branching :: "node \<Rightarrow> bool" where
  "branching (Node t cs ty) \<longleftrightarrow> (\<forall>p\<in>set cs. length (n_children (snd p)) \<noteq> 1 \<and> branching (snd p))"
  by pat_completeness auto

termination
  by (relation "measure size") (auto dest!: child_size simp del: node.size)

text \<open>The shape before collapsing: the keys are fields, each once.\<close>

function field_tree :: "node \<Rightarrow> bool" where
  "field_tree (Node t cs ty) \<longleftrightarrow> wf_obj cs \<and> (\<forall>p\<in>set cs. CHR ''.'' \<notin> set (fst p) \<and> field_tree (snd p))"
  by pat_completeness auto

termination
  by (relation "measure size") (auto dest!: child_size simp del: node.size)

section \<open>Collapsing keeps the counters\<close>

definition entry :: "string \<Rightarrow> node \<Rightarrow> (string \<times> nat) set" where
  "entry k n = (\<lambda>q. (CHR ''.'' # k @ fst q, snd q)) ` set (tails n)"

definition slot :: "node jsobj \<Rightarrow> string \<Rightarrow> (string \<times> nat) set" where
  "slot cs k = (case oget cs k of None \<Rightarrow> {} | Some n \<Rightarrow> entry k n)"

definition contents :: "node jsobj \<Rightarrow> (string \<times> nat) set" where
  "contents cs = (\<Union>k. slot cs k)"

lemma wf_obj_set: "wf_obj cs \<Longrightarrow> (k, n) \<in> set cs \<longleftrightarrow> oget cs k = Some n"
  by (simp add: wf_obj_def oget_def map_of_eq_Some_iff)

lemma slot_iff: "x \<in> slot cs k \<longleftrightarrow> (\<exists>n. oget cs k = Some n \<and> x \<in> entry k n)"
  by (cases "oget cs k") (simp_all add: slot_def)

lemma contents_UN:
  assumes "wf_obj cs"
  shows "contents cs = (\<Union>p\<in>set cs. entry (fst p) (snd p))"
proof (rule set_eqI)
  fix x
  have "x \<in> contents cs \<longleftrightarrow> (\<exists>k n. (k, n) \<in> set cs \<and> x \<in> entry k n)"
    by (simp add: contents_def slot_iff wf_obj_set [OF assms])
  also have "\<dots> \<longleftrightarrow> x \<in> (\<Union>p\<in>set cs. entry (fst p) (snd p))" by force
  finally show "x \<in> contents cs \<longleftrightarrow> x \<in> (\<Union>p\<in>set cs. entry (fst p) (snd p))" .
qed

lemma tails_contents: "wf_obj cs \<Longrightarrow> cs \<noteq> [] \<Longrightarrow> set (tails (Node t cs ty)) = contents cs"
  by (simp add: contents_UN entry_def)

lemma tails_text: "tails (Node t (n_children c) (n_type c)) = tails c"
  by (cases c) simp

definition base_key :: "string \<Rightarrow> string" where
  "base_key k = takeWhile (\<lambda>c. c \<noteq> CHR ''.'') k"

lemma base_key_append: "CHR ''.'' \<notin> set k \<Longrightarrow> base_key (k @ ''.'' @ r) = k"
  unfolding base_key_def by (subst takeWhile_append2) auto

text \<open>One call of \<open>maybeMoveUp\<close> on a child that has the same counters as the one in the tree.\<close>

lemma maybeMoveUp_get:
  "oget (maybeMoveUp k c tree) x =
     (case n_children c of
        [(ck, d)] \<Rightarrow>
          (if x = k then None
           else if x = k @ ''.'' @ ck then Some (Node (k @ ''.'' @ ck) (n_children d) (n_type d)) else oget tree x)
      | _ \<Rightarrow> if x = k then Some c else oget tree x)"
  by (auto simp: maybeMoveUp_def Let_def obj_simps split: list.splits prod.splits)

lemma maybeMoveUp_wf: "wf_obj tree \<Longrightarrow> wf_obj (maybeMoveUp k c tree)"
  by (auto simp: maybeMoveUp_def Let_def sobj.inv_put sobj.inv_del split: list.splits prod.splits)

lemma UN_move:
  assumes "F' a = {}" "F' b = F a" "F b = {}" "\<And>z. z \<noteq> a \<Longrightarrow> z \<noteq> b \<Longrightarrow> F' z = F z"
  shows "(\<Union>z. F' z) = (\<Union>z. F z)"
proof
  show "(\<Union>z. F' z) \<subseteq> (\<Union>z. F z)" using assms by (metis SUP_least SUP_upper UNIV_I bot.extremum)
  show "(\<Union>z. F z) \<subseteq> (\<Union>z. F' z)" using assms by (metis SUP_least SUP_upper UNIV_I bot.extremum)
qed

lemma entry_moved:
  assumes "set (tails c) = set (tails c')" "n_children c' = [(ck, d)]"
  shows "entry k c = entry (k @ ''.'' @ ck) (Node t (n_children d) (n_type d))"
proof -
  have "set (tails c') = (\<lambda>q. (CHR ''.'' # ck @ fst q, snd q)) ` set (tails d)" using assms(2) by (cases c') simp
  then show ?thesis using assms(1) by (simp add: entry_def image_image tails_text del: tails.simps)
qed

lemma maybeMoveUp_contents:
  assumes "oget tree k = Some c" "set (tails c') = set (tails c)"
    "\<And>ck. oget tree (k @ ''.'' @ ck) = None"
  shows "contents (maybeMoveUp k c' tree) = contents tree"
proof (cases "\<exists>ck d. n_children c' = [(ck, d)]")
  case True
  then obtain ck d where c': "n_children c' = [(ck, d)]" by blast
  show ?thesis
    unfolding contents_def
  proof (rule UN_move [where a = k and b = "k @ ''.'' @ ck"])
    show "slot (maybeMoveUp k c' tree) (k @ ''.'' @ ck) = slot tree k"
      using assms(1) entry_moved [OF assms(2) [symmetric] c'] by (simp add: slot_def maybeMoveUp_get c')
  qed (use assms(3) in \<open>simp_all add: slot_def maybeMoveUp_get c'\<close>)
next
  case False
  then have "oget (maybeMoveUp k c' tree) x = (if x = k then Some c' else oget tree x)" for x
    by (auto simp: maybeMoveUp_get split: list.splits prod.splits)
  then have "slot (maybeMoveUp k c' tree) x = slot tree x" for x
    using assms(1,2) by (simp add: slot_def entry_def)
  then show ?thesis by (simp add: contents_def)
qed

text \<open>
  The loop of \<open>collapse\<close>: the items still to visit are in the tree as they were, their keys
  are fields, and no key with a dot starts with one of them.
\<close>

definition todo_ok :: "(string \<times> node) list \<Rightarrow> node jsobj \<Rightarrow> bool" where
  "todo_ok ps tree \<longleftrightarrow> wf_obj tree \<and> tree \<noteq> [] \<and> distinct (map fst ps) \<and>
     (\<forall>p\<in>set ps. oget tree (fst p) = Some (snd p) \<and> CHR ''.'' \<notin> set (fst p)) \<and>
     (\<forall>k. oget tree k \<noteq> None \<longrightarrow> CHR ''.'' \<in> set k \<longrightarrow> base_key k \<notin> fst ` set ps)"

lemma todo_no_clash: "todo_ok (p # ps) tree \<Longrightarrow> oget tree (fst p @ ''.'' @ ck) = None"
proof (rule ccontr)
  assume t: "todo_ok (p # ps) tree" and "oget tree (fst p @ ''.'' @ ck) \<noteq> None"
  then have "base_key (fst p @ ''.'' @ ck) \<notin> fst ` set (p # ps)" by (simp add: todo_ok_def)
  moreover have "base_key (fst p @ ''.'' @ ck) = fst p" using t by (intro base_key_append) (simp add: todo_ok_def)
  ultimately show False by simp
qed

lemma nonempty_get: "oget tree k \<noteq> None \<Longrightarrow> tree \<noteq> []"
  by (auto simp: oget_def)

lemma todo_step:
  assumes "todo_ok (p # ps) tree"
  shows "todo_ok ps (maybeMoveUp (fst p) c tree)"
proof -
  let ?t = "maybeMoveUp (fst p) c tree"
  have dot: "CHR ''.'' \<notin> set (fst p)" using assms by (simp add: todo_ok_def)
  have other: "oget ?t k = oget tree k" if "k \<noteq> fst p" "CHR ''.'' \<notin> set k" for k
    using that by (auto simp: maybeMoveUp_get split: list.splits prod.splits)
  have "\<forall>q\<in>set ps. fst q \<noteq> fst p \<and> CHR ''.'' \<notin> set (fst q) \<and> oget tree (fst q) = Some (snd q)"
    using assms by (force simp: todo_ok_def)
  then have items: "\<forall>q\<in>set ps. oget ?t (fst q) = Some (snd q) \<and> CHR ''.'' \<notin> set (fst q)" using other by auto
  have "base_key k \<notin> fst ` set ps" if k: "oget ?t k \<noteq> None" "CHR ''.'' \<in> set k" for k
  proof (cases "oget tree k = None")
    case True
    then have "\<exists>ck. k = fst p @ ''.'' @ ck"
      using k dot by (auto simp: maybeMoveUp_get split: list.splits prod.splits if_splits)
    then have "base_key k = fst p" using dot base_key_append by blast
    then show ?thesis using assms by (auto simp: todo_ok_def)
  next
    case False
    then show ?thesis using assms k(2) by (simp add: todo_ok_def)
  qed
  moreover have "?t \<noteq> []"
  proof -
    have "\<exists>k. oget ?t k \<noteq> None"
    proof (cases "\<exists>ck d. n_children c = [(ck, d)]")
      case True
      then obtain ck d where "n_children c = [(ck, d)]" by blast
      then have "oget ?t (fst p @ ''.'' @ ck) \<noteq> None" by (simp add: maybeMoveUp_get)
      then show ?thesis by blast
    next
      case False
      then have "oget ?t (fst p) = Some c" unfolding maybeMoveUp_get by (auto split: list.split prod.split)
      then show ?thesis by blast
    qed
    then obtain k where "oget ?t k \<noteq> None" by (elim exE)
    then show ?thesis by (rule nonempty_get)
  qed
  ultimately show ?thesis
    using assms items maybeMoveUp_wf [of tree "fst p" c] by (simp add: todo_ok_def)
qed

definition settled :: "(string \<times> node) list \<Rightarrow> node jsobj \<Rightarrow> bool" where
  "settled ps tree \<longleftrightarrow> (\<forall>k n. oget tree k = Some n \<longrightarrow> (k, n) \<in> set ps \<or> (length (n_children n) \<noteq> 1 \<and> branching n))"

lemma branching_text: "branching (Node t (n_children c) (n_type c)) = branching c"
  by (cases c) simp

lemma settled_step:
  assumes "todo_ok (p # ps) tree" "settled (p # ps) tree" "branching c"
  shows "settled ps (maybeMoveUp (fst p) c tree)"
proof -
  have old: "(k, n) \<in> set ps \<or> (length (n_children n) \<noteq> 1 \<and> branching n)" if "k \<noteq> fst p" "oget tree k = Some n" for k n
    using assms(2) that by (fastforce simp: settled_def)
  show ?thesis
  proof (cases "\<exists>ck d. n_children c = [(ck, d)]")
    case True
    then obtain ck d where c: "n_children c = [(ck, d)]" by blast
    then have "length (n_children d) \<noteq> 1 \<and> branching d" using assms(3) by (cases c) simp
    then show ?thesis
      using old c unfolding settled_def
      by (auto simp: maybeMoveUp_get branching_text simp del: branching.simps split: if_splits)
  next
    case False
    then have "length (n_children c) \<noteq> 1" by (auto simp: length_Suc_conv)
    moreover have "oget (maybeMoveUp (fst p) c tree) x = (if x = fst p then Some c else oget tree x)" for x
      using False by (auto simp: maybeMoveUp_get split: list.splits prod.splits)
    ultimately show ?thesis using old assms(3) by (auto simp: settled_def split: if_splits)
  qed
qed

lemma collapse_loop:
  assumes "todo_ok ps tree" "settled ps tree"
    "\<And>p. p \<in> set ps \<Longrightarrow> set (tails (collapse (snd p))) = set (tails (snd p)) \<and> branching (collapse (snd p))"
  shows "let tree' = fold (\<lambda>p tree. maybeMoveUp (fst p) (collapse (snd p)) tree) ps tree
    in contents tree' = contents tree \<and> todo_ok [] tree' \<and> settled [] tree'"
  using assms
proof (induction ps arbitrary: tree)
  case (Cons p ps)
  let ?t = "maybeMoveUp (fst p) (collapse (snd p)) tree"
  have "contents ?t = contents tree"
    using Cons.prems(1) Cons.prems(3) [of p] todo_no_clash [OF Cons.prems(1)]
    by (intro maybeMoveUp_contents) (auto simp: todo_ok_def)
  moreover have "todo_ok ps ?t" by (rule todo_step [OF Cons.prems(1)])
  moreover have "settled ps ?t" using settled_step [OF Cons.prems(1,2)] Cons.prems(3) [of p] by simp
  ultimately show ?case using Cons.IH [of ?t] Cons.prems(3) by (simp add: Let_def)
qed simp

lemma child_items_keys: "map fst (child_items cs) = okeys cs"
  by (simp add: child_items_def comp_def)

lemma child_items_set: "wf_obj cs \<Longrightarrow> set (child_items cs) = set cs"
proof
  assume wf: "wf_obj cs"
  show "set (child_items cs) \<subseteq> set cs" using child_items_in by blast
  show "set cs \<subseteq> set (child_items cs)"
  proof
    fix p
    assume "p \<in> set cs"
    then have "oget cs (fst p) = Some (snd p)" using wf_obj_set [OF wf, of "fst p" "snd p"] by simp
    moreover from this have "fst p \<in> set (okeys cs)" by (simp add: okeys_iff)
    ultimately show "p \<in> set (child_items cs)" by (auto simp: child_items_def image_iff intro!: bexI [of _ "fst p"])
  qed
qed

lemma collapse_spec:
  "field_tree n \<Longrightarrow> set (tails (collapse n)) = set (tails n) \<and> branching (collapse n) \<and>
     (n_children (collapse n) = [] \<longleftrightarrow> n_children n = [])"
proof (induction n rule: collapse.induct)
  case (1 t cs ty)
  show ?case
  proof (cases "cs = []")
    case True
    then show ?thesis by (simp add: child_items_def)
  next
    case False
    have wf: "wf_obj cs" and sub: "\<And>p. p \<in> set cs \<Longrightarrow> CHR ''.'' \<notin> set (fst p) \<and> field_tree (snd p)"
      using "1.prems" by auto
    have todo: "todo_ok (child_items cs) cs"
    proof -
      have "CHR ''.'' \<notin> set k" if "oget cs k \<noteq> None" for k
      proof -
        obtain n where "(k, n) \<in> set cs" using \<open>oget cs k \<noteq> None\<close> wf_obj_set [OF wf] by auto
        then show ?thesis using sub by fastforce
      qed
      then show ?thesis
        using wf False sub wf_obj_set [OF wf]
        by (auto simp: todo_ok_def child_items_keys distinct_okeys child_items_set)
    qed
    have settled: "settled (child_items cs) cs" using wf_obj_set [OF wf] by (simp add: settled_def child_items_set [OF wf])
    have "set (tails (collapse (snd p))) = set (tails (snd p)) \<and> branching (collapse (snd p))" if "p \<in> set (child_items cs)" for p
      using "1.IH" [OF that] sub child_items_in [OF that] by blast
    note loop = collapse_loop [OF todo settled this, unfolded Let_def]
    let ?tree = "fold (\<lambda>p tree. maybeMoveUp (fst p) (collapse (snd p)) tree) (child_items cs) cs"
    have t: "contents ?tree = contents cs" "wf_obj ?tree" "?tree \<noteq> []" "settled [] ?tree"
      using loop by (auto simp: todo_ok_def)
    have "set (tails (Node t ?tree ty)) = set (tails (Node t cs ty))"
      using tails_contents [OF t(2,3)] tails_contents [OF wf False] t(1) by simp
    moreover have "branching (Node t ?tree ty)"
      using t(4) wf_obj_set [OF t(2)] by (force simp: settled_def)
    ultimately show ?thesis using t(3) False by (simp del: tails.simps branching.simps)
  qed
qed

end
