(* ===== verification/Counter_Tree_Props.thy ===== *)
theory Counter_Tree_Props
  imports Counter_Tree
begin

text \<open>
  The counter tree contains exactly the counters it was built from, provided that no counter's
  name is a dotted beginning of another's, and its rows lead back to its nodes.
\<close>

section \<open>The tree of a list of counters\<close>

definition dotted :: "string list \<Rightarrow> string" where
  "dotted fs = concat (map (\<lambda>f. CHR ''.'' # f) fs)"

text \<open>The paths from a node down to the leaves, with the leaves' types.\<close>

function leaf_paths :: "node \<Rightarrow> (string list \<times> nat) set" where
  "leaf_paths (Node t cs ty) =
     (if cs = [] then {([], ty)} else (\<Union>p\<in>set cs. (\<lambda>q. (fst p # fst q, snd q)) ` leaf_paths (snd p)))"
  by pat_completeness auto

termination
  by (relation "measure size") (auto dest!: child_size simp del: node.size)

definition below :: "node \<Rightarrow> (string list \<times> nat) set" where
  "below n = (if n_children n = [] then {} else leaf_paths n)"

lemma tails_leaf_paths: "set (tails n) = (\<lambda>q. (dotted (fst q), snd q)) ` leaf_paths n"
proof (induction n rule: tails.induct)
  case (1 t cs ty)
  show ?case
  proof (cases "cs = []")
    case True
    then show ?thesis by (simp add: dotted_def)
  next
    case False
    have "(\<lambda>q. (CHR ''.'' # fst p @ fst q, snd q)) ` set (tails (snd p)) =
        (\<lambda>q. (dotted (fst q), snd q)) ` (\<lambda>q. (fst p # fst q, snd q)) ` leaf_paths (snd p)" if "p \<in> set cs" for p
      unfolding "1.IH" [OF False that] image_image by (simp add: dotted_def)
    then show ?thesis using False by (auto simp: image_UN)
  qed
qed

lemma leaf_paths_nonempty: "leaf_paths n \<noteq> {}"
proof (induction n rule: leaf_paths.induct)
  case (1 t cs ty)
  then show ?case by (cases cs) auto
qed

lemma below_iff:
  assumes "wf_obj cs"
  shows "x \<in> below (Node t cs ty) \<longleftrightarrow> (\<exists>f c q. oget cs f = Some c \<and> q \<in> leaf_paths c \<and> x = (f # fst q, snd q))"
proof -
  have "x \<in> below (Node t cs ty) \<longleftrightarrow> (\<exists>p\<in>set cs. \<exists>q\<in>leaf_paths (snd p). x = (fst p # fst q, snd q))"
    by (auto simp: below_def)
  also have "\<dots> \<longleftrightarrow> (\<exists>f c. (f, c) \<in> set cs \<and> (\<exists>q\<in>leaf_paths c. x = (f # fst q, snd q)))" by force
  finally show ?thesis unfolding wf_obj_set [OF assms] by blast
qed

lemma leaf_paths_below: "leaf_paths c = (if n_children c = [] then {([], n_type c)} else below c)"
  by (cases c) (simp add: below_def)

text \<open>A path that meets no other: neither is a beginning of the other.\<close>

definition free_path :: "string list \<Rightarrow> node \<Rightarrow> bool" where
  "free_path fs n \<longleftrightarrow> (\<forall>p\<in>below n. \<not> prefix (fst p) fs \<and> \<not> prefix fs (fst p))"

definition fields_ok :: "string list \<Rightarrow> bool" where
  "fields_ok fs \<longleftrightarrow> list_all (\<lambda>f. \<not> inherited f \<and> CHR ''.'' \<notin> set f) fs"

lemma field_tree_set:
  assumes "field_tree (Node t cs ty)" "CHR ''.'' \<notin> set f" "field_tree c"
  shows "field_tree (Node t (oset f c cs) ty')"
proof -
  have wf: "wf_obj cs" "wf_obj (oset f c cs)" using assms(1) by (simp_all add: sobj.inv_put)
  have "CHR ''.'' \<notin> set k \<and> field_tree d" if "(k, d) \<in> set (oset f c cs)" for k d
  proof -
    have "oget (oset f c cs) k = Some d" using wf_obj_set [OF wf(2)] that by blast
    then show ?thesis using assms wf_obj_set [OF wf(1), of k d] by (auto simp: obj_simps split: if_splits)
  qed
  then show ?thesis using wf(2) by auto
qed

lemma oset_nonempty [simp]: "oset k v ob \<noteq> []"
  by (cases "(k, v, ob)" rule: oset.cases) auto

lemma insert_leaf:
  "fields_ok fs \<Longrightarrow> \<exists>n. insert_fields fs ty (Node t [] ty0) = Ok n \<and> field_tree n \<and> leaf_paths n = {(fs, ty)}"
proof (induction fs arbitrary: t ty0)
  case Nil
  then show ?case by (simp add: wf_obj_def)
next
  case (Cons f fs)
  then have "fields_ok fs" by (simp add: fields_ok_def)
  from Cons.IH [OF this, of f 2] obtain n where
    "insert_fields fs ty (Node f [] 2) = Ok n" "field_tree n" "leaf_paths n = {(fs, ty)}" by (elim exE conjE)
  then show ?case using Cons.prems by (simp add: fields_ok_def newNode_def oget_def wf_obj_def)
qed

lemma insert_free:
  "fs \<noteq> [] \<Longrightarrow> fields_ok fs \<Longrightarrow> field_tree n \<Longrightarrow> free_path fs n \<Longrightarrow>
   \<exists>n'. insert_fields fs ty n = Ok n' \<and> field_tree n' \<and> n_children n' \<noteq> [] \<and> below n' = insert (fs, ty) (below n)"
proof (induction fs arbitrary: n)
  case (Cons f fs)
  obtain t cs ty0 where n: "n = Node t cs ty0" by (cases n)
  have wf: "wf_obj cs" and f: "\<not> inherited f" "CHR ''.'' \<notin> set f" "fields_ok fs"
    using Cons.prems by (auto simp: n fields_ok_def)
  have put: "field_tree (Node t (oset f c' cs) ty0)" if "field_tree c'" for c'
    using field_tree_set [of t cs ty0 f c' ty0] Cons.prems(3) f(2) that n by simp
  have below_put: "x \<in> below (Node t (oset f c' cs) ty0) \<longleftrightarrow>
      (\<exists>q. q \<in> leaf_paths c' \<and> x = (f # fst q, snd q)) \<or>
      (\<exists>g c q. g \<noteq> f \<and> oget cs g = Some c \<and> q \<in> leaf_paths c \<and> x = (g # fst q, snd q))" for x c'
    using below_iff [of "oset f c' cs" x t ty0] wf by (auto simp: sobj.inv_put obj_simps split: if_splits)
  show ?case
  proof (cases "oget cs f")
    case None
    obtain c' where c': "insert_fields fs ty (newNode f) = Ok c'" "field_tree c'" "leaf_paths c' = {(fs, ty)}"
      using insert_leaf [OF f(3), of ty f 2] unfolding newNode_def by (elim exE conjE)
    have "x \<in> below (Node t (oset f c' cs) ty0) \<longleftrightarrow> x \<in> insert (f # fs, ty) (below n)" for x
      unfolding below_put n insert_iff below_iff [OF wf] using None by (auto simp: c'(3)) (metis option.distinct(1))+
    then show ?thesis using None c' f(1) put [OF c'(2)] by (auto simp: n)
  next
    case (Some c)
    have c: "field_tree c" using Cons.prems(3) wf_obj_set [OF wf, of f c] Some by (auto simp: n)
    have sub: "(f # fst q, snd q) \<in> below n" if "q \<in> leaf_paths c" for q
      unfolding n below_iff [OF wf] using Some that by blast
    have no: "\<not> prefix (fst q) fs \<and> \<not> prefix fs (fst q)" if "q \<in> leaf_paths c" for q
      using sub [OF that] Cons.prems(4) unfolding free_path_def by fastforce
    have "fs \<noteq> []" using no leaf_paths_nonempty [of c] by fastforce
    moreover have ch: "n_children c \<noteq> []"
    proof
      assume "n_children c = []"
      then have "([], n_type c) \<in> leaf_paths c" by (simp add: leaf_paths_below)
      then show False using no by fastforce
    qed
    moreover have "free_path fs c" using no ch by (simp add: free_path_def leaf_paths_below)
    ultimately obtain c' where c': "insert_fields fs ty c = Ok c'" "field_tree c'" "n_children c' \<noteq> []"
        "below c' = insert (fs, ty) (below c)"
      using Cons.IH [OF _ f(3) c] by blast
    then have lp: "leaf_paths c' = insert (fs, ty) (leaf_paths c)" using ch by (simp add: leaf_paths_below)
    have "x \<in> below (Node t (oset f c' cs) ty0) \<longleftrightarrow> x \<in> insert (f # fs, ty) (below n)" for x
      unfolding below_put n insert_iff below_iff [OF wf] using Some by (auto simp: lp) (metis option.inject)+
    then show ?thesis using Some c' put [OF c'(2)] by (auto simp: n)
  qed
qed simp

text \<open>No name is a dotted beginning of another, and no field is a member every object has.\<close>

definition counters_ok :: "counter list \<Rightarrow> bool" where
  "counters_ok cs \<longleftrightarrow>
     (\<forall>c\<in>set cs. fields_ok (split_chr (CHR ''.'') (c_name c))) \<and>
     sorted_wrt (\<lambda>a b. \<not> prefix a b \<and> \<not> prefix b a) (map (\<lambda>c. split_chr (CHR ''.'') (c_name c)) cs)"

lemma insert_counters_below:
  assumes "counters_ok cs" "field_tree n" "\<forall>c\<in>set cs. free_path (split_chr (CHR ''.'') (c_name c)) n"
  shows "\<exists>n'. insert_counters cs n = Ok n' \<and> field_tree n' \<and>
    below n' = (\<lambda>c. (split_chr (CHR ''.'') (c_name c), c_type c)) ` set cs \<union> below n"
  using assms
proof (induction cs arbitrary: n)
  case (Cons c cs)
  let ?p = "split_chr (CHR ''.'') (c_name c)"
  obtain n1 where n1: "insert_fields ?p (c_type c) n = Ok n1" "field_tree n1" "below n1 = insert (?p, c_type c) (below n)"
    using insert_free [of ?p n "c_type c"] Cons.prems by (auto simp: counters_ok_def)
  have "\<forall>d\<in>set cs. free_path (split_chr (CHR ''.'') (c_name d)) n1"
    using Cons.prems by (auto simp: counters_ok_def free_path_def n1(3))
  moreover have "counters_ok cs" using Cons.prems(1) by (auto simp: counters_ok_def)
  ultimately obtain n' where "insert_counters cs n1 = Ok n'" "field_tree n'"
    "below n' = (\<lambda>c. (split_chr (CHR ''.'') (c_name c), c_type c)) ` set cs \<union> below n1"
    using Cons.IH [OF _ n1(2)] by blast
  then show ?case using n1 by auto
qed simp

lemma dotted_join: "fs \<noteq> [] \<Longrightarrow> drop 1 (dotted fs) = join_str ''.'' fs"
proof -
  have "f @ dotted gs = join_str ''.'' (f # gs)" for f gs
  proof (induction gs arbitrary: f)
    case (Cons g gs)
    then have "g @ dotted gs = join_str ''.'' (g # gs)" .
    then show ?case by (simp add: dotted_def)
  qed (simp add: dotted_def)
  moreover have "dotted (f # gs) = CHR ''.'' # f @ dotted gs" for f gs by (simp add: dotted_def)
  ultimately show "fs \<noteq> [] \<Longrightarrow> ?thesis" by (cases fs) simp_all
qed

lemma dotted_split: "drop 1 (dotted (split_chr (CHR ''.'') s)) = s"
  using dotted_join [of "split_chr (CHR ''.'') s"] join_split [of "CHR ''.''" s] by simp

lemma tree_names_below:
  "set (tree_names n) = (\<lambda>q. (drop 1 (dotted (fst q)), snd q)) ` below n"
  by (cases "n_children n = []") (auto simp: tree_names_def below_def tails_leaf_paths image_image)

text \<open>C19: for counters of which none is a dotted beginning of another, the tree of the counter
  browser contains exactly the counters with their types, and every node of it has no child or
  several: collapsing the chains of single children loses nothing.\<close>

theorem asCounterTree_exact:
  assumes "counters_ok cs"
  shows "\<exists>t. asCounterTree cs = Ok t \<and> set (tree_names t) = (\<lambda>c. (c_name c, c_type c)) ` set cs \<and> branching t"
proof -
  have "field_tree (newNode ''#'')" "below (newNode ''#'') = {}" by (simp_all add: newNode_def wf_obj_def below_def)
  then obtain n where n: "insert_counters cs (newNode ''#'') = Ok n" "field_tree n"
      "below n = (\<lambda>c. (split_chr (CHR ''.'') (c_name c), c_type c)) ` set cs"
    using insert_counters_below [OF assms, of "newNode ''#''"] by (auto simp: free_path_def)
  have "set (tree_names (collapse n)) = set (tree_names n)"
    using collapse_spec [OF n(2)] by (auto simp: tree_names_def)
  also have "\<dots> = (\<lambda>c. (c_name c, c_type c)) ` set cs"
    by (simp add: tree_names_below n(3) image_image dotted_split [simplified])
  finally show ?thesis using collapse_spec [OF n(2)] n(1) by (simp add: asCounterTree_def)
qed

definition demo_counters :: "counter list" where
  "demo_counters = map (\<lambda>n. \<lparr>c_name = n, c_type = 1, c_leaf = True\<rparr>) [''cpu.idle'', ''cpu.user'', ''disk.a.b'', ''net'']"

theorem asCounterTree_exact_witness:
  "\<exists>t. asCounterTree demo_counters = Ok t \<and>
     set (tree_names t) = {(''cpu.idle'', 1), (''cpu.user'', 1), (''disk.a.b'', 1), (''net'', 1)} \<and> branching t"
proof -
  have "counters_ok demo_counters" by code_simp
  then show ?thesis using asCounterTree_exact [of demo_counters] by (simp add: demo_counters_def)
qed

text \<open>A counter that is a dotted beginning of another one disappears from the tree.\<close>

theorem asCounterTree_loses_prefix:
  "asCounterTree [\<lparr>c_name = ''a'', c_type = 0, c_leaf = True\<rparr>, \<lparr>c_name = ''a.b'', c_type = 1, c_leaf = True\<rparr>] =
     Ok (Node ''#'' [(''a.b'', Node ''a.b'' [] 1)] 2)"
  by code_simp

text \<open>Every row of a level leads back to its node, and a leaf's row names the counter.\<close>

theorem row_finds_node:
  "wf_obj (n_children t) \<Longrightarrow> r \<in> set (formatTreeLevel t) \<Longrightarrow>
   \<exists>c. findNodeInCounterTree t [r_text r] = Ok c \<and> (r_branch r \<longleftrightarrow> n_children c \<noteq> [])"
proof -
  assume wf: "wf_obj (n_children t)" and "r \<in> set (formatTreeLevel t)"
  then obtain p where p: "p \<in> set (child_items (n_children t))" "r_text r = fst p" "r_branch r \<longleftrightarrow> n_children (snd p) \<noteq> []"
    by (auto simp: formatTreeLevel_def)
  have "oget (n_children t) (fst p) = Some (snd p)"
    using child_items_in [OF p(1)] wf_obj_set [OF wf, of "fst p" "snd p"] by simp
  then show ?thesis using p by (intro exI [of _ "snd p"]) simp
qed
end
