(* ===== verification/Sha256_Props.thy ===== *)
theory Sha256_Props
  imports Sha256
begin

text \<open>
  The digest of \<open>Sha256\<close> refines the standard's: \<open>w32\<close> reads a JavaScript number as a 32 bit
  word, every operator and every loop of the code commutes with it, and the padding the code
  builds is the padded message of the standard. The encoder and the decoder of UTF-8 are inverse.
\<close>

unbundle bit_operations_syntax

section \<open>The standard\<close>

abbreviation w32 :: "int \<Rightarrow> 32 word" where
  "w32 \<equiv> word_of_int"

definition Sigma0_w :: "32 word \<Rightarrow> 32 word" where
  "Sigma0_w x = word_rotr 2 x XOR word_rotr 13 x XOR word_rotr 22 x"

definition Sigma1_w :: "32 word \<Rightarrow> 32 word" where
  "Sigma1_w x = word_rotr 6 x XOR word_rotr 11 x XOR word_rotr 25 x"

definition sigma0_w :: "32 word \<Rightarrow> 32 word" where
  "sigma0_w x = word_rotr 7 x XOR word_rotr 18 x XOR drop_bit 3 x"

definition sigma1_w :: "32 word \<Rightarrow> 32 word" where
  "sigma1_w x = word_rotr 17 x XOR word_rotr 19 x XOR drop_bit 10 x"

definition Ch_w :: "32 word \<Rightarrow> 32 word \<Rightarrow> 32 word \<Rightarrow> 32 word" where
  "Ch_w x y z = (x AND y) XOR (NOT x AND z)"

definition Maj_w :: "32 word \<Rightarrow> 32 word \<Rightarrow> 32 word \<Rightarrow> 32 word" where
  "Maj_w x y z = (x AND y) XOR (x AND z) XOR (y AND z)"

text \<open>The padded message: a one bit, zeros, and the length in bits in the last eight bytes.\<close>

definition length_bytes :: "nat \<Rightarrow> 8 word list" where
  "length_bytes n = map (\<lambda>i. word_of_nat (drop_bit (8 * (7 - i)) n)) [0..<8]"

definition padded :: "8 word list \<Rightarrow> 8 word list" where
  "padded m = m @ [128] @ replicate ((119 - length m mod 64) mod 64) 0 @ length_bytes (8 * length m)"

definition be_word :: "8 word \<Rightarrow> 8 word \<Rightarrow> 8 word \<Rightarrow> 8 word \<Rightarrow> 32 word" where
  "be_word a b c d = push_bit 24 (ucast a) OR push_bit 16 (ucast b) OR push_bit 8 (ucast c) OR ucast d"

definition pad_word :: "8 word list \<Rightarrow> nat \<Rightarrow> 32 word" where
  "pad_word p i = be_word (p ! (4 * i)) (p ! (4 * i + 1)) (p ! (4 * i + 2)) (p ! (4 * i + 3))"

definition blocks_w :: "8 word list \<Rightarrow> 32 word list list" where
  "blocks_w p = map (\<lambda>i. map (\<lambda>j. pad_word p (16 * i + j)) [0..<16]) [0..<length p div 64]"

fun schedule_w :: "32 word list \<Rightarrow> nat \<Rightarrow> 32 word" where
  "schedule_w M t =
     (if t < 16 then M ! t
      else sigma1_w (schedule_w M (t - 2)) + schedule_w M (t - 7) + sigma0_w (schedule_w M (t - 15)) + schedule_w M (t - 16))"

declare schedule_w.simps [simp del]

definition round_w :: "32 word list \<Rightarrow> nat \<Rightarrow> 32 word regs \<Rightarrow> 32 word regs" where
  "round_w M t r =
     (case r of (a, b, c, d, e, f, g, h) \<Rightarrow>
        (let T1 = h + Sigma1_w e + Ch_w e f g + w32 (K_table ! t) + schedule_w M t;
             T2 = Sigma0_w a + Maj_w a b c
         in (T1 + T2, a, b, c, d + T1, e, f, g)))"

definition compress_w :: "32 word list \<Rightarrow> 32 word regs \<Rightarrow> 32 word regs" where
  "compress_w M H =
     (case H of (h0, h1, h2, h3, h4, h5, h6, h7) \<Rightarrow>
      case fold (round_w M) [0..<64] H of (a, b, c, d, e, f, g, h) \<Rightarrow>
        (h0 + a, h1 + b, h2 + c, h3 + d, h4 + e, h5 + f, h6 + g, h7 + h))"

definition digest_w :: "8 word list \<Rightarrow> 32 word list" where
  "digest_w m = list_of_regs (fold compress_w (blocks_w (padded m)) (regs_of (map w32 H_init)))"

section \<open>The operators on words\<close>

lemma w32_to_int32 [simp]: "w32 (to_int32 x) = w32 x"
  by (rule bit_word_eqI) (auto simp: to_int32_def bit_simps)

lemma w32_to_uint32 [simp]: "w32 (to_uint32 x) = w32 x"
  by (rule bit_word_eqI) (auto simp: to_uint32_def bit_simps)

lemma w32_and: "w32 (js_and x y) = w32 x AND w32 y"
  by (rule bit_word_eqI) (auto simp: js_and_def to_int32_def bit_simps)

lemma w32_or: "w32 (js_or x y) = w32 x OR w32 y"
  by (rule bit_word_eqI) (auto simp: js_or_def to_int32_def bit_simps)

lemma w32_xor: "w32 (js_xor x y) = w32 x XOR w32 y"
  by (rule bit_word_eqI) (auto simp: js_xor_def to_int32_def bit_simps)

lemma w32_not: "w32 (js_not x) = NOT (w32 x)"
  by (rule bit_word_eqI) (auto simp: js_not_def to_int32_def bit_simps)

lemma w32_shl: "n < 32 \<Longrightarrow> w32 (js_shl x n) = push_bit n (w32 x)"
proof -
  assume n: "n < 32"
  have "w32 (push_bit n y) = push_bit n (w32 y)" for y
    by (rule bit_word_eqI) (auto simp: bit_simps)
  then show ?thesis using n by (simp add: js_shl_def)
qed

lemma w32_ushr: "n < 32 \<Longrightarrow> w32 (js_ushr x n) = drop_bit n (w32 x)"
  by (rule bit_word_eqI) (auto simp: js_ushr_def to_uint32_def bit_simps)

lemma and_mask32 [simp]: "(x :: 32 word) AND 4294967295 = x"
proof -
  have "(4294967295 :: 32 word) = NOT 0" by simp
  then show ?thesis by (simp only:) simp
qed

lemma w32_mask: "w32 (js_and x 4294967295) = w32 x"
  by (simp add: w32_and)

lemma w32_ROTR: "0 < n \<Longrightarrow> n < 32 \<Longrightarrow> w32 (ROTR n x) = word_rotr n (w32 x)"
proof (rule bit_word_eqI)
  fix k
  assume n: "0 < n" "n < 32" and k: "k < LENGTH(32)"
  show "bit (w32 (ROTR n x)) k = bit (word_rotr n (w32 x)) k"
  proof (cases "k + n < 32")
    case True
    then show ?thesis using n k by (auto simp: ROTR_def w32_or w32_ushr w32_shl bit_simps add.commute)
  next
    case False
    then have "(k + n) mod 32 = k - (32 - n)" using k n by (simp add: mod_if)
    then show ?thesis using n k False by (auto simp: ROTR_def w32_or w32_ushr w32_shl bit_simps add.commute)
  qed
qed

lemmas w32_ops = w32_and w32_or w32_xor w32_not w32_shl w32_ushr w32_mask w32_ROTR wi_hom_add [symmetric]

lemma w32_functions:
  "w32 (Sigma0 x) = Sigma0_w (w32 x)" "w32 (Sigma1 x) = Sigma1_w (w32 x)"
  "w32 (sigma0 x) = sigma0_w (w32 x)" "w32 (sigma1 x) = sigma1_w (w32 x)"
  "w32 (Ch x y z) = Ch_w (w32 x) (w32 y) (w32 z)" "w32 (Maj x y z) = Maj_w (w32 x) (w32 y) (w32 z)"
  by (simp_all add: Sigma0_def Sigma1_def sigma0_def sigma1_def Ch_def Maj_def Sigma0_w_def Sigma1_w_def
      sigma0_w_def sigma1_w_def Ch_w_def Maj_w_def w32_ops xor.assoc)

section \<open>The padding\<close>

lemma be_word_nat:
  "be_word (word_of_nat (drop_bit 24 n)) (word_of_nat (drop_bit 16 n)) (word_of_nat (drop_bit 8 n)) (word_of_nat n) = word_of_nat n"
proof (rule bit_word_eqI)
  fix k
  assume "k < LENGTH(32)"
  then consider "k < 8" | "8 \<le> k" "k < 16" | "16 \<le> k" "k < 24" | "24 \<le> k" "k < 32" by fastforce
  then show "bit (be_word (word_of_nat (drop_bit 24 n)) (word_of_nat (drop_bit 16 n)) (word_of_nat (drop_bit 8 n)) (word_of_nat n)) k
      = bit (word_of_nat n :: 32 word) k"
    by cases (auto simp: be_word_def bit_simps)
qed

lemma message_word_be:
  assumes "charCodeAt msg (i * 64 + j * 4) = uint a" "charCodeAt msg (i * 64 + j * 4 + 1) = uint b"
    "charCodeAt msg (i * 64 + j * 4 + 2) = uint c" "charCodeAt msg (i * 64 + j * 4 + 3) = uint d"
  shows "w32 (message_word msg i j) = be_word a b c (d :: 8 word)"
  using assms by (simp add: message_word_def be_word_def w32_ops or.assoc)

lemma pad_arith: "r < 64 \<Longrightarrow> r + 1 + (119 - r) mod 64 + 8 = 64 * ((r + 72) div 64)" for r :: nat
proof (cases "r < 56")
  case True
  then have "(119 - r) mod 64 = 55 - r" by (simp add: mod_if)
  moreover have "(r + 72) div 64 = 1" using True by simp
  ultimately show ?thesis using True by simp
next
  case False
  assume "r < 64"
  then have "(119 - r) mod 64 = 119 - r" "(r + 72) div 64 = 2" using False by simp_all
  then show ?thesis using False \<open>r < 64\<close> by simp
qed

lemma padded_length: "length (padded m) = 64 * block_count (length m + 1)"
proof -
  let ?r = "length m mod 64" and ?q = "length m div 64"
  have l: "length m = 64 * ?q + ?r" "?r < 64" by simp_all
  have "length (padded m) = 64 * ?q + (?r + 1 + (119 - ?r) mod 64 + 8)"
    by (simp add: padded_def length_bytes_def)
  moreover have "block_count (length m + 1) = ?q + (?r + 72) div 64"
  proof -
    have "length m + 1 + 8 + 63 = 64 * ?q + (?r + 72)" using l(1) by linarith
    then show ?thesis unfolding block_count_def by (simp only: div_mult_self4 zero_neq_numeral not_False_eq_True)
  qed
  moreover have "?r + 1 + (119 - ?r) mod 64 + 8 = 64 * ((?r + 72) div 64)" by (rule pad_arith [OF l(2)])
  ultimately show ?thesis by (simp only: add_mult_distrib2)
qed

abbreviation byte_units :: "8 word list \<Rightarrow> units" where
  "byte_units m \<equiv> map uint m @ [fromCharCode 128]"

lemma fromCharCode_128: "fromCharCode 128 = 128"
  by (simp add: fromCharCode_def take_bit_eq_mod)

lemma charCodeAt_padded:
  assumes "x + 8 < 64 * block_count (length m + 1) \<or> x + 8 = 64 * block_count (length m + 1) - k \<and> 0 < k"
  shows "charCodeAt (byte_units m) x = uint (padded m ! x)"
proof -
  let ?z = "replicate ((119 - length m mod 64) mod 64) (0 :: 8 word)"
  have "x < length (m @ [128] @ ?z)"
    using assms padded_length [of m] by (auto simp: padded_def length_bytes_def)
  then show ?thesis
    by (auto simp: padded_def charCodeAt_def fromCharCode_128 nth_append nth_Cons split: nat.splits)
qed

lemma block_count_pos: "0 < block_count n"
  by (simp add: block_count_def)

lemma message_word_padded:
  assumes "i * 64 + j * 4 + 11 < 64 * block_count (length m + 1)"
  shows "w32 (message_word (byte_units m) i j) = pad_word (padded m) (16 * i + j)"
proof -
  have "charCodeAt (byte_units m) (i * 64 + j * 4 + r) = uint (padded m ! (4 * (16 * i + j) + r))" if "r < 4" for r
    using charCodeAt_padded [of "i * 64 + j * 4 + r" m] that assms by (simp add: algebra_simps)
  note * = this [of 0] this [of 1] this [of 2] this [of 3]
  show ?thesis unfolding pad_word_def by (rule message_word_be) (use * in simp_all)
qed

lemma padded_tail:
  assumes "r < 8"
  shows "padded m ! (64 * block_count (length m + 1) - 8 + r) = word_of_nat (drop_bit (8 * (7 - r)) (8 * length m))"
proof -
  let ?front = "m @ [128] @ replicate ((119 - length m mod 64) mod 64) 0"
  have "length ?front = 64 * block_count (length m + 1) - 8"
    using padded_length [of m] by (simp add: padded_def length_bytes_def)
  moreover have "padded m = ?front @ length_bytes (8 * length m)" by (simp add: padded_def)
  moreover have "length_bytes (8 * length m) ! r = word_of_nat (drop_bit (8 * (7 - r)) (8 * length m))"
    using assms by (simp add: length_bytes_def del: upt_Suc)
  ultimately show ?thesis using nth_append_length_plus by metis
qed

lemma message_blocks_word:
  assumes i: "i < block_count (length m + 1)" and j: "j < 16"
  shows "w32 (message_blocks (byte_units m) ! i ! j) = pad_word (padded m) (16 * i + j)"
proof (cases "i = block_count (length m + 1) - 1 \<and> 14 \<le> j")
  case False
  have "w32 (message_word (byte_units m) i j) = pad_word (padded m) (16 * i + j)"
    using False i j by (intro message_word_padded) auto
  moreover have "message_blocks (byte_units m) ! i ! j = message_word (byte_units m) i j"
    using False i j by (auto simp: message_blocks_def Let_def nth_list_update block_count_pos)
  ultimately show ?thesis by simp
next
  case True
  let ?N = "block_count (length m + 1)" and ?b = "8 * length m"
  note tail = padded_tail [where m = m]
  have "j = 14 \<or> j = 15" using True j by auto
  then show ?thesis
  proof
    assume j: "j = 14"
    have "4 * (16 * i + j) = 64 * ?N - 8" using True j block_count_pos [of "length m + 1"] by auto
    then have "pad_word (padded m) (16 * i + j) = word_of_nat (drop_bit 32 ?b)"
      using tail [of 0] tail [of 1] tail [of 2] tail [of 3] be_word_nat [of "drop_bit 32 ?b"]
      by (simp add: pad_word_def)
    moreover have "message_blocks (byte_units m) ! i ! j = int ?b div 2 ^ 32"
      using True j i by (simp add: message_blocks_def Let_def)
    moreover have "int ?b div 2 ^ 32 = int (drop_bit 32 ?b)" by (simp add: drop_bit_eq_div zdiv_int)
    ultimately show ?thesis by (simp only: of_int_of_nat_eq)
  next
    assume j: "j = 15"
    have "4 * (16 * i + j) = 64 * ?N - 8 + 4" using True j block_count_pos [of "length m + 1"] by auto
    then have "pad_word (padded m) (16 * i + j) = word_of_nat ?b"
      using tail [of 4] tail [of 5] tail [of 6] tail [of 7] be_word_nat [of ?b]
      by (simp add: pad_word_def add.commute)
    moreover have "message_blocks (byte_units m) ! i ! j = js_and (int ?b) 4294967295"
      using True j i by (simp add: message_blocks_def Let_def mult.commute)
    ultimately show ?thesis by (simp add: w32_mask)
  qed
qed

lemma message_blocks_w: "map (map w32) (message_blocks (byte_units m)) = blocks_w (padded m)"
proof -
  have len: "length (message_blocks (byte_units m)) = block_count (length m + 1)"
    by (simp add: message_blocks_def Let_def)
  have len16: "length (message_blocks (byte_units m) ! i) = 16" if "i < block_count (length m + 1)" for i
    using that by (auto simp: message_blocks_def Let_def nth_list_update)
  show ?thesis
  proof (rule nth_equalityI)
    show "length (map (map w32) (message_blocks (byte_units m))) = length (blocks_w (padded m))"
      by (simp add: blocks_w_def len padded_length)
    fix i
    assume "i < length (map (map w32) (message_blocks (byte_units m)))"
    then have i: "i < block_count (length m + 1)" using len by simp
    show "map (map w32) (message_blocks (byte_units m)) ! i = blocks_w (padded m) ! i"
      by (rule nth_equalityI)
         (use i len len16 [OF i] message_blocks_word [OF i] in \<open>simp_all add: blocks_w_def padded_length\<close>)
  qed
qed

lemma message_blocks_16: "M \<in> set (message_blocks (byte_units m)) \<Longrightarrow> length M = 16"
proof -
  assume "M \<in> set (message_blocks (byte_units m))"
  then have "map w32 M \<in> set (map (map w32) (message_blocks (byte_units m)))" by simp
  then have "map w32 M \<in> set (blocks_w (padded m))" by (simp only: message_blocks_w)
  then show ?thesis by (auto simp: blocks_w_def dest: arg_cong [of _ _ length])
qed

section \<open>One block\<close>

lemma schedule_prefix:
  assumes "length M = 16"
  shows "length (fold schedule_step [16..<16 + n] M) = 16 + n \<and>
    (\<forall>k < 16 + n. w32 (fold schedule_step [16..<16 + n] M ! k) = schedule_w (map w32 M) k)"
proof (induction n)
  case 0
  then show ?case using assms by (simp add: schedule_w.simps)
next
  case (Suc n)
  let ?W = "fold schedule_step [16..<16 + n] M"
  have W: "fold schedule_step [16..<16 + Suc n] M = schedule_step (16 + n) ?W"
  proof -
    have "[16..<16 + Suc n] = [16..<16 + n] @ [16 + n]" by (simp only: add_Suc_right upt_Suc le_add1 if_True)
    then show ?thesis by (simp only: fold_append comp_def fold.simps id_def)
  qed
  have len: "length ?W = 16 + n" and eq: "\<And>k. k < 16 + n \<Longrightarrow> w32 (?W ! k) = schedule_w (map w32 M) k"
    using Suc.IH by blast+
  have "w32 (schedule_step (16 + n) ?W ! (16 + n)) = schedule_w (map w32 M) (16 + n)"
    by (simp add: schedule_step_def len nth_append w32_ops w32_functions eq schedule_w.simps [of _ "16 + n"])
  moreover have "w32 (schedule_step (16 + n) ?W ! k) = schedule_w (map w32 M) k" if "k < 16 + n" for k
    using that eq by (simp add: schedule_step_def len nth_append)
  ultimately show ?case
    unfolding W using len by (metis add_Suc_right length_append_singleton less_Suc_eq schedule_step_def)
qed

lemma schedule_w: "length M = 16 \<Longrightarrow> k < 64 \<Longrightarrow> w32 (schedule M ! k) = schedule_w (map w32 M) k"
  using schedule_prefix [of M 48] by (simp add: schedule_def Let_def)

lemma regs_cases:
  obtains a b c d e f g h where "r = (a, b, c, d, e, f, g, h)"
  by (cases r) auto

definition wregs :: "int regs \<Rightarrow> 32 word regs" where
  "wregs r = (case r of (a, b, c, d, e, f, g, h) \<Rightarrow> (w32 a, w32 b, w32 c, w32 d, w32 e, w32 f, w32 g, w32 h))"

lemma main_step_w:
  "length M = 16 \<Longrightarrow> t < 64 \<Longrightarrow> wregs (main_step (schedule M) t r) = round_w (map w32 M) t (wregs r)"
  by (cases r rule: regs_cases) (simp add: main_step_def round_w_def wregs_def Let_def w32_ops w32_functions schedule_w)

lemma main_loop_w:
  "length M = 16 \<Longrightarrow> \<forall>t\<in>set ts. t < 64 \<Longrightarrow>
   wregs (fold (main_step (schedule M)) ts r) = fold (round_w (map w32 M)) ts (wregs r)"
  by (induction ts arbitrary: r) (simp_all add: main_step_w)

lemma add_regs_w:
  "wregs (add_regs H r) =
     (case wregs H of (h0, h1, h2, h3, h4, h5, h6, h7) \<Rightarrow>
      case wregs r of (a, b, c, d, e, f, g, h) \<Rightarrow>
        (h0 + a, h1 + b, h2 + c, h3 + d, h4 + e, h5 + f, h6 + g, h7 + h))"
  by (cases H rule: regs_cases; cases r rule: regs_cases) (simp add: add_regs_def wregs_def w32_ops)

lemma hash_block_w: "length M = 16 \<Longrightarrow> wregs (hash_block M H) = compress_w (map w32 M) (wregs H)"
  by (simp add: hash_block_def compress_w_def add_regs_w main_loop_w)

lemma hash_blocks_w:
  "\<forall>M\<in>set Ms. length M = 16 \<Longrightarrow> wregs (fold hash_block Ms H) = fold compress_w (map (map w32) Ms) (wregs H)"
  by (induction Ms arbitrary: H) (simp_all add: hash_block_w)

section \<open>The text of the digest\<close>

definition hex_w :: "32 word \<Rightarrow> string" where
  "hex_w w = map (\<lambda>i. hex_digit (uint (drop_bit (4 * i) w AND 15))) (rev [0..<8])"

lemma nibble_w: "i < 8 \<Longrightarrow> js_and (js_ushr n (i * 4)) 15 = uint (drop_bit (4 * i) (w32 n) AND 15)"
proof (rule bit_eqI)
  fix k
  assume i: "i < 8"
  have m: "to_int32 15 = mask 4" "(15 :: 32 word) = mask 4" by (simp_all add: to_int32_def mask_eq_exp_minus_1)
  show "bit (js_and (js_ushr n (i * 4)) 15) k = bit (uint (drop_bit (4 * i) (w32 n) AND 15)) k"
    unfolding js_and_def m using i by (auto simp: js_ushr_def to_int32_def to_uint32_def bit_simps mult.commute min_def)
qed

lemma toHexStr_w: "toHexStr n = hex_w (w32 n)"
  by (simp add: toHexStr_def hex_w_def nibble_w del: upt_Suc)

lemma hash_bytes: "hash (map uint m) (Some False) = concat (map hex_w (digest_w m))"
proof -
  let ?H = "fold hash_block (message_blocks (byte_units m)) (regs_of H_init)"
  have "wregs ?H = fold compress_w (blocks_w (padded m)) (wregs (regs_of H_init))"
    using hash_blocks_w [of "message_blocks (byte_units m)"] message_blocks_16 message_blocks_w by metis
  moreover have "wregs (regs_of H_init) = regs_of (map w32 H_init)" by (simp add: wregs_def regs_of_def H_init_def)
  moreover have "map w32 (list_of_regs ?H) = list_of_regs (wregs ?H)" by (cases ?H rule: regs_cases) (simp add: list_of_regs_def wregs_def)
  ultimately have "digest_w m = map w32 (list_of_regs ?H)" by (simp add: digest_w_def)
  moreover have "toHexStr = (\<lambda>x. hex_w (w32 x))" by (rule ext) (rule toHexStr_w)
  ultimately show ?thesis by (simp add: hash_def Let_def comp_def)
qed

section \<open>UTF-8\<close>

lemma small_int32: "0 \<le> x \<Longrightarrow> x < 2147483648 \<Longrightarrow> to_int32 x = x"
  by (simp add: to_int32_def signed_take_bit_int_eq_self)

lemma or_add: "0 \<le> x \<Longrightarrow> x < 2 ^ k \<Longrightarrow> a mod 2 ^ k = 0 \<Longrightarrow> a OR x = a + x" for a x :: int
proof -
  assume x: "0 \<le> x" "x < 2 ^ k" and a: "a mod 2 ^ k = 0"
  have "take_bit k x = x" using x by (simp add: take_bit_int_eq_self)
  moreover have "take_bit k a = 0" using a by (simp add: take_bit_eq_mod)
  ultimately have "a AND x = 0" by (metis and.commute and_zero_eq take_bit_and take_bit_eq_mask and.assoc)
  then show ?thesis by (simp add: disjunctive_add_eq_or)
qed

lemma and_mod: "(x :: int) AND 63 = x mod 64" "x AND 31 = x mod 32" "x AND 15 = x mod 16"
proof -
  have "(63 :: int) = mask 6" "(31 :: int) = mask 5" "(15 :: int) = mask 4" by (simp_all add: mask_eq_exp_minus_1)
  then show "x AND 63 = x mod 64" "x AND 31 = x mod 32" "x AND 15 = x mod 16"
    by (simp_all only: flip: take_bit_eq_mask) (simp_all add: take_bit_eq_mod)
qed

lemma small_ops:
  assumes "0 \<le> x" "x < 2147483648"
  shows "js_shr x 6 = x div 64" "js_shr x 12 = x div 4096" "js_and x 63 = x mod 64" "js_and x 31 = x mod 32" "js_and x 15 = x mod 16"
  using assms by (simp_all add: js_shr_def js_and_def small_int32 and_mod drop_bit_eq_div)

lemma small_shl: "0 \<le> x \<Longrightarrow> x < 64 \<Longrightarrow> js_shl x 6 = x * 64" "0 \<le> x \<Longrightarrow> x < 64 \<Longrightarrow> js_shl x 12 = x * 4096"
  by (simp_all add: js_shl_def small_int32 push_bit_eq_mult)

lemma small_or: "0 \<le> a \<Longrightarrow> a < 65536 \<Longrightarrow> 0 \<le> x \<Longrightarrow> x < 2 ^ k \<Longrightarrow> k \<le> 16 \<Longrightarrow> a mod 2 ^ k = 0 \<Longrightarrow> js_or a x = a + x"
proof -
  assume a: "0 \<le> a" "a < 65536" "0 \<le> x" "x < 2 ^ k" "k \<le> 16" "a mod 2 ^ k = 0"
  have "(2 :: int) ^ k \<le> 2 ^ 16" using a(5) by (intro power_increasing) auto
  then have "x < 65536" using a(4) by simp
  then show ?thesis using a by (simp add: js_or_def small_int32 or_add [of x k a])
qed

lemma small_code: "0 \<le> x \<Longrightarrow> x < 65536 \<Longrightarrow> fromCharCode x = x"
  by (simp add: fromCharCode_def take_bit_int_eq_self)

lemma encode2_eq: "128 \<le> c \<Longrightarrow> c \<le> 2047 \<Longrightarrow> encode2 c = [192 + c div 64, 128 + c mod 64]"
proof -
  assume c: "128 \<le> c" "c \<le> 2047"
  then have "js_or 192 (c div 64) = 192 + c div 64" by (intro small_or [where k = 5]) auto
  moreover have "js_or 128 (c mod 64) = 128 + c mod 64" by (rule small_or [where k = 6]) auto
  moreover have "c div 64 < 32" using c by auto
  moreover have "c mod 64 < 64" "0 \<le> c mod 64" by simp_all
  ultimately show ?thesis using c by (simp add: encode2_def small_ops small_code)
qed

lemma encode3_eq:
  "2048 \<le> c \<Longrightarrow> c < 65536 \<Longrightarrow> encode3 c = [224 + c div 4096, 128 + c div 64 mod 64, 128 + c mod 64]"
proof -
  assume c: "2048 \<le> c" "c < 65536"
  then have "js_or 224 (c div 4096) = 224 + c div 4096" by (intro small_or [where k = 4]) auto
  moreover have "js_or 128 (x mod 64) = 128 + x mod 64" for x by (rule small_or [where k = 6]) auto
  moreover have "c div 4096 < 16" "c div 64 < 1024" using c by auto
  moreover have "x mod 64 < 64" "0 \<le> x mod 64" for x :: int by simp_all
  moreover have "128 + x mod 64 < 65536" for x :: int using pos_mod_bound [of 64 x] by linarith
  ultimately show ?thesis using c by (simp add: encode3_def small_ops small_code)
qed

definition enc :: "int \<Rightarrow> units" where
  "enc c = (if c < 128 then [c] else if c < 2048 then [192 + c div 64, 128 + c mod 64]
     else [224 + c div 4096, 128 + c div 64 mod 64, 128 + c mod 64])"

lemma Utf8_encode_eq: "code_units s \<Longrightarrow> Utf8_encode s = concat (map enc s)"
proof (induction s)
  case (Cons c s)
  have c: "0 \<le> c" "c < 65536" using Cons.prems by (auto simp: code_units_def)
  have "concat (map encode3 (encode2 c)) = enc c"
  proof (cases "128 \<le> c \<and> c \<le> 2047")
    case True
    have "c div 64 < 32" "c mod 64 < 64" using True by auto
    then show ?thesis using True encode2_eq [of c] by (simp add: enc_def encode3_def)
  next
    case False
    then have "encode2 c = [c]" by (auto simp: encode2_def)
    then show ?thesis using False c encode3_eq [of c] by (auto simp: enc_def encode3_def)
  qed
  moreover have "Utf8_encode s = concat (map enc s)" using Cons by (simp add: code_units_def)
  ultimately show ?case by (simp add: Utf8_encode_def)
qed (simp add: Utf8_encode_def)

lemma Utf8_encode_bytes: "code_units s \<Longrightarrow> b \<in> set (Utf8_encode s) \<Longrightarrow> 0 \<le> b \<and> b < 256"
proof -
  assume s: "code_units s" "b \<in> set (Utf8_encode s)"
  then obtain c where c: "0 \<le> c" "c < 65536" "b \<in> set (enc c)" by (auto simp: Utf8_encode_eq code_units_def)
  have "x mod 64 < 64" "0 \<le> x mod 64" for x :: int by simp_all
  moreover have "128 + x mod 64 < 256" for x :: int using pos_mod_bound [of 64 x] by linarith
  moreover have "c div 4096 < 16" "c < 2048 \<Longrightarrow> c div 64 < 32" using c by auto
  ultimately show ?thesis using c by (auto simp: enc_def split: if_splits)
qed

lemma decode3_skip: "\<not> (224 \<le> a \<and> a \<le> 239) \<Longrightarrow> decode3 (a # r) = a # decode3 r"
  by (cases "(a # r)" rule: decode3.cases) auto

lemma decode2_skip: "\<not> (192 \<le> a \<and> a \<le> 223) \<Longrightarrow> decode2 (a # r) = a # decode2 r"
  by (cases "(a # r)" rule: decode2.cases) auto

lemma mod64: "tail_byte (128 + x mod 64)" "0 \<le> 128 + x mod 64" "128 + x mod 64 < 2147483648" "(128 + x mod 64) mod 64 = x mod 64"
  using pos_mod_bound [of 64 x] pos_mod_sign [of 64 x] by (auto simp: tail_byte_def lead_mod simp del: pos_mod_bound pos_mod_sign)

lemma join64: "d = q * 64 + r \<Longrightarrow> c = d * 64 + m \<Longrightarrow> q * 4096 + r * 64 + m = c" for c d m q r :: int
  by simp

lemma decode3_bytes:
  assumes "0 \<le> q" "q < 16" "0 \<le> r" "r < 64" "0 \<le> m" "m < 64"
  shows "decode3 ((224 + q) # (128 + r) # (128 + m) # rest) = (q * 4096 + r * 64 + m) # decode3 rest"
proof -
  have "js_or (q * 4096) (r * 64) = q * 4096 + r * 64" by (rule small_or [where k = 12]) (use assms in auto)
  moreover have "js_or (q * 4096 + r * 64) m = q * 4096 + r * 64 + m" by (rule small_or [where k = 6]) (use assms in auto)
  moreover have "js_and (224 + q) 15 = q" "js_and (128 + r) 63 = r" "js_and (128 + m) 63 = m"
    using assms by (simp_all add: small_ops lead_mod)
  moreover have "fromCharCode (q * 4096 + r * 64 + m) = q * 4096 + r * 64 + m" using assms by (intro small_code) auto
  ultimately show ?thesis using assms by (simp add: tail_byte_def small_shl)
qed

lemma decode2_bytes:
  assumes "0 \<le> q" "q < 32" "0 \<le> m" "m < 64"
  shows "decode2 ((192 + q) # (128 + m) # rest) = (q * 64 + m) # decode2 rest"
proof -
  have "js_or (q * 64) m = q * 64 + m" by (rule small_or [where k = 6]) (use assms in auto)
  moreover have "js_and (192 + q) 31 = q" "js_and (128 + m) 63 = m" using assms by (simp_all add: small_ops lead_mod)
  moreover have "fromCharCode (q * 64 + m) = q * 64 + m" using assms by (intro small_code) auto
  ultimately show ?thesis using assms by (simp add: tail_byte_def small_shl)
qed

lemma decode3_enc:
  assumes "2048 \<le> c" "c < 65536"
  shows "decode3 (enc c @ r) = c # decode3 r"
proof -
  have "c div 4096 = c div 64 div 64" using zdiv_zmult2_eq [of 64 c 64] by simp
  then have "c div 4096 * 4096 + c div 64 mod 64 * 64 + c mod 64 = c"
    using join64 [OF div_mult_mod_eq [of "c div 64" 64, symmetric] div_mult_mod_eq [of c 64, symmetric]] by (simp only:)
  moreover have "0 \<le> c div 4096" "c div 4096 < 16" using assms by auto
  ultimately have "decode3 ((224 + c div 4096) # (128 + c div 64 mod 64) # (128 + c mod 64) # r) = c # decode3 r"
    using decode3_bytes [of "c div 4096" "c div 64 mod 64" "c mod 64" r] by (simp only: pos_mod_bound pos_mod_sign zero_less_numeral simp_thms)
  then show ?thesis using assms by (simp add: enc_def del: decode3.simps)
qed

lemma decode2_enc:
  assumes "128 \<le> c" "c < 2048"
  shows "decode2 (enc c @ r) = c # decode2 r"
proof -
  have "0 \<le> c div 64" "c div 64 < 32" using assms by auto
  then have "decode2 ((192 + c div 64) # (128 + c mod 64) # r) = c # decode2 r"
    using decode2_bytes [of "c div 64" "c mod 64" r] by (simp only: pos_mod_bound pos_mod_sign zero_less_numeral simp_thms div_mult_mod_eq)
  then show ?thesis using assms by (simp add: enc_def del: decode2.simps)
qed

lemma decode3_encoded:
  "code_units s \<Longrightarrow> decode3 (concat (map enc s)) = concat (map (\<lambda>c. if c < 2048 then enc c else [c]) s)"
proof (induction s)
  case (Cons c s)
  then have IH: "decode3 (concat (map enc s)) = concat (map (\<lambda>c. if c < 2048 then enc c else [c]) s)"
    and c: "0 \<le> c" "c < 65536" by (auto simp: code_units_def)
  show ?case
  proof (cases "c < 2048")
    case True
    then have "c div 64 < 32" "c mod 64 < 64" by auto
    then have "decode3 (enc c @ r) = enc c @ decode3 r" for r using True c by (auto simp: enc_def decode3_skip)
    then show ?thesis using True IH by simp
  next
    case False
    then show ?thesis using decode3_enc [of c] c IH by simp
  qed
qed simp

lemma decode2_encoded: "code_units s \<Longrightarrow> decode2 (concat (map (\<lambda>c. if c < 2048 then enc c else [c]) s)) = s"
proof (induction s)
  case (Cons c s)
  then have IH: "decode2 (concat (map (\<lambda>c. if c < 2048 then enc c else [c]) s)) = s"
    and c: "0 \<le> c" "c < 65536" by (auto simp: code_units_def)
  have "decode2 ((if c < 2048 then enc c else [c]) @ r) = c # decode2 r" for r
    using decode2_enc [of c r] c by (cases "c < 128") (auto simp: enc_def decode2_skip)
  then show ?case using IH by simp
qed simp

text \<open>C27: decoding the UTF-8 encoding of a string gives the string back, whatever code units it has.\<close>

theorem utf8_roundtrip: "code_units s \<Longrightarrow> Utf8_decode (Utf8_encode s) = s"
  by (simp add: Utf8_decode_def Utf8_encode_eq decode3_encoded decode2_encoded)

theorem utf8_roundtrip_witness: "Utf8_encode [233, 8364] = [195, 169, 226, 130, 172] \<and> Utf8_decode [195, 169, 226, 130, 172] = [233, 8364]"
  using utf8_roundtrip [of "[233, 8364]"] by code_simp

text \<open>C3: the digest the code computes with JavaScript numbers is, in hexadecimal, the digest of
  the standard on 32 bit words: of the padded UTF-8 bytes of the string, block by block.\<close>

theorem sha256_refines_standard:
  assumes "code_units s"
  shows "hash s None = concat (map hex_w (digest_w (map word_of_int (Utf8_encode s))))"
proof -
  have "uint (word_of_int b :: 8 word) = b" if "b \<in> set (Utf8_encode s)" for b
    using Utf8_encode_bytes [OF assms that] by (simp add: uint_word_of_int take_bit_int_eq_self)
  then have "Utf8_encode s = map uint (map word_of_int (Utf8_encode s) :: 8 word list)"
    by (simp add: map_idI)
  moreover have "hash s None = hash (Utf8_encode s) (Some False)" by (simp add: hash_def)
  ultimately show ?thesis using hash_bytes by metis
qed

theorem sha256_refines_standard_witness:
  "hash [115, 233] None = concat (map hex_w (digest_w [115, 195, 169]))"
proof -
  have "code_units [115, 233]" by code_simp
  moreover have "Utf8_encode [115, 233] = [115, 195, 169]" by code_simp
  ultimately show ?thesis using sha256_refines_standard [of "[115, 233]"] by simp
qed
end
