(* ===== verification/Cookie.thy ===== *)
theory Cookie
  imports Calendar
begin

text \<open>
  The cookie plugin of src/files/jquery-cookie-1.4.1.js, on UTF-16 strings: \<open>$.cookie\<close> writes
  the text of one cookie and reads the text \<open>document.cookie\<close>, \<open>$.removeCookie\<close> does both.
  \<open>encodeURIComponent\<close> and \<open>decodeURIComponent\<close> follow the language standard. What the plugin
  calls outside the language is an argument (\<open>config.defaults\<close> stays the empty object it is
  created as): \<open>JSON\<close>'s two functions, \<open>String\<close> on values that
  are no strings, and the two ends of the browser's \<open>document.cookie\<close>.
\<close>

section \<open>URI components\<close>

definition uri_plain :: "int \<Rightarrow> bool" where
  "uri_plain c \<longleftrightarrow> 48 \<le> c \<and> c \<le> 57 \<or> 65 \<le> c \<and> c \<le> 90 \<or> 97 \<le> c \<and> c \<le> 122 \<or> c \<in> set (u16 ''-_.!~*'') \<or> c = 39 \<or> c = 40 \<or> c = 41"

definition hi_surrogate :: "int \<Rightarrow> bool" where
  "hi_surrogate c \<longleftrightarrow> 55296 \<le> c \<and> c \<le> 56319"

definition lo_surrogate :: "int \<Rightarrow> bool" where
  "lo_surrogate c \<longleftrightarrow> 56320 \<le> c \<and> c \<le> 57343"

definition pair_point :: "int \<Rightarrow> int \<Rightarrow> int" where
  "pair_point c d = (c - 55296) * 1024 + (d - 56320) + 65536"

definition utf8_octets :: "int \<Rightarrow> int list" where
  "utf8_octets v =
     (if v < 128 then [v]
      else if v < 2048 then [192 + v div 64, 128 + v mod 64]
      else if v < 65536 then [224 + v div 4096, 128 + v div 64 mod 64, 128 + v mod 64]
      else [240 + v div 262144, 128 + v div 4096 mod 64, 128 + v div 64 mod 64, 128 + v mod 64])"

definition hex_unit :: "int \<Rightarrow> int" where
  "hex_unit d = (if d < 10 then 48 + d else 55 + d)"

definition percent :: "int \<Rightarrow> units" where
  "percent b = [37, hex_unit (b div 16), hex_unit (b mod 16)]"

definition percents :: "int \<Rightarrow> units" where
  "percents v = concat (map percent (utf8_octets v))"

fun encodeURIComponent :: "units \<Rightarrow> units outcome" where
  "encodeURIComponent [] = Ok []"
| "encodeURIComponent [c] =
     (if uri_plain c then Ok [c]
      else if lo_surrogate c \<or> hi_surrogate c then Throw URIError
      else Ok (percents c))"
| "encodeURIComponent (c # d # r) =
     (if uri_plain c then bind_outcome (encodeURIComponent (d # r)) (\<lambda>t. Ok (c # t))
      else if lo_surrogate c then Throw URIError
      else if hi_surrogate c then
        (if lo_surrogate d
         then bind_outcome (encodeURIComponent r) (\<lambda>t. Ok (percents (pair_point c d) @ t))
         else Throw URIError)
      else bind_outcome (encodeURIComponent (d # r)) (\<lambda>t. Ok (percents c @ t)))"

definition hex_of :: "int \<Rightarrow> int option" where
  "hex_of c =
     (if 48 \<le> c \<and> c \<le> 57 then Some (c - 48) else if 65 \<le> c \<and> c \<le> 70 then Some (c - 55)
      else if 97 \<le> c \<and> c \<le> 102 then Some (c - 87) else None)"

fun octet :: "units \<Rightarrow> (int \<times> units) option" where
  "octet (p # a # b # r) =
     (case (hex_of a, hex_of b) of
        (Some x, Some y) \<Rightarrow> if p = 37 then Some (x * 16 + y, r) else None
      | _ \<Rightarrow> None)"
| "octet _ = None"

text \<open>The continuation octets: each has the top bits 10.\<close>

fun tail_octets :: "nat \<Rightarrow> int \<Rightarrow> units \<Rightarrow> (int \<times> units) option" where
  "tail_octets 0 v s = Some (v, s)"
| "tail_octets (Suc n) v s =
     (case octet s of
        None \<Rightarrow> None
      | Some (b, r) \<Rightarrow> if b div 64 = 2 then tail_octets n (v * 64 + b mod 64) r else None)"

definition code_point :: "int \<Rightarrow> units \<Rightarrow> (int \<times> units) option" where
  "code_point b r =
     (if 192 \<le> b \<and> b < 224 then
        (case tail_octets 1 (b - 192) r of Some (v, s) \<Rightarrow> if 128 \<le> v then Some (v, s) else None | None \<Rightarrow> None)
      else if 224 \<le> b \<and> b < 240 then
        (case tail_octets 2 (b - 224) r of
           Some (v, s) \<Rightarrow> if 2048 \<le> v \<and> \<not> hi_surrogate v \<and> \<not> lo_surrogate v then Some (v, s) else None
         | None \<Rightarrow> None)
      else if 240 \<le> b \<and> b < 248 then
        (case tail_octets 3 (b - 240) r of
           Some (v, s) \<Rightarrow> if 65536 \<le> v \<and> v \<le> 1114111 then Some (v, s) else None
         | None \<Rightarrow> None)
      else None)"

definition units_of_point :: "int \<Rightarrow> units" where
  "units_of_point v =
     (if v < 65536 then [v] else [55296 + (v - 65536) div 1024, 56320 + (v - 65536) mod 1024])"

lemma octet_length: "octet s = Some (b, r) \<Longrightarrow> length r < length s"
  by (cases s rule: octet.cases) (auto split: option.splits if_splits)

lemma tail_octets_length: "tail_octets n v s = Some (w, r) \<Longrightarrow> length r \<le> length s"
proof (induction n v s rule: tail_octets.induct)
  case (2 n v s)
  then show ?case by (auto split: option.splits if_splits dest!: octet_length) fastforce
qed simp

lemma code_point_length: "code_point b r = Some (v, s) \<Longrightarrow> length s \<le> length r"
  by (auto simp: code_point_def simp del: tail_octets.simps split: option.splits if_splits dest!: tail_octets_length)

function decodeURIComponent :: "units \<Rightarrow> units outcome" where
  "decodeURIComponent [] = Ok []"
| "decodeURIComponent (c # r) =
     (if c \<noteq> 37 then bind_outcome (decodeURIComponent r) (\<lambda>t. Ok (c # t))
      else (case octet (c # r) of
              None \<Rightarrow> Throw URIError
            | Some (b, r1) \<Rightarrow>
                (if b < 128 then bind_outcome (decodeURIComponent r1) (\<lambda>t. Ok (b # t))
                 else (case code_point b r1 of
                         None \<Rightarrow> Throw URIError
                       | Some (v, r2) \<Rightarrow> bind_outcome (decodeURIComponent r2) (\<lambda>t. Ok (units_of_point v @ t))))))"
  by pat_completeness auto

termination
proof (relation "measure length", goal_cases)
  case (3 c r x y z)
  then show ?case using octet_length [of "c # r"] by auto
next
  case (4 c r x b r1 y v r2)
  then show ?case using octet_length [of "c # r"] code_point_length by fastforce
qed auto

section \<open>Configuration and values\<close>

record config =
  raw :: bool
  json :: bool

text \<open>A value is a string or something else; \<open>JSON\<close> and \<open>String\<close> are given with it.\<close>

datatype 'j cval = Str units | Val 'j

record 'j env =
  stringify :: "'j cval \<Rightarrow> units"
  json_parse :: "units \<Rightarrow> 'j cval option"
  to_string :: "'j \<Rightarrow> units"
  truthy :: "'j \<Rightarrow> bool"

definition cookie_encode :: "config \<Rightarrow> units \<Rightarrow> units outcome" where
  "cookie_encode cfg s = (if raw cfg then Ok s else encodeURIComponent s)"

definition cookie_decode :: "config \<Rightarrow> units \<Rightarrow> units outcome" where
  "cookie_decode cfg s = (if raw cfg then Ok s else decodeURIComponent s)"

definition string_of_value :: "'j env \<Rightarrow> 'j cval \<Rightarrow> units" where
  "string_of_value ev v = (case v of Str s \<Rightarrow> s | Val x \<Rightarrow> to_string ev x)"

definition stringifyCookieValue :: "config \<Rightarrow> 'j env \<Rightarrow> 'j cval \<Rightarrow> units outcome" where
  "stringifyCookieValue cfg ev value =
     cookie_encode cfg (if json cfg then stringify ev value else string_of_value ev value)"

text \<open>The two replacements inside a quoted value; the backslash is code unit 92.\<close>

fun replace_pair :: "int \<Rightarrow> int \<Rightarrow> int \<Rightarrow> units \<Rightarrow> units" where
  "replace_pair a b c (x # y # r) = (if x = a \<and> y = b then c # replace_pair a b c r else x # replace_pair a b c (y # r))"
| "replace_pair a b c r = r"

definition unquote :: "units \<Rightarrow> units" where
  "unquote s =
     (if s \<noteq> [] \<and> hd s = 34 then replace_pair 92 92 92 (replace_pair 92 34 34 (butlast (tl s))) else s)"

definition pluses :: "units \<Rightarrow> units" where
  "pluses s = map (\<lambda>c. if c = 43 then 32 else c) s"

text \<open>Undefined, as \<open>None\<close>, when the value cannot be decoded or parsed.\<close>

definition parseCookieValue :: "config \<Rightarrow> 'j env \<Rightarrow> units \<Rightarrow> 'j cval option" where
  "parseCookieValue cfg ev s =
     (case decodeURIComponent (pluses (unquote s)) of
        Throw _ \<Rightarrow> None
      | Ok t \<Rightarrow> if json cfg then json_parse ev t else Some (Str t))"

definition cookie_read :: "config \<Rightarrow> 'j env \<Rightarrow> ('j cval option \<Rightarrow> 'j cval option) option \<Rightarrow> units \<Rightarrow> 'j cval option" where
  "cookie_read cfg ev converter s =
     (let value = (if raw cfg then Some (Str s) else parseCookieValue cfg ev s)
      in case converter of Some f \<Rightarrow> f value | None \<Rightarrow> value)"

section \<open>Writing\<close>

datatype expiry = Days int | At int

record cookie_options =
  expires :: "expiry option"
  path :: "units option"
  domain :: "units option"
  secure :: bool

definition no_options :: cookie_options where
  "no_options = \<lparr>expires = None, path = None, domain = None, secure = False\<rparr>"

text \<open>\<open>Date.prototype.toUTCString\<close>.\<close>

definition toUTCString :: "int \<Rightarrow> string" where
  "toUTCString ms =
     (let dayno = ms div 86400000; tod = ms mod 86400000; c = make_civil 1970 0 (1 + dayno) tod
      in day_names ! nat ((dayno + 4) mod 7) @ '', '' @ twoDigit (c_day c) @ '' '' @ month_names ! nat (c_month c) @ '' ''
         @ int_str (c_year c) @ '' '' @ twoDigit (tod div 3600000) @ '':'' @ twoDigit (tod div 60000 mod 60) @ '':''
         @ twoDigit (tod div 1000 mod 60) @ '' GMT'')"

definition expiry_time :: "int \<Rightarrow> expiry \<Rightarrow> int" where
  "expiry_time now e = (case e of Days d \<Rightarrow> now + d * 86400000 | At t \<Rightarrow> t)"

definition attribute_text :: "string \<Rightarrow> units option \<Rightarrow> units" where
  "attribute_text name v = (case v of Some t \<Rightarrow> if t = [] then [] else u16 name @ t | None \<Rightarrow> [])"

definition attributes_text :: "int \<Rightarrow> cookie_options \<Rightarrow> units" where
  "attributes_text now opts =
     attribute_text ''; expires='' (map_option (\<lambda>e. u16 (toUTCString (expiry_time now e))) (expires opts))
     @ attribute_text ''; path='' (path opts)
     @ attribute_text ''; domain='' (domain opts)
     @ (if secure opts then u16 ''; secure'' else [])"

text \<open>The text that is assigned to \<open>document.cookie\<close>.\<close>

definition cookie_text :: "config \<Rightarrow> 'j env \<Rightarrow> int \<Rightarrow> units \<Rightarrow> 'j cval \<Rightarrow> cookie_options \<Rightarrow> units outcome" where
  "cookie_text cfg ev now key value opts =
     bind_outcome (cookie_encode cfg key) (\<lambda>k.
       bind_outcome (stringifyCookieValue cfg ev value) (\<lambda>v.
         Ok (k @ u16 ''='' @ v @ attributes_text now opts)))"

section \<open>Reading\<close>

function split_str :: "'a list \<Rightarrow> 'a list \<Rightarrow> 'a list list" where
  "split_str sep [] = [[]]"
| "split_str sep (x # xs) =
     (if sep \<noteq> [] \<and> starts_with sep (x # xs) then [] # split_str sep (drop (length sep) (x # xs))
      else (case split_str sep xs of [] \<Rightarrow> [[x]] | p # ps \<Rightarrow> (x # p) # ps))"
  by pat_completeness auto

termination
  by (relation "measure (\<lambda>(sep, s). length s)") auto

definition cookie_list :: "units \<Rightarrow> units list" where
  "cookie_list document_cookie = (if document_cookie = [] then [] else split_str (u16 ''; '') document_cookie)"

definition cookie_name :: "units \<Rightarrow> units" where
  "cookie_name c = hd (split_chr 61 c)"

definition cookie_value :: "units \<Rightarrow> units" where
  "cookie_value c = join_str (u16 ''='') (tl (split_chr 61 c))"

text \<open>The loop for one key: a name that cannot be decoded ends the call with an error.\<close>

fun find_cookie :: "config \<Rightarrow> (units \<Rightarrow> 'r) \<Rightarrow> units \<Rightarrow> units list \<Rightarrow> 'r option outcome" where
  "find_cookie cfg rd key [] = Ok None"
| "find_cookie cfg rd key (c # cs) =
     (case cookie_decode cfg (cookie_name c) of
        Throw e \<Rightarrow> Throw e
      | Ok n \<Rightarrow> if key = n then Ok (Some (rd (cookie_value c))) else find_cookie cfg rd key cs)"

text \<open>\<open>$.cookie(key)\<close> and \<open>$.cookie(key, converter)\<close> for a non-empty key.\<close>

definition cookie_get ::
  "config \<Rightarrow> 'j env \<Rightarrow> ('j cval option \<Rightarrow> 'j cval option) option \<Rightarrow> units \<Rightarrow> units \<Rightarrow> 'j cval option outcome" where
  "cookie_get cfg ev converter document_cookie key =
     (case find_cookie cfg (cookie_read cfg ev converter) key (cookie_list document_cookie) of
        Throw e \<Rightarrow> Throw e
      | Ok None \<Rightarrow> Ok None
      | Ok (Some r) \<Rightarrow> Ok r)"

text \<open>\<open>$.cookie()\<close>: all cookies, the last one of a name, without those that cannot be decoded.\<close>

fun put_cookie :: "units \<Rightarrow> 'v \<Rightarrow> (units \<times> 'v) list \<Rightarrow> (units \<times> 'v) list" where
  "put_cookie n v [] = [(n, v)]"
| "put_cookie n v ((m, w) # r) = (if n = m then (n, v) # r else (m, w) # put_cookie n v r)"

fun all_cookies ::
  "config \<Rightarrow> 'j env \<Rightarrow> units list \<Rightarrow> (units \<times> 'j cval) list \<Rightarrow> (units \<times> 'j cval) list outcome" where
  "all_cookies cfg ev [] acc = Ok acc"
| "all_cookies cfg ev (c # cs) acc =
     (case cookie_decode cfg (cookie_name c) of
        Throw e \<Rightarrow> Throw e
      | Ok n \<Rightarrow>
          (case cookie_read cfg ev None (cookie_value c) of
             None \<Rightarrow> all_cookies cfg ev cs acc
           | Some v \<Rightarrow> all_cookies cfg ev cs (put_cookie n v acc)))"

definition cookie_all :: "config \<Rightarrow> 'j env \<Rightarrow> units \<Rightarrow> (units \<times> 'j cval) list outcome" where
  "cookie_all cfg ev document_cookie = all_cookies cfg ev (cookie_list document_cookie) []"

section \<open>Removing\<close>

text \<open>
  The browser is given by the getter and the setter of \<open>document.cookie\<close> on its state. An empty
  string counts as no cookie in the last test.
\<close>

definition no_cookie :: "'j env \<Rightarrow> 'j cval option \<Rightarrow> bool" where
  "no_cookie ev v \<longleftrightarrow> (case v of None \<Rightarrow> True | Some (Str t) \<Rightarrow> t = [] | Some (Val x) \<Rightarrow> \<not> truthy ev x)"

record 'b browser =
  doc_get :: "'b \<Rightarrow> units"
  doc_set :: "units \<Rightarrow> 'b \<Rightarrow> 'b"

definition removeCookie ::
  "config \<Rightarrow> 'j env \<Rightarrow> 'b browser \<Rightarrow> int \<Rightarrow> units \<Rightarrow> cookie_options \<Rightarrow> 'b \<Rightarrow> bool outcome \<times> 'b" where
  "removeCookie cfg ev br now key opts b =
     (case cookie_get cfg ev None (doc_get br b) key of
        Throw e \<Rightarrow> (Throw e, b)
      | Ok None \<Rightarrow> (Ok False, b)
      | Ok (Some _) \<Rightarrow>
          (case cookie_text cfg ev now key (Str []) (opts\<lparr>expires := Some (Days (-1))\<rparr>) of
             Throw e \<Rightarrow> (Throw e, b)
           | Ok t \<Rightarrow>
               (let b' = doc_set br t b
                in case cookie_get cfg ev None (doc_get br b') key of
                     Throw e \<Rightarrow> (Throw e, b')
                   | Ok v \<Rightarrow> (Ok (no_cookie ev v), b'))))"

end
