(* ===== verification/Cookie_Props.thy ===== *)
theory Cookie_Props
  imports Cookie
begin

text \<open>
  What was encoded as a URI component decodes to the same string, and a cookie that was written
  is read back.
\<close>

section \<open>Decoding what was encoded\<close>

lemma hex_of_unit: "0 \<le> d \<Longrightarrow> d < 16 \<Longrightarrow> hex_of (hex_unit d) = Some d"
  by (auto simp: hex_of_def hex_unit_def)

lemma octet_percent: "0 \<le> b \<Longrightarrow> b < 256 \<Longrightarrow> octet (percent b @ r) = Some (b, r)"
proof -
  assume b: "0 \<le> b" "b < 256"
  then have "0 \<le> b div 16" "b div 16 < 16" "0 \<le> b mod 16" "b mod 16 < 16" by auto
  then show ?thesis by (simp add: percent_def hex_of_unit)
qed

lemma tail_octet_step:
  assumes "0 \<le> a" "a < 64"
  shows "tail_octets (Suc n) v (percent (128 + a) @ r) = tail_octets n (v * 64 + a) r"
proof -
  have "(128 + a) div 64 = 2 \<and> (128 + a) mod 64 = a" using assms lead_mod(3) [of a] by auto
  then show ?thesis using assms by (simp add: octet_percent)
qed

lemma decode_octet:
  "0 \<le> b \<Longrightarrow> b < 256 \<Longrightarrow> decodeURIComponent (percent b @ r) =
     (if b < 128 then bind_outcome (decodeURIComponent r) (\<lambda>t. Ok (b # t))
      else (case code_point b r of
              None \<Rightarrow> Throw URIError
            | Some (v, r2) \<Rightarrow> bind_outcome (decodeURIComponent r2) (\<lambda>t. Ok (units_of_point v @ t))))"
  using octet_percent [of b r] by (simp add: percent_def)

declare decodeURIComponent.simps [simp del]

lemma tails_eq: "tail_octets 1 v s = tail_octets (Suc 0) v s" "tail_octets 2 v s = tail_octets (Suc (Suc 0)) v s"
  "tail_octets 3 v s = tail_octets (Suc (Suc (Suc 0))) v s"
  by (simp_all add: numeral_2_eq_2 numeral_3_eq_3 del: tail_octets.simps)

lemma point2:
  assumes "0 \<le> q" "q < 32" "0 \<le> a" "a < 64" "128 \<le> q * 64 + a"
  shows "code_point (192 + q) (percent (128 + a) @ r) = Some (q * 64 + a, r)"
  using assms by (simp add: code_point_def tails_eq tail_octet_step del: tail_octets.simps(2))

lemma point3:
  assumes "0 \<le> q" "q < 16" "0 \<le> a" "a < 64" "0 \<le> b" "b < 64"
    "2048 \<le> (q * 64 + a) * 64 + b" "\<not> hi_surrogate ((q * 64 + a) * 64 + b)" "\<not> lo_surrogate ((q * 64 + a) * 64 + b)"
  shows "code_point (224 + q) (percent (128 + a) @ percent (128 + b) @ r) = Some ((q * 64 + a) * 64 + b, r)"
  using assms by (simp add: code_point_def tails_eq tail_octet_step del: tail_octets.simps(2))

lemma point4:
  assumes "0 \<le> q" "q < 8" "0 \<le> a" "a < 64" "0 \<le> b" "b < 64" "0 \<le> c" "c < 64"
    "65536 \<le> ((q * 64 + a) * 64 + b) * 64 + c" "((q * 64 + a) * 64 + b) * 64 + c \<le> 1114111"
  shows "code_point (240 + q) (percent (128 + a) @ percent (128 + b) @ percent (128 + c) @ r) = Some (((q * 64 + a) * 64 + b) * 64 + c, r)"
  using assms by (simp add: code_point_def tails_eq tail_octet_step del: tail_octets.simps(2))

definition scalar :: "int \<Rightarrow> bool" where
  "scalar v \<longleftrightarrow> 0 \<le> v \<and> v \<le> 1114111 \<and> \<not> hi_surrogate v \<and> \<not> lo_surrogate v"

lemma digits64: "v div 4096 = v div 64 div 64" "v div 262144 = v div 64 div 64 div 64" for v :: int
  using zdiv_zmult2_eq [of 64 v 64] zdiv_zmult2_eq [of 64 v 4096] zdiv_zmult2_eq [of 64 "v div 64" 64] by simp_all

lemma mod64_bounds: "0 \<le> v mod 64" "v mod 64 < 64" for v :: int
  by simp_all

lemma decode_percents:
  assumes "scalar v"
  shows "decodeURIComponent (percents v @ r) = bind_outcome (decodeURIComponent r) (\<lambda>t. Ok (units_of_point v @ t))"
proof -
  define d1 d2 d3 where d: "d1 = v div 64" "d2 = d1 div 64" "d3 = d2 div 64"
  define m0 m1 m2 where m: "m0 = v mod 64" "m1 = d1 mod 64" "m2 = d2 mod 64"
  have v: "v = d1 * 64 + m0" "d1 = d2 * 64 + m1" "d2 = d3 * 64 + m2" by (simp_all add: d m)
  have b: "0 \<le> m0" "m0 < 64" "0 \<le> m1" "m1 < 64" "0 \<le> m2" "m2 < 64" by (simp_all add: m)
  have oct: "utf8_octets v =
     (if v < 128 then [v] else if v < 2048 then [192 + d1, 128 + m0]
      else if v < 65536 then [224 + d2, 128 + m1, 128 + m0] else [240 + d3, 128 + m2, 128 + m1, 128 + m0])"
    by (simp add: utf8_octets_def d m digits64)
  consider "v < 128" | "128 \<le> v" "v < 2048" | "2048 \<le> v" "v < 65536" | "65536 \<le> v" by linarith
  then show ?thesis
  proof cases
    case 1
    then show ?thesis using assms oct by (simp add: percents_def scalar_def units_of_point_def decode_octet)
  next
    case 2
    then have "0 \<le> d1" "d1 < 32" using v b by linarith+
    then show ?thesis using 2 oct point2 [of d1 m0 r] b v by (simp add: percents_def decode_octet)
  next
    case 3
    then have q: "0 \<le> d2" "d2 < 16" using v b by linarith+
    have "(d2 * 64 + m1) * 64 + m0 = v" using v by simp
    then have "code_point (224 + d2) (percent (128 + m1) @ percent (128 + m0) @ r) = Some (v, r)"
      using point3 [OF q b(3,4,1,2), of r] 3 assms by (simp add: scalar_def)
    then show ?thesis using 3 oct q by (simp add: percents_def decode_octet)
  next
    case 4
    have "v \<le> 1114111" using assms by (simp add: scalar_def)
    then have q: "0 \<le> d3" "d3 < 8" using v b 4 by linarith+
    have "((d3 * 64 + m2) * 64 + m1) * 64 + m0 = v" using v by simp
    then have "code_point (240 + d3) (percent (128 + m2) @ percent (128 + m1) @ percent (128 + m0) @ r) = Some (v, r)"
      using point4 [OF q b(5,6,3,4,1,2), of r] 4 \<open>v \<le> 1114111\<close> by simp
    then show ?thesis using 4 oct q by (simp add: percents_def decode_octet)
  qed
qed

lemma uri_plain_unit: "uri_plain c \<Longrightarrow> c \<noteq> 37 \<and> c \<noteq> 43 \<and> c \<noteq> 34 \<and> c \<noteq> 32 \<and> c \<noteq> 59 \<and> c \<noteq> 61"
  by (auto simp: uri_plain_def u16_def)

lemma decode_plain: "uri_plain c \<Longrightarrow> decodeURIComponent (c # r) = bind_outcome (decodeURIComponent r) (\<lambda>t. Ok (c # t))"
  using uri_plain_unit by (simp add: decodeURIComponent.simps)

lemma decode_bmp:
  "0 \<le> c \<Longrightarrow> c < 65536 \<Longrightarrow> \<not> lo_surrogate c \<Longrightarrow> \<not> hi_surrogate c \<Longrightarrow>
   decodeURIComponent (percents c @ r) = bind_outcome (decodeURIComponent r) (\<lambda>t. Ok (c # t))"
  using decode_percents [of c r] by (simp add: scalar_def units_of_point_def)

lemma decode_pair:
  assumes "hi_surrogate c" "lo_surrogate d"
  shows "decodeURIComponent (percents (pair_point c d) @ r) =
    bind_outcome (decodeURIComponent r) (\<lambda>t. Ok (c # d # t))"
proof -
  let ?v = "pair_point c d"
  have "?v - 65536 = (d - 56320) + (c - 55296) * 1024" by (simp add: pair_point_def)
  moreover have d: "0 \<le> d - 56320" "d - 56320 < 1024" using assms(2) by (auto simp: lo_surrogate_def)
  ultimately have "(?v - 65536) div 1024 = c - 55296" "(?v - 65536) mod 1024 = d - 56320"
    by (simp_all only: div_mult_self1 mod_mult_self1 div_pos_pos_trivial mod_pos_pos_trivial)
  moreover have "65536 \<le> ?v" "scalar ?v" using assms by (auto simp: scalar_def pair_point_def hi_surrogate_def lo_surrogate_def)
  ultimately show ?thesis using decode_percents [of ?v r] by (simp add: units_of_point_def)
qed

lemma decode_encode: "code_units s \<Longrightarrow> encodeURIComponent s = Ok t \<Longrightarrow> decodeURIComponent t = Ok s"
proof (induction s arbitrary: t rule: encodeURIComponent.induct)
  case 1
  then show ?case by (simp add: decodeURIComponent.simps)
next
  case (2 c)
  then show ?case
    using decode_bmp [of c "[]"] decode_plain [of c "[]"]
    by (auto simp: code_units_def decodeURIComponent.simps(1) split: if_splits)
next
  case (3 c d r)
  have c: "0 \<le> c" "c < 65536" "code_units (d # r)" "code_units r" using "3.prems"(1) by (auto simp: code_units_def)
  show ?case
  proof (cases "uri_plain c")
    case True
    then show ?thesis using "3.IH"(1) "3.prems"(2) c by (auto simp: bind_outcome_eq_Ok decode_plain)
  next
    case False
    show ?thesis
    proof (cases "hi_surrogate c")
      case True
      then show ?thesis
        using False "3.IH"(2) "3.prems"(2) c by (auto simp: bind_outcome_eq_Ok decode_pair split: if_splits)
    next
      case bmp: False
      then show ?thesis
        using False "3.IH"(3) "3.prems"(2) c by (auto simp: bind_outcome_eq_Ok decode_bmp split: if_splits)
    qed
  qed
qed

text \<open>The encoded text has only unreserved characters and percent signs.\<close>

definition safe_unit :: "int \<Rightarrow> bool" where
  "safe_unit c \<longleftrightarrow> uri_plain c \<or> c = 37"

lemma plain_safe: "uri_plain c \<Longrightarrow> safe_unit c"
  by (simp add: safe_unit_def)

lemma hex_unit_safe: "0 \<le> d \<Longrightarrow> d < 16 \<Longrightarrow> safe_unit (hex_unit d)"
  by (auto simp: safe_unit_def hex_unit_def uri_plain_def)

lemma percent_safe: "0 \<le> b \<Longrightarrow> b < 256 \<Longrightarrow> list_all safe_unit (percent b)"
proof -
  assume b: "0 \<le> b" "b < 256"
  then have "0 \<le> b div 16" "b div 16 < 16" "0 \<le> b mod 16" "b mod 16 < 16" by auto
  then show ?thesis using hex_unit_safe by (simp add: percent_def) (simp add: safe_unit_def)
qed

lemma octets_bytes: "0 \<le> v \<Longrightarrow> v \<le> 1114111 \<Longrightarrow> b \<in> set (utf8_octets v) \<Longrightarrow> 0 \<le> b \<and> b < 256"
proof -
  assume v: "0 \<le> v" "v \<le> 1114111" and b: "b \<in> set (utf8_octets v)"
  have m: "0 \<le> x mod 64" "128 + x mod 64 < 256" "0 \<le> 128 + x mod 64" for x :: int
    using mod64_bounds [of x] by (simp_all del: pos_mod_bound)
  have "v div 262144 < 16" "0 \<le> v div 262144" "0 \<le> v div 4096" "0 \<le> v div 64" using v by auto
  moreover have "v < 65536 \<Longrightarrow> v div 4096 < 16" "v < 2048 \<Longrightarrow> v div 64 < 32" by auto
  ultimately show ?thesis using b m v by (auto simp: utf8_octets_def split: if_splits)
qed

lemma percents_safe: "0 \<le> v \<Longrightarrow> v \<le> 1114111 \<Longrightarrow> list_all safe_unit (percents v)"
  using percent_safe octets_bytes unfolding percents_def list_all_iff by auto

lemma encode_safe: "code_units s \<Longrightarrow> encodeURIComponent s = Ok t \<Longrightarrow> list_all safe_unit t"
proof (induction s arbitrary: t rule: encodeURIComponent.induct)
  case (2 c)
  then show ?case using percents_safe [of c] plain_safe [of c] by (auto simp: code_units_def split: if_splits)
next
  case (3 c d r)
  have c: "0 \<le> c" "c < 65536" "code_units (d # r)" "code_units r" using "3.prems"(1) by (auto simp: code_units_def)
  have "list_all safe_unit (percents (pair_point c d))" if "hi_surrogate c" "lo_surrogate d"
    using that by (intro percents_safe) (auto simp: pair_point_def hi_surrogate_def lo_surrogate_def)
  moreover have "list_all safe_unit (percents c)" using c by (intro percents_safe) auto
  ultimately show ?case
    using "3.IH" "3.prems"(2) c plain_safe [of c] by (auto simp: bind_outcome_eq_Ok split: if_splits)
qed simp

section \<open>Reading what was written\<close>

lemma split_str_plain: "s0 \<notin> set p \<Longrightarrow> split_str (s0 # sep) p = [p]"
  by (induction p) auto

lemma split_str_step:
  "s0 \<notin> set p \<Longrightarrow> split_str (s0 # sep) (p @ (s0 # sep) @ r) = p # split_str (s0 # sep) r"
proof (induction p)
  case Nil
  have "starts_with (s0 # sep) ((s0 # sep) @ r)" using starts_with_iff by blast
  then show ?case by simp
qed simp

lemma split_str_join:
  "ps \<noteq> [] \<Longrightarrow> \<forall>p\<in>set ps. s0 \<notin> set p \<Longrightarrow> split_str (s0 # sep) (join_str (s0 # sep) ps) = ps"
proof (induction "s0 # sep" ps rule: join_str.induct)
  case (3 p q ps)
  then show ?case using split_str_step [of s0 p sep "join_str (s0 # sep) (q # ps)"] by simp
qed (simp_all add: split_str_plain)

lemma safe_not: "list_all safe_unit t \<Longrightarrow> 59 \<notin> set t \<and> 61 \<notin> set t \<and> 43 \<notin> set t \<and> 34 \<notin> set t"
proof -
  assume t: "list_all safe_unit t"
  have "safe_unit c \<Longrightarrow> c \<noteq> 59 \<and> c \<noteq> 61 \<and> c \<noteq> 43 \<and> c \<noteq> 34" for c
    using uri_plain_unit [of c] by (cases "c = 37") (simp_all add: safe_unit_def)
  then show ?thesis using t unfolding list_all_iff by blast
qed

lemma cookie_pair:
  assumes "61 \<notin> set k"
  shows "cookie_name (k @ u16 ''='' @ w) = k" "cookie_value (k @ u16 ''='' @ w) = w"
proof -
  have e: "u16 ''='' = [61]" by (simp add: u16_def)
  show "cookie_name (k @ u16 ''='' @ w) = k" "cookie_value (k @ u16 ''='' @ w) = w"
    using assms join_split [of 61 w] by (simp_all add: cookie_name_def cookie_value_def e split_chr_append_sep)
qed

lemma find_cookie_skip:
  "\<forall>c\<in>set pre. \<exists>n. cookie_decode cfg (cookie_name c) = Ok n \<and> n \<noteq> key \<Longrightarrow>
   find_cookie cfg rd key (pre @ cs) = find_cookie cfg rd key cs"
  by (induction pre) fastforce+

lemma parse_encoded:
  assumes "code_units v" "encodeURIComponent v = Ok w" "\<not> json cfg"
  shows "parseCookieValue cfg ev w = Some (Str v)"
proof -
  have s: "34 \<notin> set w" "43 \<notin> set w" using safe_not [OF encode_safe [OF assms(1,2)]] by auto
  then have "unquote w = w" by (cases w) (auto simp: unquote_def)
  moreover have "pluses w = w" using s(2) by (auto simp: pluses_def intro!: map_idI)
  ultimately show ?thesis using decode_encode [OF assms(1,2)] assms(3) by (simp add: parseCookieValue_def)
qed

definition starts_semi :: "units \<Rightarrow> bool" where
  "starts_semi s \<longleftrightarrow> s = [] \<or> hd s = 59"

lemma starts_semi_append: "starts_semi s \<Longrightarrow> starts_semi t \<Longrightarrow> starts_semi (s @ t)"
  by (cases s) (auto simp: starts_semi_def)

lemma attribute_semi: "hd name = CHR '';'' \<Longrightarrow> name \<noteq> [] \<Longrightarrow> starts_semi (attribute_text name v)"
  by (cases name) (auto simp: attribute_text_def starts_semi_def u16_def split: option.splits)

lemma takeWhile_semi: "59 \<notin> set s \<Longrightarrow> starts_semi t \<Longrightarrow> takeWhile (\<lambda>c. c \<noteq> 59) (s @ t) = s"
proof -
  assume s: "59 \<notin> set s" "starts_semi t"
  have "takeWhile (\<lambda>c. c \<noteq> 59) (s @ t) = s @ takeWhile (\<lambda>c. c \<noteq> 59) t" using s(1) by (intro takeWhile_append2) auto
  then show ?thesis using s(2) by (cases t) (auto simp: starts_semi_def)
qed

abbreviation plain_config :: config where
  "plain_config \<equiv> \<lparr>raw = False, json = False\<rparr>"

lemma cookie_text_pair:
  assumes "code_units key" "code_units v" "cookie_text plain_config ev now key (Str v) opts = Ok t"
  obtains k w where "encodeURIComponent key = Ok k" "encodeURIComponent v = Ok w"
    "takeWhile (\<lambda>c. c \<noteq> 59) t = k @ u16 ''='' @ w"
proof -
  obtain k w where k: "encodeURIComponent key = Ok k" and w: "encodeURIComponent v = Ok w"
    and t: "t = (k @ u16 ''='' @ w) @ attributes_text now opts"
    using assms(3)
    by (auto simp: cookie_text_def cookie_encode_def stringifyCookieValue_def string_of_value_def bind_outcome_eq_Ok)
  have a: "starts_semi (attributes_text now opts)"
    unfolding attributes_text_def
    by (intro starts_semi_append attribute_semi) (simp_all add: starts_semi_def u16_def)
  have "59 \<notin> set (k @ u16 ''='' @ w)"
    using safe_not [OF encode_safe [OF assms(1) k]] safe_not [OF encode_safe [OF assms(2) w]] by (simp add: u16_def)
  then show ?thesis using that [OF k w] takeWhile_semi [OF _ a] t by blast
qed

lemma cookie_read_back:
  assumes "code_units key" "code_units v" "cookie_text plain_config ev now key (Str v) opts = Ok t"
    and "\<forall>c\<in>set pre. 59 \<notin> set c \<and> (\<exists>n. decodeURIComponent (cookie_name c) = Ok n \<and> n \<noteq> key)"
    and "\<forall>c\<in>set post. 59 \<notin> set c"
  shows "cookie_get plain_config ev None (join_str (u16 ''; '') (pre @ [takeWhile (\<lambda>c. c \<noteq> 59) t] @ post)) key = Ok (Some (Str v))"
proof -
  obtain k w where k: "encodeURIComponent key = Ok k" and w: "encodeURIComponent v = Ok w"
    and pair: "takeWhile (\<lambda>c. c \<noteq> 59) t = k @ u16 ''='' @ w"
    using cookie_text_pair [OF assms(1-3)] .
  let ?cs = "pre @ [k @ u16 ''='' @ w] @ post"
  have sep: "u16 ''; '' = [59, 32]" and eq: "u16 ''='' = [61]" by (simp_all add: u16_def)
  have k': "59 \<notin> set k" "61 \<notin> set k" and w': "59 \<notin> set w"
    using safe_not [OF encode_safe [OF assms(1) k]] safe_not [OF encode_safe [OF assms(2) w]] by auto
  have "\<forall>c\<in>set ?cs. 59 \<notin> set c" using assms(4,5) k' w' eq by auto
  then have "split_str [59, 32] (join_str [59, 32] ?cs) = ?cs" by (intro split_str_join) auto
  moreover have "join_str [59, 32] ?cs \<noteq> []"
    using calculation by (cases "join_str [59, 32] ?cs") (auto simp: Cons_eq_append_conv eq)
  ultimately have list: "cookie_list (join_str [59, 32] ?cs) = ?cs" by (simp add: cookie_list_def sep)
  have skip: "find_cookie plain_config rd key (pre @ [k @ u16 ''='' @ w] @ post) = find_cookie plain_config rd key ([k @ u16 ''='' @ w] @ post)" for rd
    by (rule find_cookie_skip) (use assms(4) in \<open>auto simp: cookie_decode_def\<close>)
  have "cookie_read plain_config ev None w = Some (Str v)"
    using parse_encoded [OF assms(2) w, of plain_config ev] by (simp add: cookie_read_def)
  then show ?thesis
    using decode_encode [OF assms(1) k]
    by (simp add: pair sep cookie_get_def list [simplified] skip [simplified] cookie_pair [OF k'(2)] cookie_decode_def)
qed


definition demo_env :: "unit env" where
  "demo_env = \<lparr>stringify = (\<lambda>_. []), json_parse = (\<lambda>_. None), to_string = (\<lambda>_. []), truthy = (\<lambda>_. True)\<rparr>"


text \<open>A cookie whose name is no valid encoding makes every read behind it fail, although its
  value is only ignored when it cannot be decoded.\<close>

theorem malformed_name_blocks_reads:
  "cookie_get plain_config ev None (u16 ''%=1; login=a'') (u16 ''login'') = Throw URIError \<and>
   cookie_get plain_config ev None (u16 ''x=%; login=a'') (u16 ''login'') = Ok (Some (Str (u16 ''a'')))"
proof -
  have l: "cookie_list (u16 ''%=1; login=a'') = [u16 ''%=1'', u16 ''login=a'']"
    "cookie_list (u16 ''x=%; login=a'') = [u16 ''x=%'', u16 ''login=a'']" by code_simp+
  have d: "decodeURIComponent (cookie_name (u16 ''%=1'')) = Throw URIError"
    "decodeURIComponent (cookie_name (u16 ''x=%'')) = Ok (u16 ''x'')"
    "decodeURIComponent (cookie_name (u16 ''login=a'')) = Ok (u16 ''login'')"
    "decodeURIComponent (pluses (unquote (cookie_value (u16 ''login=a'')))) = Ok (u16 ''a'')" by code_simp+
  have "u16 ''login'' \<noteq> u16 ''x''" by code_simp
  then show ?thesis by (simp add: cookie_get_def l cookie_decode_def d cookie_read_def parseCookieValue_def)
qed

end
