(* ===== verification/Legend.thy ===== *)
theory Legend
  imports Util Complex_Main
begin

text \<open>
  The legend plugin of src/files/istatd-legend.js: the handlers Dygraph calls (\<open>activate\<close>,
  \<open>select\<close>, \<open>deselect\<close>, \<open>didDrawChart\<close>, \<open>predraw\<close>, \<open>destroy\<close>) on the plugin's state and
  the elements it writes, and the two generators of HTML. What Dygraph's accessors return is a
  record; the text of a number, the width the browser measures and \<open>Dygraph.update\<close> are arguments.
\<close>

section \<open>State\<close>

record ldiv =
  d_class :: string
  d_html :: string
  d_style :: "string jsobj"

text \<open>The elements by address; \<open>graph_children\<close> are the ones appended to the graph's element.\<close>

record dom =
  elements :: "nat \<Rightarrow> ldiv"
  ids :: "string \<Rightarrow> nat option"
  graph_children :: "nat list"
  fresh :: nat

record legend =
  legend_div :: "nat option"
  is_generated_div :: bool
  one_em_width :: nat

datatype labels_div = NoDiv | DivId string | DivElem nat

record series_props =
  visible :: bool
  color :: string

record dygraph =
  labelsDivWidth :: int
  labelsDiv :: labels_div
  labelsDivStyles :: "string jsobj"
  graph_width :: int
  showLabelsOnHighlight :: bool
  legend_option :: string
  labelsSeparateLines :: bool
  labels :: "string list"
  properties :: "string \<Rightarrow> series_props"
  strokePattern :: "string \<Rightarrow> nat list"
  area_x :: int
  area_y :: int
  area_w :: int

record host =
  show_num :: "rat option \<Rightarrow> string"
  style_update :: "string jsobj \<Rightarrow> string jsobj \<Rightarrow> string jsobj"
  style_ok :: "string \<Rightarrow> bool"
  user_agent :: string
  opera :: bool

definition new_legend :: legend where
  "new_legend = \<lparr>legend_div = None, is_generated_div = False, one_em_width = 0\<rparr>"

definition px :: "int \<Rightarrow> string" where
  "px n = int_str n @ ''px''"

section \<open>Activation\<close>

definition message_style :: "dygraph \<Rightarrow> string jsobj" where
  "message_style g = [
     (''position'', ''absolute''), (''fontSize'', ''14px''), (''zIndex'', ''10''),
     (''width'', px (labelsDivWidth g)), (''top'', ''0px''),
     (''left'', px (graph_width g - labelsDivWidth g - 2)),
     (''background'', ''white''), (''lineHeight'', ''normal''), (''textAlign'', ''left''), (''overflow'', ''hidden'')]"

text \<open>
  A style the browser refuses is meant to give a warning; the plugin has no method \<open>warn\<close>, so
  the handler of the exception throws itself.
\<close>

fun set_styles :: "(string \<Rightarrow> bool) \<Rightarrow> (string \<times> string) list \<Rightarrow> ldiv \<Rightarrow> ldiv outcome" where
  "set_styles ok [] d = Ok d"
| "set_styles ok ((k, v) # r) d =
     (if ok k then set_styles ok r (d\<lparr>d_style := oset k v (d_style d)\<rparr>)
      else Throw (TypeError ''this.warn is not a function''))"

definition generated_div :: "host \<Rightarrow> dygraph \<Rightarrow> ldiv outcome" where
  "generated_div h g =
     (let st = style_update h (message_style g) (labelsDivStyles g)
      in set_styles (style_ok h) (map (\<lambda>k. (k, the (oget st k))) (okeys st))
           \<lparr>d_class = ''dygraph-legend'', d_html = [], d_style = []\<rparr>)"

definition use_generated :: "host \<Rightarrow> dygraph \<Rightarrow> legend \<times> dom \<Rightarrow> unit outcome \<times> legend \<times> dom" where
  "use_generated h g s =
     (case s of (l, dm) \<Rightarrow>
        case generated_div h g of
          Throw e \<Rightarrow> (Throw e, l, dm)
        | Ok d \<Rightarrow>
            (Ok (), l\<lparr>legend_div := Some (fresh dm), is_generated_div := True, one_em_width := 10\<rparr>,
             dm\<lparr>elements := (elements dm)(fresh dm := d), graph_children := graph_children dm @ [fresh dm],
                fresh := Suc (fresh dm)\<rparr>))"

definition activate :: "host \<Rightarrow> dygraph \<Rightarrow> legend \<times> dom \<Rightarrow> unit outcome \<times> legend \<times> dom" where
  "activate h g s =
     (case s of (l, dm) \<Rightarrow>
        case labelsDiv g of
          NoDiv \<Rightarrow> use_generated h g s
        | DivId i \<Rightarrow>
            (if i = [] then use_generated h g s
             else (Ok (), l\<lparr>legend_div := ids dm i, one_em_width := 10\<rparr>, dm))
        | DivElem a \<Rightarrow> (Ok (), l\<lparr>legend_div := Some a, one_em_width := 10\<rparr>, dm))"

section \<open>The dash of a series\<close>

text \<open>
  How a stroke pattern is drawn: how often, with which lengths in em, and up to which index.
  There is no plan when the pattern has no length and the em has one: the quotient is infinite
  and the drawing loop does not end. Both zero give NaN for every length.
\<close>

definition dash_plan :: "nat list \<Rightarrow> nat \<Rightarrow> (nat \<times> rat option list \<times> nat) option" where
  "dash_plan pat em =
     (let n = length pat; total = sum_list pat; strokePixelLength = total + pat ! 0
      in if total = 0 then (if em > 0 then None else Some (1, map (\<lambda>_. None) pat, n + 1))
         else if em div total > 1 then Some (em div total, map (\<lambda>p. Some (of_nat p / of_nat em)) pat, n)
         else Some (1, map (\<lambda>p. Some (of_nat p / of_nat strokePixelLength)) pat, n + 1))"

text \<open>The right margin and the left padding of the segment at an index.\<close>

definition segment :: "rat option list \<Rightarrow> nat \<Rightarrow> rat option \<times> rat option" where
  "segment pattern i =
     (let n = length pattern
      in (if i < n then pattern ! ((i + 1) mod n) else Some 0, pattern ! (i mod n)))"

definition segments :: "rat option list \<Rightarrow> nat \<Rightarrow> (rat option \<times> rat option) list" where
  "segments pattern segmentLoop = map (\<lambda>j. segment pattern (2 * j)) [0..<(segmentLoop + 1) div 2]"

definition quoted :: "string \<Rightarrow> string" where
  "quoted s = [CHR 0x22] @ s @ [CHR 0x22]"

definition segment_html :: "host \<Rightarrow> string \<Rightarrow> rat option \<times> rat option \<Rightarrow> string" where
  "segment_html h clr s =
     ''<div style='' @ quoted (''display: inline-block; position: relative; bottom: .5ex; margin-right: '' @ show_num h (fst s)
     @ ''em; padding-left: '' @ show_num h (snd s) @ ''em; height: 1px; border-bottom: 2px solid '' @ clr @ '';'') @ ''></div>''"

definition solid_html :: "string \<Rightarrow> string" where
  "solid_html clr =
     ''<div style='' @ quoted (''display: inline-block; position: relative; bottom: .5ex; padding-left: 1em; height: 1px; border-bottom: 2px solid ''
     @ clr @ '';'') @ ''></div>''"

definition is_IE :: "host \<Rightarrow> bool" where
  "is_IE h \<longleftrightarrow> index_of ''MSIE'' (user_agent h) \<noteq> None \<and> \<not> opera h"

definition generateLegendDashHTML :: "host \<Rightarrow> nat list \<Rightarrow> string \<Rightarrow> nat \<Rightarrow> string option" where
  "generateLegendDashHTML h pat clr em =
     (if is_IE h then Some ''&mdash;''
      else if length pat \<le> 1 then Some (solid_html clr)
      else map_option
             (\<lambda>(loop, normalized, segmentLoop).
                concat (replicate loop (concat (map (segment_html h clr) (segments normalized segmentLoop)))))
             (dash_plan pat em))"

section \<open>The legend\<close>

definition entry_html :: "string \<Rightarrow> string \<Rightarrow> string \<Rightarrow> string" where
  "entry_html clr dsh lbl =
     ''<span style='' @ [CHR 0x27] @ ''font-weight: bold; color: '' @ clr @ '';'' @ [CHR 0x27] @ ''>'' @ dsh @ '' '' @ lbl @ ''</span>''"

text \<open>The loop over the labels behind the first one, with the HTML so far.\<close>

fun legend_loop :: "host \<Rightarrow> dygraph \<Rightarrow> nat \<Rightarrow> string list \<Rightarrow> string \<Rightarrow> string option" where
  "legend_loop h g em [] html = Some html"
| "legend_loop h g em (lbl # ls) html =
     (let series = properties g lbl
      in if \<not> visible series then legend_loop h g em ls html
         else (let html1 = (if html \<noteq> [] then html @ (if labelsSeparateLines g then ''<br/>'' else '' '') else html)
               in case generateLegendDashHTML h (strokePattern g lbl) (color series) em of
                    None \<Rightarrow> None
                  | Some dsh \<Rightarrow> legend_loop h g em ls (html1 @ entry_html (color series) dsh lbl)))"

definition generateLegendHTML :: "host \<Rightarrow> dygraph \<Rightarrow> nat \<Rightarrow> string option" where
  "generateLegendHTML h g em =
     (if \<not> showLabelsOnHighlight g then Some []
      else if legend_option g \<noteq> ''always'' then Some []
      else legend_loop h g em (tl (labels g)) [])"

section \<open>Handlers\<close>

text \<open>The result is \<open>None\<close> when a dash is drawn forever.\<close>

definition write_html :: "legend \<Rightarrow> string \<Rightarrow> dom \<Rightarrow> unit outcome \<times> dom" where
  "write_html l html dm =
     (case legend_div l of
        None \<Rightarrow> (Throw (TypeError ''innerHTML of null''), dm)
      | Some a \<Rightarrow> (Ok (), dm\<lparr>elements := (elements dm)(a := (elements dm a)\<lparr>d_html := html\<rparr>)\<rparr>))"

definition legend_select :: "host \<Rightarrow> dygraph \<Rightarrow> legend \<times> dom \<Rightarrow> (unit outcome \<times> legend \<times> dom) option" where
  "legend_select h g s =
     (case s of (l, dm) \<Rightarrow>
        map_option (\<lambda>html. case write_html l html dm of (r, dm') \<Rightarrow> (r, l, dm')) (generateLegendHTML h g (one_em_width l)))"

text \<open>The measured width comes from the browser; without an element the measuring throws first.\<close>

definition legend_deselect :: "host \<Rightarrow> dygraph \<Rightarrow> nat \<Rightarrow> legend \<times> dom \<Rightarrow> (unit outcome \<times> legend \<times> dom) option" where
  "legend_deselect h g oneEmWidth s =
     (case s of (l, dm) \<Rightarrow>
        if legend_div l = None then Some (Throw (TypeError ''appendChild of null''), l, dm)
        else (let l' = l\<lparr>one_em_width := oneEmWidth\<rparr>
              in map_option (\<lambda>html. case write_html l' html dm of (r, dm') \<Rightarrow> (r, l', dm')) (generateLegendHTML h g oneEmWidth)))"

definition didDrawChart :: "host \<Rightarrow> dygraph \<Rightarrow> nat \<Rightarrow> legend \<times> dom \<Rightarrow> (unit outcome \<times> legend \<times> dom) option" where
  "didDrawChart h g oneEmWidth s = legend_deselect h g oneEmWidth s"

text \<open>Appending an element that is already a child moves it to the end.\<close>

definition predraw :: "dygraph \<Rightarrow> legend \<times> dom \<Rightarrow> unit outcome \<times> legend \<times> dom" where
  "predraw g s =
     (case s of (l, dm) \<Rightarrow>
        if \<not> is_generated_div l then (Ok (), l, dm)
        else (case legend_div l of
                None \<Rightarrow> (Throw (TypeError ''appendChild of null''), l, dm)
              | Some a \<Rightarrow>
                  (let st = oset ''width'' (px (labelsDivWidth g)) (oset ''top'' (px (area_y g))
                              (oset ''left'' (px (area_x g + area_w g - labelsDivWidth g - 1)) (d_style (elements dm a))))
                   in (Ok (), l, dm\<lparr>elements := (elements dm)(a := (elements dm a)\<lparr>d_style := st\<rparr>),
                                    graph_children := filter (\<lambda>x. x \<noteq> a) (graph_children dm) @ [a]\<rparr>))))"

definition destroy :: "legend \<times> dom \<Rightarrow> legend \<times> dom" where
  "destroy s = (case s of (l, dm) \<Rightarrow> (l\<lparr>legend_div := None\<rparr>, dm))"

end
