(* ===== verification/Legend_Props.thy ===== *)
theory Legend_Props
  imports Legend
begin

text \<open>
  The legend's HTML as a list of entries, the width of a dash, and what the handlers leave alone
  when the page supplied the element itself.
\<close>

section \<open>The legend as a list of entries\<close>

definition legend_entry :: "host \<Rightarrow> dygraph \<Rightarrow> nat \<Rightarrow> string \<Rightarrow> string option" where
  "legend_entry h g em lbl =
     map_option (\<lambda>d. entry_html (color (properties g lbl)) d lbl)
       (generateLegendDashHTML h (strokePattern g lbl) (color (properties g lbl)) em)"

definition legend_entries :: "host \<Rightarrow> dygraph \<Rightarrow> nat \<Rightarrow> string list \<Rightarrow> string list option" where
  "legend_entries h g em ls = those (map (legend_entry h g em) (filter (\<lambda>l. visible (properties g l)) ls))"

definition legend_sep :: "dygraph \<Rightarrow> string" where
  "legend_sep g = (if labelsSeparateLines g then ''<br/>'' else '' '')"

lemma entry_html_nonempty [simp]: "entry_html c d l \<noteq> []"
  by (simp add: entry_html_def)

lemma legend_loop_eq:
  "legend_loop h g em ls html =
     map_option (\<lambda>es. if es = [] then html else if html = [] then join_str (legend_sep g) es
                      else html @ legend_sep g @ join_str (legend_sep g) es) (legend_entries h g em ls)"
proof (induction ls arbitrary: html)
  case Nil
  then show ?case by (simp add: legend_entries_def)
next
  case (Cons l ls)
  show ?case
  proof (cases "visible (properties g l)")
    case False
    then show ?thesis using Cons by (simp add: legend_entries_def)
  next
    case True
    show ?thesis
    proof (cases "generateLegendDashHTML h (strokePattern g l) (color (properties g l)) em")
      case None
      then show ?thesis using True by (simp add: legend_entries_def legend_entry_def)
    next
      case (Some d)
      then have "legend_entries h g em (l # ls) =
          map_option (\<lambda>es. entry_html (color (properties g l)) d l # es) (legend_entries h g em ls)"
        using True by (simp add: legend_entries_def legend_entry_def)
      then show ?thesis
        using True Some Cons [of "(if html \<noteq> [] then html @ legend_sep g else html) @ entry_html (color (properties g l)) d l"]
        by (cases "legend_entries h g em ls") (auto simp: legend_sep_def join_str_Cons)
    qed
  qed
qed

text \<open>C34: an enabled legend is one entry for each visible series, in the order of the labels, with
  the separator between the entries and nowhere else; without a visible series it is empty.\<close>

theorem generateLegendHTML_entries:
  assumes "showLabelsOnHighlight g" "legend_option g = ''always''"
  shows "generateLegendHTML h g em = map_option (join_str (legend_sep g)) (legend_entries h g em (tl (labels g)))"
  using assms by (cases "legend_entries h g em (tl (labels g))") (auto simp: generateLegendHTML_def legend_loop_eq)

definition demo_host :: host where
  "demo_host = \<lparr>show_num = (\<lambda>_. ''?''), style_update = (\<lambda>a b. fold (\<lambda>p. oset (fst p) (snd p)) b a),
     style_ok = (\<lambda>_. True), user_agent = ''MSIE 8'', opera = False\<rparr>"

definition demo_graph :: dygraph where
  "demo_graph = \<lparr>labelsDivWidth = 250, labelsDiv = DivElem 0, labelsDivStyles = [], graph_width = 600,
     showLabelsOnHighlight = True, legend_option = ''always'', labelsSeparateLines = True, labels = [''time'', ''a'', ''b'', ''c''],
     properties = (\<lambda>l. \<lparr>visible = (l \<noteq> ''b''), color = ''red''\<rparr>), strokePattern = (\<lambda>_. []),
     area_x = 40, area_y = 0, area_w = 560\<rparr>"

theorem generateLegendHTML_entries_witness:
  "generateLegendHTML demo_host demo_graph 10 =
     Some (entry_html ''red'' ''&mdash;'' ''a'' @ ''<br/>'' @ entry_html ''red'' ''&mdash;'' ''c'')"
proof -
  have "showLabelsOnHighlight demo_graph" "legend_option demo_graph = ''always''" by (simp_all add: demo_graph_def)
  moreover have "legend_entries demo_host demo_graph 10 (tl (labels demo_graph)) =
      Some [entry_html ''red'' ''&mdash;'' ''a'', entry_html ''red'' ''&mdash;'' ''c'']" by code_simp
  moreover have "legend_sep demo_graph = ''<br/>''" by (simp add: legend_sep_def demo_graph_def)
  ultimately show ?thesis using generateLegendHTML_entries [of demo_graph demo_host 10] by simp
qed

section \<open>The handlers\<close>

text \<open>The calls Dygraph makes after the activation, in any order.\<close>

inductive legend_step :: "host \<Rightarrow> dygraph \<Rightarrow> legend \<times> dom \<Rightarrow> legend \<times> dom \<Rightarrow> bool" for h g where
  step_select: "legend_select h g s = Some (r, t) \<Longrightarrow> legend_step h g s t"
| step_deselect: "legend_deselect h g em s = Some (r, t) \<Longrightarrow> legend_step h g s t"
| step_didDrawChart: "didDrawChart h g em s = Some (r, t) \<Longrightarrow> legend_step h g s t"
| step_predraw: "predraw g s = (r, t) \<Longrightarrow> legend_step h g s t"
| step_destroy: "legend_step h g s (destroy s)"

definition legend_init :: "host \<Rightarrow> dygraph \<Rightarrow> dom \<Rightarrow> legend \<times> dom \<Rightarrow> bool" where
  "legend_init h g dm0 s \<longleftrightarrow>
     (\<exists>a. labelsDiv g = DivElem a) \<and> activate h g (new_legend, dm0) = (Ok (), s)"

text \<open>Nothing but the HTML of the elements differs from the document before.\<close>

definition legend_safe :: "dom \<Rightarrow> legend \<times> dom \<Rightarrow> bool" where
  "legend_safe dm0 s \<longleftrightarrow>
     (case s of (l, dm) \<Rightarrow>
        \<not> is_generated_div l \<and> graph_children dm = graph_children dm0 \<and> fresh dm = fresh dm0 \<and>
        (\<forall>a. d_style (elements dm a) = d_style (elements dm0 a) \<and> d_class (elements dm a) = d_class (elements dm0 a)))"

lemma write_html_safe: "legend_safe dm0 (l, dm) \<Longrightarrow> legend_safe dm0 (l, snd (write_html l html dm))"
  by (auto simp: write_html_def legend_safe_def split: option.splits)

lemma legend_safe_em: "legend_safe dm0 (l\<lparr>one_em_width := em\<rparr>, dm) = legend_safe dm0 (l, dm)"
  by (simp add: legend_safe_def)

lemma select_safe: "legend_select h g s = Some (r, t) \<Longrightarrow> legend_safe dm0 s \<Longrightarrow> legend_safe dm0 t"
  by (cases s) (auto simp: legend_select_def case_prod_beta write_html_safe)

lemma deselect_safe: "legend_deselect h g em s = Some (r, t) \<Longrightarrow> legend_safe dm0 s \<Longrightarrow> legend_safe dm0 t"
  by (cases s) (auto simp: legend_deselect_def Let_def case_prod_beta legend_safe_em intro!: write_html_safe split: if_splits)

lemma predraw_safe: "predraw g s = (r, t) \<Longrightarrow> legend_safe dm0 s \<Longrightarrow> legend_safe dm0 t"
  by (auto simp: predraw_def legend_safe_def split: prod.splits if_splits)

lemma legend_step_safe: "legend_step h g s t \<Longrightarrow> legend_safe dm0 s \<Longrightarrow> legend_safe dm0 t"
proof (induction rule: legend_step.induct)
  case (step_destroy s)
  then show ?case by (auto simp: destroy_def legend_safe_def split: prod.splits)
qed (simp_all add: select_safe deselect_safe predraw_safe didDrawChart_def)

interpretation user_div: machine "legend_init h g dm0" "legend_step h g" "legend_safe dm0" for h g dm0
proof
  fix s t
  show "legend_init h g dm0 s \<Longrightarrow> legend_safe dm0 s"
    by (auto simp: legend_init_def activate_def new_legend_def legend_safe_def)
  show "legend_safe dm0 s \<Longrightarrow> legend_step h g s t \<Longrightarrow> legend_safe dm0 t"
    by (rule legend_step_safe)
qed

text \<open>An element the page supplied for the legend stays where and as it is: whatever handlers
  Dygraph calls after the activation, in any order, no element is styled, moved or added; only
  HTML is written.\<close>

theorem user_div_untouched:
  assumes "labelsDiv g = DivElem a" "activate h g (new_legend, dm0) = (Ok (), s)" "(legend_step h g)\<^sup>*\<^sup>* s (l, dm)"
  shows "graph_children dm = graph_children dm0 \<and> fresh dm = fresh dm0 \<and>
    (\<forall>x. d_style (elements dm x) = d_style (elements dm0 x) \<and> d_class (elements dm x) = d_class (elements dm0 x))"
  using user_div.inv_reach [of h g dm0 s "(l, dm)"] assms by (auto simp: legend_init_def legend_safe_def)

definition demo_dom :: dom where
  "demo_dom = \<lparr>elements = (\<lambda>_. \<lparr>d_class = ''legend'', d_html = [], d_style = [(''color'', ''blue'')]\<rparr>), ids = (\<lambda>_. None),
     graph_children = [3], fresh = 5\<rparr>"

theorem user_div_untouched_witness:
  "graph_children (snd (destroy (snd (predraw demo_graph (snd (activate demo_host demo_graph (new_legend, demo_dom))))))) = [3]"
proof -
  let ?s = "snd (activate demo_host demo_graph (new_legend, demo_dom))"
  let ?t = "snd (predraw demo_graph ?s)"
  have g: "labelsDiv demo_graph = DivElem 0" by (simp add: demo_graph_def)
  have a: "activate demo_host demo_graph (new_legend, demo_dom) = (Ok (), ?s)" by (simp add: activate_def g)
  have "legend_step demo_host demo_graph ?s ?t" by (rule step_predraw [of _ _ "fst (predraw demo_graph ?s)"]) simp
  then have "(legend_step demo_host demo_graph)\<^sup>*\<^sup>* ?s (destroy ?t)"
    by (meson converse_rtranclp_into_rtranclp r_into_rtranclp step_destroy)
  then show ?thesis
    using user_div_untouched [OF g a, of "fst (destroy ?t)" "snd (destroy ?t)"] by (simp add: demo_dom_def)
qed

section \<open>How wide a dash is\<close>

definition seg_width :: "rat option \<times> rat option \<Rightarrow> rat" where
  "seg_width s = the (fst s) + the (snd s)"

text \<open>The width in em of the whole dash.\<close>

definition dash_width :: "nat list \<Rightarrow> nat \<Rightarrow> rat option" where
  "dash_width pat em =
     map_option (\<lambda>(loop, pattern, segmentLoop). of_nat loop * sum_list (map seg_width (segments pattern segmentLoop)))
       (dash_plan pat em)"

lemma pair_sum:
  fixes f :: "nat \<Rightarrow> rat"
  shows "(\<Sum>j\<leftarrow>[0..<h]. f (2 * j + 1) + f (2 * j)) = (\<Sum>i\<leftarrow>[0..<2 * h]. f i)"
  by (induction h) (simp_all add: add.assoc add.commute)

lemma sum_nth: "(\<Sum>i\<leftarrow>[0..<length xs]. xs ! i) = sum_list xs" for xs :: "rat list"
  by (simp add: map_nth)

lemma segments_even:
  assumes "length xs = 2 * h" "0 < h"
  shows "sum_list (map seg_width (segments (map Some xs) (2 * h))) = sum_list xs"
    and "sum_list (map seg_width (segments (map Some xs) (2 * h + 1))) = sum_list xs + xs ! 0"
proof -
  have w: "seg_width (segment (map Some xs) (2 * j)) = xs ! (2 * j + 1) + xs ! (2 * j)" if "j < h" for j
    using that assms by (simp add: seg_width_def segment_def Let_def)
  have "(\<Sum>j\<leftarrow>[0..<h]. seg_width (segment (map Some xs) (2 * j))) = (\<Sum>j\<leftarrow>[0..<h]. xs ! (2 * j + 1) + xs ! (2 * j))"
    using w by (intro arg_cong [where f = sum_list] map_cong) auto
  also have "\<dots> = sum_list xs" using pair_sum [of "\<lambda>i. xs ! i" h] sum_nth [of xs] assms(1) by simp
  finally have s: "(\<Sum>j\<leftarrow>[0..<h]. seg_width (segment (map Some xs) (2 * j))) = sum_list xs" .
  then show "sum_list (map seg_width (segments (map Some xs) (2 * h))) = sum_list xs"
    by (simp add: segments_def comp_def)
  have "seg_width (segment (map Some xs) (2 * h)) = xs ! 0"
    using assms by (simp add: seg_width_def segment_def Let_def)
  then show "sum_list (map seg_width (segments (map Some xs) (2 * h + 1))) = sum_list xs + xs ! 0"
    using s by (simp add: segments_def comp_def)
qed

lemma sum_div: "sum_list (map (\<lambda>p. of_nat p / c) pat) = of_nat (sum_list pat) / c" for c :: rat
  by (induction pat) (simp_all add: add_divide_distrib)

text \<open>A dashed line with an even pattern that has a length is drawn at most one em wide: exactly
  one em when the pattern is scaled, and as many whole patterns as fit when it is repeated.\<close>

theorem dash_fits_em:
  assumes "length pat = 2 * h" "0 < h" "0 < sum_list pat"
  shows "dash_width pat em =
    Some (if 2 \<le> em div sum_list pat then of_nat (em div sum_list pat * sum_list pat) / of_nat em else 1) \<and>
    the (dash_width pat em) \<le> 1"
proof (cases "2 \<le> em div sum_list pat")
  case True
  have "0 < em" using True by (cases em) auto
  have "dash_plan pat em = Some (em div sum_list pat, map Some (map (\<lambda>p. of_nat p / of_nat em) pat), 2 * h)"
    using True assms by (simp add: dash_plan_def Let_def del: sum_list_eq_0_iff)
  then have w: "dash_width pat em = Some (of_nat (em div sum_list pat * sum_list pat) / of_nat em)"
    using segments_even(1) [of "map (\<lambda>p. of_nat p / of_nat em) pat" h] assms by (simp add: dash_width_def sum_div)
  have "em div sum_list pat * sum_list pat \<le> em" by simp
  then have "(of_nat (em div sum_list pat * sum_list pat) :: rat) \<le> of_nat em" by (simp only: of_nat_le_iff)
  then have "(of_nat (em div sum_list pat * sum_list pat) :: rat) / of_nat em \<le> 1"
    using \<open>0 < em\<close> by (simp add: divide_le_eq_1)
  then show ?thesis using True by (simp only: w if_True option.sel simp_thms)
next
  case False
  let ?s = "sum_list pat + pat ! 0"
  have "dash_plan pat em = Some (1, map Some (map (\<lambda>p. of_nat p / of_nat ?s) pat), 2 * h + 1)"
    using False assms by (simp add: dash_plan_def Let_def del: sum_list_eq_0_iff)
  moreover have "0 < length pat" using assms by simp
  then have "map (\<lambda>p. of_nat p / of_nat ?s) pat ! 0 = (of_nat (pat ! 0) / of_nat ?s :: rat)" by (rule nth_map)
  ultimately have "dash_width pat em = Some (of_nat (sum_list pat) / of_nat ?s + of_nat (pat ! 0) / of_nat ?s)"
    using segments_even(2) [of "map (\<lambda>p. of_nat p / of_nat ?s) pat" h] assms by (simp only: dash_width_def sum_div) simp
  moreover have "of_nat (sum_list pat) / of_nat ?s + of_nat (pat ! 0) / of_nat ?s = (1 :: rat)"
    using assms(3) by (simp add: add_divide_distrib [symmetric])
  ultimately show ?thesis using False by simp
qed

theorem dash_fits_em_witness: "dash_width [2, 1, 1, 1] 11 = Some (10 / 11) \<and> dash_width [4, 2] 10 = Some 1"
  using dash_fits_em [of "[2, 1, 1, 1]" 2 11] dash_fits_em [of "[4, 2]" 1 10] by simp

text \<open>An odd pattern that is repeated ends with its first segment as a margin in every round and
  becomes wider than the em.\<close>

theorem odd_dash_too_wide: "dash_width [1, 1, 1] 6 = Some (4 / 3)"
  by (simp add: dash_width_def dash_plan_def segments_def segment_def seg_width_def upt_rec)

text \<open>A pattern without any length never ends.\<close>

theorem empty_dash_diverges: "0 < em \<Longrightarrow> dash_plan (replicate n 0) em = None"
  by (simp add: dash_plan_def sum_list_replicate)
end

