(* ===== verification/Bb_Events.thy ===== *)
theory Bb_Events
  imports Js_Object
begin

text \<open>
  \<open>Backbone.Events\<close> of src/files/backbone.js on a world of objects. Objects and functions are
  references. The lists of handlers are arrays in a store, because \<open>on\<close> extends an array in
  place while \<open>off\<close> builds a new one, and a \<open>trigger\<close> that is under way keeps reading the array it
  started with. What a callback does to the world is an argument. Event names are never names of
  members that every object inherits (the library's and the program's are fixed words), and
  \<open>trigger\<close> gets names, not maps.
\<close>

section \<open>The world\<close>

type_synonym ref = nat

datatype ev_name = NoName | Name string | Map "(string \<times> ref option) list"

record handler =
  h_callback :: ref
  h_context :: "ref option"
  h_ctx :: ref

text \<open>A function that \<open>once\<close> made: the closure and whether it ran.\<close>

record once_fn =
  of_self :: ref
  of_name :: string
  of_callback :: ref
  of_fired :: bool

text \<open>The log of calls: the function, its \<open>this\<close>, the event name for a listener on \<open>all\<close>, the rest of the arguments.\<close>

record 'a world =
  arr :: "nat \<Rightarrow> handler list"
  next_arr :: nat
  evs :: "ref \<Rightarrow> nat jsobj option"
  listeningTo :: "ref \<Rightarrow> ref jsobj option"
  listenId :: "ref \<Rightarrow> string option"
  idCounter :: nat
  fns :: "ref \<Rightarrow> once_fn option"
  next_fn :: ref
  calls :: "(ref \<times> ref \<times> string option \<times> 'a) list"

section \<open>Event names\<close>

function split_ws :: "string \<Rightarrow> string list" where
  "split_ws s =
     (let p = takeWhile (\<lambda>c. \<not> is_space c) s; r = dropWhile (\<lambda>c. \<not> is_space c) s
      in if r = [] then [p] else p # split_ws (dropWhile is_space r))"
  by pat_completeness auto

termination
proof (relation "measure length", goal_cases)
  case (2 s p r)
  then have "r \<noteq> []" by simp
  then obtain c t where ct: "r = c # t" using list.exhaust by blast
  then have "is_space c" using 2(2) by (metis dropWhile_eq_Cons_conv)
  then have "length (dropWhile is_space r) \<le> length t" using ct by (simp add: length_dropWhile_le)
  also have "\<dots> < length r" using ct by simp
  also have "\<dots> \<le> length s" using 2(2) by (simp add: length_dropWhile_le)
  finally show ?case by simp
qed simp

declare split_ws.simps [simp del]

text \<open>The plain names that a name argument stands for; \<open>None\<close> is a missing name.\<close>

definition name_list :: "string \<Rightarrow> string list" where
  "name_list s = (if list_ex is_space s then split_ws s else [s])"

section \<open>on and once\<close>

definition new_handler :: "ref \<Rightarrow> ref \<Rightarrow> ref option \<Rightarrow> handler" where
  "new_handler obj f ctxt =
     \<lparr>h_callback = f, h_context = ctxt, h_ctx = (case ctxt of Some c \<Rightarrow> c | None \<Rightarrow> obj)\<rparr>"

definition events_of :: "'a world \<Rightarrow> ref \<Rightarrow> nat jsobj" where
  "events_of w obj = (case evs w obj of None \<Rightarrow> [] | Some es \<Rightarrow> es)"

definition on1 :: "ref \<Rightarrow> string \<Rightarrow> ref option \<Rightarrow> ref option \<Rightarrow> 'a world \<Rightarrow> 'a world" where
  "on1 obj name cb ctxt w =
     (case cb of
        None \<Rightarrow> w
      | Some f \<Rightarrow>
          (let es = events_of w obj; h = new_handler obj f ctxt
           in case oget es name of
                Some a \<Rightarrow> w\<lparr>arr := (arr w)(a := arr w a @ [h]), evs := (evs w)(obj := Some es)\<rparr>
              | None \<Rightarrow>
                  w\<lparr>arr := (arr w)(next_arr w := [h]), next_arr := Suc (next_arr w),
                    evs := (evs w)(obj := Some (oset name (next_arr w) es))\<rparr>))"

definition once1 :: "ref \<Rightarrow> string \<Rightarrow> ref option \<Rightarrow> ref option \<Rightarrow> 'a world \<Rightarrow> 'a world" where
  "once1 obj name cb ctxt w =
     (case cb of
        None \<Rightarrow> w
      | Some f \<Rightarrow>
          on1 obj name (Some (next_fn w)) ctxt
            (w\<lparr>fns := (fns w)(next_fn w := Some \<lparr>of_self = obj, of_name = name, of_callback = f, of_fired = False\<rparr>),
               next_fn := Suc (next_fn w)\<rparr>))"

text \<open>
  \<open>eventsApi\<close> for the two registering actions: a string of several names registers each, a map
  registers each of its callbacks and uses the second argument as the context.
\<close>

fun eventsApi_reg ::
  "(ref \<Rightarrow> string \<Rightarrow> ref option \<Rightarrow> ref option \<Rightarrow> 'a world \<Rightarrow> 'a world) \<Rightarrow> ref \<Rightarrow> ev_name \<Rightarrow> ref option \<Rightarrow> ref option \<Rightarrow> 'a world \<Rightarrow> 'a world" where
  "eventsApi_reg act obj NoName cb ctxt w = act obj ''undefined'' cb ctxt w"
| "eventsApi_reg act obj (Name s) cb ctxt w = fold (\<lambda>n. act obj n cb ctxt) (name_list s) w"
| "eventsApi_reg act obj (Map kvs) cb ctxt w =
     fold (\<lambda>(k, f). fold (\<lambda>n. act obj n f cb) (name_list k)) kvs w"

definition on :: "ref \<Rightarrow> ev_name \<Rightarrow> ref option \<Rightarrow> ref option \<Rightarrow> 'a world \<Rightarrow> 'a world" where
  "on obj name cb ctxt w = eventsApi_reg on1 obj name cb ctxt w"

definition once :: "ref \<Rightarrow> ev_name \<Rightarrow> ref option \<Rightarrow> ref option \<Rightarrow> 'a world \<Rightarrow> 'a world" where
  "once obj name cb ctxt w = eventsApi_reg once1 obj name cb ctxt w"

section \<open>off\<close>

definition orig :: "'a world \<Rightarrow> ref \<Rightarrow> ref option" where
  "orig w f = map_option of_callback (fns w f)"

definition retained :: "'a world \<Rightarrow> ref option \<Rightarrow> ref option \<Rightarrow> handler \<Rightarrow> bool" where
  "retained w cb ctxt h \<longleftrightarrow>
     (cb \<noteq> None \<and> cb \<noteq> Some (h_callback h) \<and> cb \<noteq> orig w (h_callback h)) \<or> (ctxt \<noteq> None \<and> ctxt \<noteq> h_context h)"

definition off_name :: "ref \<Rightarrow> ref option \<Rightarrow> ref option \<Rightarrow> string \<Rightarrow> 'a world \<Rightarrow> 'a world" where
  "off_name obj cb ctxt name w =
     (case evs w obj of
        None \<Rightarrow> w
      | Some es \<Rightarrow>
          (case oget es name of
             None \<Rightarrow> w
           | Some a \<Rightarrow>
               (let retain = (if cb \<noteq> None \<or> ctxt \<noteq> None then filter (retained w cb ctxt) (arr w a) else [])
                in if retain = [] then w\<lparr>evs := (evs w)(obj := Some (odel name es))\<rparr>
                   else w\<lparr>arr := (arr w)(next_arr w := retain), next_arr := Suc (next_arr w),
                          evs := (evs w)(obj := Some (oset name (next_arr w) es))\<rparr>)))"

text \<open>One plain name; an empty one stands for all names.\<close>

definition off1 :: "ref \<Rightarrow> string \<Rightarrow> ref option \<Rightarrow> ref option \<Rightarrow> 'a world \<Rightarrow> 'a world" where
  "off1 obj name cb ctxt w =
     (case evs w obj of
        None \<Rightarrow> w
      | Some es \<Rightarrow>
          (if name = [] \<and> cb = None \<and> ctxt = None then w\<lparr>evs := (evs w)(obj := None)\<rparr>
           else fold (off_name obj cb ctxt) (if name = [] then okeys es else [name]) w))"

fun off :: "ref \<Rightarrow> ev_name \<Rightarrow> ref option \<Rightarrow> ref option \<Rightarrow> 'a world \<Rightarrow> 'a world" where
  "off obj NoName cb ctxt w = off1 obj [] cb ctxt w"
| "off obj (Name s) cb ctxt w = fold (\<lambda>n. off1 obj n cb ctxt) (name_list s) w"
| "off obj (Map kvs) cb ctxt w = fold (\<lambda>(k, f). fold (\<lambda>n. off1 obj n f cb) (name_list k)) kvs w"

section \<open>trigger\<close>

type_synonym 'a caller = "ref \<Rightarrow> ref \<Rightarrow> string option \<Rightarrow> 'a \<Rightarrow> 'a world \<Rightarrow> 'a world"

definition log_call :: "ref \<Rightarrow> ref \<Rightarrow> string option \<Rightarrow> 'a \<Rightarrow> 'a world \<Rightarrow> 'a world" where
  "log_call f ctx nm args w = w\<lparr>calls := calls w @ [(f, ctx, nm, args)]\<rparr>"

definition invoke :: "'a caller \<Rightarrow> handler \<Rightarrow> string option \<Rightarrow> 'a \<Rightarrow> 'a world \<Rightarrow> 'a world" where
  "invoke call h nm args w =
     (case fns w (h_callback h) of
        None \<Rightarrow> call (h_callback h) (h_ctx h) nm args (log_call (h_callback h) (h_ctx h) nm args w)
      | Some fn \<Rightarrow>
          (if of_fired fn then w
           else (let w1 = w\<lparr>fns := (fns w)(h_callback h := Some (fn\<lparr>of_fired := True\<rparr>))\<rparr>;
                     w2 = off1 (of_self fn) (of_name fn) (Some (h_callback h)) None w1
                 in call (of_callback fn) (h_ctx h) nm args (log_call (of_callback fn) (h_ctx h) nm args w2))))"

text \<open>The loop of \<open>triggerEvents\<close> over an array whose length was read before.\<close>

fun triggerEvents :: "'a caller \<Rightarrow> nat \<Rightarrow> string option \<Rightarrow> 'a \<Rightarrow> nat \<Rightarrow> nat \<Rightarrow> 'a world \<Rightarrow> 'a world" where
  "triggerEvents call a nm args i 0 w = w"
| "triggerEvents call a nm args i (Suc n) w =
     triggerEvents call a nm args (Suc i) n (invoke call (arr w a ! i) nm args w)"

definition trigger1 :: "'a caller \<Rightarrow> ref \<Rightarrow> string \<Rightarrow> 'a \<Rightarrow> 'a world \<Rightarrow> 'a world" where
  "trigger1 call obj name args w =
     (case evs w obj of
        None \<Rightarrow> w
      | Some es \<Rightarrow>
          (let events = oget es name; allEvents = oget es ''all'';
               w1 = (case events of
                       None \<Rightarrow> w
                     | Some a \<Rightarrow> triggerEvents call a None args 0 (length (arr w a)) w)
           in case allEvents of
                None \<Rightarrow> w1
              | Some b \<Rightarrow> triggerEvents call b (Some name) args 0 (length (arr w1 b)) w1))"

definition trigger :: "'a caller \<Rightarrow> ref \<Rightarrow> string \<Rightarrow> 'a \<Rightarrow> 'a world \<Rightarrow> 'a world" where
  "trigger call obj name args w =
     (if evs w obj = None then w else fold (\<lambda>n. trigger1 call obj n args) (name_list name) w)"

section \<open>Listening to other objects\<close>

definition uniqueId :: "string \<Rightarrow> 'a world \<Rightarrow> string \<times> 'a world" where
  "uniqueId pre w = (pre @ nat_str (Suc (idCounter w)), w\<lparr>idCounter := Suc (idCounter w)\<rparr>)"

definition listen_id :: "ref \<Rightarrow> 'a world \<Rightarrow> string \<times> 'a world" where
  "listen_id obj w =
     (case listenId w obj of
        Some i \<Rightarrow> (i, w)
      | None \<Rightarrow> (case uniqueId ''l'' w of (i, w1) \<Rightarrow> (i, w1\<lparr>listenId := (listenId w1)(obj := Some i)\<rparr>)))"

definition map_callback :: "ref \<Rightarrow> ev_name \<Rightarrow> ref option \<Rightarrow> ref option" where
  "map_callback this name cb = (case (cb, name) of (None, Map _) \<Rightarrow> Some this | _ \<Rightarrow> cb)"

definition listen_entry :: "ref \<Rightarrow> ref \<Rightarrow> 'a world \<Rightarrow> 'a world" where
  "listen_entry this obj w =
     (let lt = (case listeningTo w this of None \<Rightarrow> [] | Some m \<Rightarrow> m)
      in case listen_id obj w of (i, w1) \<Rightarrow> w1\<lparr>listeningTo := (listeningTo w1)(this := Some (oset i obj lt))\<rparr>)"

definition listenTo :: "ref \<Rightarrow> ref \<Rightarrow> ev_name \<Rightarrow> ref option \<Rightarrow> 'a world \<Rightarrow> 'a world" where
  "listenTo this obj name cb w = on obj name (map_callback this name cb) (Some this) (listen_entry this obj w)"

definition listenToOnce :: "ref \<Rightarrow> ref \<Rightarrow> ev_name \<Rightarrow> ref option \<Rightarrow> 'a world \<Rightarrow> 'a world" where
  "listenToOnce this obj name cb w = once obj name (map_callback this name cb) (Some this) (listen_entry this obj w)"

definition no_events :: "'a world \<Rightarrow> ref \<Rightarrow> bool" where
  "no_events w obj \<longleftrightarrow> (case evs w obj of None \<Rightarrow> True | Some es \<Rightarrow> es = [])"

definition falsy_name :: "ev_name \<Rightarrow> bool" where
  "falsy_name name \<longleftrightarrow> (name = NoName \<or> name = Name [])"

definition stop_one :: "ref \<Rightarrow> ev_name \<Rightarrow> ref option \<Rightarrow> bool \<Rightarrow> string \<times> ref \<Rightarrow> 'a world \<Rightarrow> 'a world" where
  "stop_one this name cb remove io w =
     (let w1 = off (snd io) name cb (Some this) w
      in if remove \<or> no_events w1 (snd io)
         then w1\<lparr>listeningTo := (listeningTo w1)(this := map_option (odel (fst io)) (listeningTo w1 this))\<rparr>
         else w1)"

definition stopListening :: "ref \<Rightarrow> ref option \<Rightarrow> ev_name \<Rightarrow> ref option \<Rightarrow> 'a world \<Rightarrow> 'a world" where
  "stopListening this obj name cb w =
     (case listeningTo w this of
        None \<Rightarrow> w
      | Some lt \<Rightarrow>
          (let remove = (falsy_name name \<and> cb = None);
               targets = (case obj of
                            Some x \<Rightarrow> [(case listenId w x of Some i \<Rightarrow> i | None \<Rightarrow> ''undefined'', x)]
                          | None \<Rightarrow> map (\<lambda>k. (k, the (oget lt k))) (okeys lt))
           in fold (stop_one this name (map_callback this name cb) remove) targets w))"

end
