(* ===== verification/Bb_Events_Props.thy ===== *)
theory Bb_Events_Props
  imports Bb_Events "HOL-Library.Sublist"
begin

text \<open>
  \<open>Backbone.Events\<close> refines a specification that knows only ordered lists of subscriptions; a
  trigger reaches every subscriber it started with, \<open>once\<close> fires once, and \<open>stopListening\<close>
  removes exactly the listener's subscriptions.
\<close>

section \<open>Subscriptions\<close>

definition bus_slot :: "'a world \<Rightarrow> ref \<Rightarrow> string \<Rightarrow> nat option" where
  "bus_slot w obj n = oget (events_of w obj) n"

definition subs :: "'a world \<Rightarrow> ref \<Rightarrow> string \<Rightarrow> handler list" where
  "subs w obj n = (case bus_slot w obj n of None \<Rightarrow> [] | Some a \<Rightarrow> arr w a)"

text \<open>No two lists share an array, and a list that is there is not empty.\<close>

definition bus_wf :: "'a world \<Rightarrow> bool" where
  "bus_wf w \<longleftrightarrow>
     (\<forall>obj n a. bus_slot w obj n = Some a \<longrightarrow> a < next_arr w \<and> arr w a \<noteq> []) \<and>
     (\<forall>obj n obj' n' a. bus_slot w obj n = Some a \<and> bus_slot w obj' n' = Some a \<longrightarrow> obj = obj' \<and> n = n')"

lemma events_of_upd: "events_of (w\<lparr>evs := (evs w)(obj := x)\<rparr>) o' = (if o' = obj then (case x of None \<Rightarrow> [] | Some es \<Rightarrow> es) else events_of w o')"
  by (simp add: events_of_def)

lemma events_of_arr [simp]:
  "events_of (w\<lparr>arr := x\<rparr>) = events_of w" "events_of (w\<lparr>next_arr := y\<rparr>) = events_of w"
  "events_of (w\<lparr>fns := z\<rparr>) = events_of w" "events_of (w\<lparr>next_fn := u\<rparr>) = events_of w" "events_of (w\<lparr>calls := v\<rparr>) = events_of w"
  by (simp_all add: fun_eq_iff events_of_def)

lemma slot_on1:
  "bus_slot (on1 obj n (Some f) c w) o' m =
     (if o' = obj \<and> m = n then Some (case bus_slot w obj n of Some a \<Rightarrow> a | None \<Rightarrow> next_arr w) else bus_slot w o' m)"
  by (cases "evs w obj") (auto simp: bus_slot_def on1_def Let_def events_of_def oget_def map_of_oset split: option.splits)

lemma arr_on1:
  "arr (on1 obj n (Some f) c w) =
     (case bus_slot w obj n of
        Some a \<Rightarrow> (arr w)(a := arr w a @ [new_handler obj f c])
      | None \<Rightarrow> (arr w)(next_arr w := [new_handler obj f c]))"
  "next_arr (on1 obj n (Some f) c w) = (case bus_slot w obj n of Some a \<Rightarrow> next_arr w | None \<Rightarrow> Suc (next_arr w))"
  by (auto simp: bus_slot_def on1_def Let_def split: option.splits)

lemma on1_frame [simp]:
  "fns (on1 obj n cb c w) = fns w" "next_fn (on1 obj n cb c w) = next_fn w" "calls (on1 obj n cb c w) = calls w"
  by (auto simp: on1_def Let_def split: option.splits)

lemma bus_wf_slot: "bus_wf w \<Longrightarrow> bus_slot w obj n = Some a \<Longrightarrow> a < next_arr w \<and> arr w a \<noteq> []"
  by (simp add: bus_wf_def)

lemma bus_wf_inj: "bus_wf w \<Longrightarrow> bus_slot w obj n = Some a \<Longrightarrow> bus_slot w obj' n' = Some a \<Longrightarrow> obj = obj' \<and> n = n'"
  unfolding bus_wf_def by blast

lemma subs_on1:
  assumes "bus_wf w"
  shows "subs (on1 obj n (Some f) c w) o' m =
    (if o' = obj \<and> m = n then subs w obj n @ [new_handler obj f c] else subs w o' m)"
  using bus_wf_slot [OF assms, of o' m] bus_wf_inj [OF assms, of obj n _ o' m]
  by (auto simp: subs_def slot_on1 arr_on1 split: option.splits)

lemma bus_wf_on1:
  assumes "bus_wf w"
  shows "bus_wf (on1 obj n (Some f) c w)"
  unfolding bus_wf_def
proof (intro conjI allI impI)
  fix o1 n1 a
  assume "bus_slot (on1 obj n (Some f) c w) o1 n1 = Some a"
  then show "a < next_arr (on1 obj n (Some f) c w)" "arr (on1 obj n (Some f) c w) a \<noteq> []"
    using bus_wf_slot [OF assms, of o1 n1 a] bus_wf_slot [OF assms, of obj n a]
    by (auto simp: slot_on1 arr_on1 split: if_splits option.splits)
next
  fix o1 n1 o2 n2 a
  assume a: "bus_slot (on1 obj n (Some f) c w) o1 n1 = Some a \<and> bus_slot (on1 obj n (Some f) c w) o2 n2 = Some a"
  then show "o1 = o2" "n1 = n2"
    using bus_wf_inj [OF assms, of o1 n1 a o2 n2] bus_wf_slot [OF assms, of o1 n1 a] bus_wf_slot [OF assms, of o2 n2 a]
      bus_wf_inj [OF assms, of o1 n1 a obj n] bus_wf_inj [OF assms, of o2 n2 a obj n]
    by (auto simp: slot_on1 split: if_splits option.splits)
qed

section \<open>Removal\<close>

lemma off_name_frame [simp]:
  "fns (off_name obj cb c n w) = fns w" "next_fn (off_name obj cb c n w) = next_fn w" "calls (off_name obj cb c n w) = calls w"
  by (auto simp: off_name_def Let_def split: option.splits)

lemma retained_none: "\<not> (cb \<noteq> None \<or> c \<noteq> None) \<Longrightarrow> filter (retained w cb c) hs = []"
  by (simp add: retained_def)

lemma off_name_eq:
  "off_name obj cb c n w =
     (case bus_slot w obj n of
        None \<Rightarrow> w
      | Some a \<Rightarrow>
          (let retain = filter (retained w cb c) (arr w a)
           in if retain = [] then w\<lparr>evs := (evs w)(obj := Some (odel n (events_of w obj)))\<rparr>
              else w\<lparr>arr := (arr w)(next_arr w := retain), next_arr := Suc (next_arr w),
                     evs := (evs w)(obj := Some (oset n (next_arr w) (events_of w obj)))\<rparr>))"
  using retained_none [of cb c w]
  by (auto simp: off_name_def bus_slot_def events_of_def oget_def Let_def split: option.splits)

lemma slot_off_name:
  "bus_slot (off_name obj cb c n w) o' m =
     (if o' = obj \<and> m = n
      then (case bus_slot w obj n of None \<Rightarrow> None | Some a \<Rightarrow> if filter (retained w cb c) (arr w a) = [] then None else Some (next_arr w))
      else bus_slot w o' m)"
  unfolding off_name_eq
  by (auto simp: bus_slot_def Let_def events_of_def obj_simps split: option.splits)

lemma arr_off_name:
  "arr (off_name obj cb c n w) =
     (case bus_slot w obj n of
        None \<Rightarrow> arr w
      | Some a \<Rightarrow> if filter (retained w cb c) (arr w a) = [] then arr w else (arr w)(next_arr w := filter (retained w cb c) (arr w a)))"
  "next_arr (off_name obj cb c n w) =
     (case bus_slot w obj n of
        None \<Rightarrow> next_arr w | Some a \<Rightarrow> if filter (retained w cb c) (arr w a) = [] then next_arr w else Suc (next_arr w))"
  unfolding off_name_eq by (auto simp: Let_def split: option.splits)

lemma subs_off_name:
  assumes "bus_wf w"
  shows "subs (off_name obj cb c n w) o' m =
    (if o' = obj \<and> m = n then filter (retained w cb c) (subs w obj n) else subs w o' m)"
  using bus_wf_slot [OF assms, of o' m]
  by (auto simp: subs_def slot_off_name arr_off_name split: option.splits)

lemma bus_wf_off_name:
  assumes "bus_wf w"
  shows "bus_wf (off_name obj cb c n w)"
  unfolding bus_wf_def
proof (intro conjI allI impI)
  fix o1 n1 a
  assume "bus_slot (off_name obj cb c n w) o1 n1 = Some a"
  then show "a < next_arr (off_name obj cb c n w)" "arr (off_name obj cb c n w) a \<noteq> []"
    using bus_wf_slot [OF assms, of o1 n1 a]
    by (auto simp: slot_off_name arr_off_name split: if_splits option.splits)
next
  fix o1 n1 o2 n2 a
  assume a: "bus_slot (off_name obj cb c n w) o1 n1 = Some a \<and> bus_slot (off_name obj cb c n w) o2 n2 = Some a"
  then show "o1 = o2" "n1 = n2"
    using bus_wf_inj [OF assms, of o1 n1 a o2 n2] bus_wf_slot [OF assms, of o1 n1 a] bus_wf_slot [OF assms, of o2 n2 a]
    by (auto simp: slot_off_name split: if_splits option.splits)
qed

lemma off_names:
  assumes "bus_wf w"
  shows "bus_wf (fold (off_name obj cb c) ns w) \<and> fns (fold (off_name obj cb c) ns w) = fns w \<and>
    subs (fold (off_name obj cb c) ns w) o' m =
      (if o' = obj \<and> m \<in> set ns then filter (retained w cb c) (subs w obj m) else subs w o' m)"
  using assms
proof (induction ns arbitrary: w)
  case (Cons n ns)
  have "retained (off_name obj cb c n w) cb c = retained w cb c" by (simp add: fun_eq_iff retained_def orig_def)
  then show ?case
    using Cons.IH [OF bus_wf_off_name [OF Cons.prems, of obj cb c n]] subs_off_name [OF Cons.prems]
    by (auto simp: filter_filter conj_commute)
qed simp

lemma subs_off1:
  assumes "bus_wf w"
  shows "subs (off1 obj name cb c w) o' m =
      (if o' = obj \<and> (name = [] \<or> m = name) then filter (retained w cb c) (subs w obj m) else subs w o' m)"
proof (cases "evs w obj")
  case None
  then have "subs w obj m = []" by (simp add: subs_def bus_slot_def events_of_def oget_def)
  then show ?thesis using None by (auto simp: off1_def)
next
  case (Some es)
  have none: "subs w obj m = []" if "m \<notin> set (okeys es)" for m
    using that Some by (simp add: subs_def bus_slot_def events_of_def okeys_iff)
  show ?thesis
  proof (cases "name = [] \<and> cb = None \<and> c = None")
    case True
    then show ?thesis
      using Some by (auto simp: off1_def subs_def bus_slot_def events_of_def oget_def retained_def split: option.splits)
  next
    case False
    then show ?thesis
      using Some off_names [OF assms, of obj cb c "if name = [] then okeys es else [name]" o' m] none [of m]
      by (auto simp: off1_def)
  qed
qed

lemma bus_wf_off1:
  assumes "bus_wf w"
  shows "bus_wf (off1 obj name cb c w)"
proof -
  have "bus_wf (w\<lparr>evs := (evs w)(obj := None)\<rparr>)"
  proof -
    have "bus_slot (w\<lparr>evs := (evs w)(obj := None)\<rparr>) o' m = (if o' = obj then None else bus_slot w o' m)" for o' m
      by (simp add: bus_slot_def events_of_def oget_def)
    then show ?thesis using assms unfolding bus_wf_def by (auto split: if_splits)
  qed
  then show ?thesis using off_names [OF assms] assms by (auto simp: off1_def split: option.splits)
qed

section \<open>The specification\<close>

text \<open>
  What the library promises: for every object and name an ordered list of subscriptions. A
  registration adds one at the end, a removal keeps the order of the others.
\<close>

record spec =
  sp_subs :: "ref \<Rightarrow> string \<Rightarrow> handler list"
  sp_fns :: "ref \<Rightarrow> once_fn option"
  sp_next :: ref

definition abs_bus :: "'a world \<Rightarrow> spec" where
  "abs_bus w = \<lparr>sp_subs = subs w, sp_fns = fns w, sp_next = next_fn w\<rparr>"

definition spec_add :: "ref \<Rightarrow> string \<Rightarrow> handler \<Rightarrow> spec \<Rightarrow> spec" where
  "spec_add obj n h S = S\<lparr>sp_subs := (\<lambda>o' m. if o' = obj \<and> m = n then sp_subs S obj n @ [h] else sp_subs S o' m)\<rparr>"

definition spec_on1 :: "ref \<Rightarrow> string \<Rightarrow> ref option \<Rightarrow> ref option \<Rightarrow> spec \<Rightarrow> spec" where
  "spec_on1 obj n cb c S = (case cb of None \<Rightarrow> S | Some f \<Rightarrow> spec_add obj n (new_handler obj f c) S)"

definition spec_once1 :: "ref \<Rightarrow> string \<Rightarrow> ref option \<Rightarrow> ref option \<Rightarrow> spec \<Rightarrow> spec" where
  "spec_once1 obj n cb c S =
     (case cb of
        None \<Rightarrow> S
      | Some f \<Rightarrow>
          spec_add obj n (new_handler obj (sp_next S) c)
            (S\<lparr>sp_fns := (sp_fns S)(sp_next S := Some \<lparr>of_self = obj, of_name = n, of_callback = f, of_fired = False\<rparr>),
               sp_next := Suc (sp_next S)\<rparr>))"

definition spec_matches :: "(ref \<Rightarrow> once_fn option) \<Rightarrow> ref option \<Rightarrow> ref option \<Rightarrow> handler \<Rightarrow> bool" where
  "spec_matches F cb c h \<longleftrightarrow>
     (case cb of None \<Rightarrow> True | Some f \<Rightarrow> h_callback h = f \<or> map_option of_callback (F (h_callback h)) = Some f) \<and>
     (case c of None \<Rightarrow> True | Some x \<Rightarrow> h_context h = Some x)"

definition spec_off1 :: "ref \<Rightarrow> string \<Rightarrow> ref option \<Rightarrow> ref option \<Rightarrow> spec \<Rightarrow> spec" where
  "spec_off1 obj n cb c S =
     S\<lparr>sp_subs := (\<lambda>o' m. if o' = obj \<and> (n = [] \<or> m = n) then filter (\<lambda>h. \<not> spec_matches (sp_fns S) cb c h) (sp_subs S obj m)
                          else sp_subs S o' m)\<rparr>"

text \<open>The plain calls a call with a name argument stands for.\<close>

fun expand :: "string \<Rightarrow> ev_name \<Rightarrow> ref option \<Rightarrow> ref option \<Rightarrow> (string \<times> ref option \<times> ref option) list" where
  "expand d NoName cb c = [(d, cb, c)]"
| "expand d (Name s) cb c = map (\<lambda>n. (n, cb, c)) (name_list s)"
| "expand d (Map kvs) cb c = concat (map (\<lambda>(k, f). map (\<lambda>n. (n, f, cb)) (name_list k)) kvs)"

datatype cmd =
    On ref ev_name "ref option" "ref option"
  | Once ref ev_name "ref option" "ref option"
  | Off ref ev_name "ref option" "ref option"

fun exec :: "cmd \<Rightarrow> 'a world \<Rightarrow> 'a world" where
  "exec (On obj nm cb c) w = on obj nm cb c w"
| "exec (Once obj nm cb c) w = once obj nm cb c w"
| "exec (Off obj nm cb c) w = off obj nm cb c w"

fun spec_exec :: "cmd \<Rightarrow> spec \<Rightarrow> spec" where
  "spec_exec (On obj nm cb c) S = fold (\<lambda>(n, f, x). spec_on1 obj n f x) (expand ''undefined'' nm cb c) S"
| "spec_exec (Once obj nm cb c) S = fold (\<lambda>(n, f, x). spec_once1 obj n f x) (expand ''undefined'' nm cb c) S"
| "spec_exec (Off obj nm cb c) S = fold (\<lambda>(n, f, x). spec_off1 obj n f x) (expand [] nm cb c) S"

definition new_world :: "'a world" where
  "new_world = \<lparr>arr = (\<lambda>_. []), next_arr = 0, evs = (\<lambda>_. None), listeningTo = (\<lambda>_. None), listenId = (\<lambda>_. None),
     idCounter = 0, fns = (\<lambda>_. None), next_fn = 0, calls = []\<rparr>"

definition empty_spec :: spec where
  "empty_spec = \<lparr>sp_subs = (\<lambda>_ _. []), sp_fns = (\<lambda>_. None), sp_next = 0\<rparr>"

lemma fold_concat_map: "fold f (concat (map g xs)) w = fold (\<lambda>x. fold f (g x)) xs w"
  by (induction xs arbitrary: w) simp_all

lemma eventsApi_expand:
  "eventsApi_reg act obj nm cb c w = fold (\<lambda>(n, f, x). act obj n f x) (expand ''undefined'' nm cb c) w"
  by (cases nm) (simp_all add: fold_map comp_def fold_concat_map case_prod_unfold)

lemma off_expand: "off obj nm cb c w = fold (\<lambda>(n, f, x). off1 obj n f x) (expand [] nm cb c) w"
  by (cases nm) (simp_all add: fold_map comp_def fold_concat_map case_prod_unfold)

lemma on1_refines: "bus_wf w \<Longrightarrow> bus_wf (on1 obj n f x w) \<and> abs_bus (on1 obj n f x w) = spec_on1 obj n f x (abs_bus w)"
proof (cases f)
  case (Some g)
  assume "bus_wf w"
  then show ?thesis using Some by (simp add: abs_bus_def spec_on1_def spec_add_def fun_eq_iff bus_wf_on1 subs_on1)
qed (simp add: on1_def spec_on1_def)

lemma bus_wf_frame: "bus_wf (w\<lparr>fns := F, next_fn := k\<rparr>) = bus_wf w" "subs (w\<lparr>fns := F, next_fn := k\<rparr>) = subs w"
  by (simp_all add: fun_eq_iff bus_wf_def subs_def bus_slot_def split: option.split)

lemma once1_refines: "bus_wf w \<Longrightarrow> bus_wf (once1 obj n f x w) \<and> abs_bus (once1 obj n f x w) = spec_once1 obj n f x (abs_bus w)"
proof (cases f)
  case (Some g)
  assume "bus_wf w"
  let ?w = "w\<lparr>fns := (fns w)(next_fn w := Some \<lparr>of_self = obj, of_name = n, of_callback = g, of_fired = False\<rparr>), next_fn := Suc (next_fn w)\<rparr>"
  have "bus_wf (on1 obj n (Some (next_fn w)) x ?w) \<and> abs_bus (on1 obj n (Some (next_fn w)) x ?w) = spec_on1 obj n (Some (next_fn w)) x (abs_bus ?w)"
    using \<open>bus_wf w\<close> by (intro on1_refines) (simp only: bus_wf_frame)
  then show ?thesis using Some by (simp add: once1_def spec_once1_def spec_on1_def abs_bus_def bus_wf_frame)
qed (simp add: once1_def spec_once1_def)

lemma retained_matches: "retained w cb c = (\<lambda>h. \<not> spec_matches (fns w) cb c h)"
proof
  fix h
  show "retained w cb c h = (\<not> spec_matches (fns w) cb c h)"
    by (cases cb; cases c; cases "fns w (h_callback h)") (auto simp: retained_def spec_matches_def orig_def)
qed

lemma off1_frame [simp]: "fns (off1 obj n f x w) = fns w" "next_fn (off1 obj n f x w) = next_fn w" "calls (off1 obj n f x w) = calls w"
proof -
  have "fns (fold (off_name obj f x) ns w) = fns w \<and> next_fn (fold (off_name obj f x) ns w) = next_fn w \<and>
      calls (fold (off_name obj f x) ns w) = calls w" for ns
    by (induction ns arbitrary: w) simp_all
  then show "fns (off1 obj n f x w) = fns w" "next_fn (off1 obj n f x w) = next_fn w" "calls (off1 obj n f x w) = calls w"
    by (simp_all add: off1_def split: option.splits)
qed

lemma off1_refines: "bus_wf w \<Longrightarrow> bus_wf (off1 obj n f x w) \<and> abs_bus (off1 obj n f x w) = spec_off1 obj n f x (abs_bus w)"
  by (simp add: abs_bus_def spec_off1_def fun_eq_iff bus_wf_off1 subs_off1 retained_matches)

lemma fold_refines:
  assumes "bus_wf w"
    and "\<And>p v. bus_wf v \<Longrightarrow> bus_wf (f p v) \<and> abs_bus (f p v) = g p (abs_bus v)"
  shows "bus_wf (fold f ps w) \<and> abs_bus (fold f ps w) = fold g ps (abs_bus w)"
  using assms(1) by (induction ps arbitrary: w) (simp_all add: assms(2))

lemma exec_refines: "bus_wf w \<Longrightarrow> bus_wf (exec c w) \<and> abs_bus (exec c w) = spec_exec c (abs_bus w)"
  by (cases c)
     (auto simp only: exec.simps spec_exec.simps on_def once_def eventsApi_expand off_expand split_beta
        intro!: fold_refines on1_refines once1_refines off1_refines)

lemma new_world_wf: "bus_wf new_world" "abs_bus new_world = empty_spec"
  by (simp_all add: fun_eq_iff new_world_def bus_wf_def abs_bus_def empty_spec_def subs_def bus_slot_def events_of_def oget_def)

text \<open>C2: whatever sequence of \<open>on\<close>, \<open>once\<close> and \<open>off\<close> a program performs, with single names, lists
  of names or maps, the arrays of handlers stand for exactly the subscriptions of the
  specification: registrations in order, minus those a removal matches.\<close>

theorem events_refine_spec: "abs_bus (fold exec cs new_world) = fold spec_exec cs empty_spec"
  using fold_refines [of new_world exec spec_exec cs] exec_refines new_world_wf by metis

section \<open>Delivery\<close>

text \<open>How a world may develop while callbacks run: arrays only grow, and so does the log.\<close>

definition extends :: "'a world \<Rightarrow> 'a world \<Rightarrow> bool" where
  "extends w v \<longleftrightarrow>
     next_arr w \<le> next_arr v \<and> (\<forall>a < next_arr w. prefix (arr w a) (arr v a)) \<and> prefix (calls w) (calls v) \<and>
     next_fn w \<le> next_fn v \<and> (\<forall>f < next_fn w. fns w f = None \<longrightarrow> fns v f = None)"

lemma extends_refl [simp]: "extends w w"
  by (simp add: extends_def)

lemma extends_trans: "extends u v \<Longrightarrow> extends v w \<Longrightarrow> extends u w"
  unfolding extends_def by (meson order_trans order_less_le_trans prefix_order.trans)

lemma extends_log: "extends w (log_call f ctx nm args w)"
  by (simp add: extends_def log_call_def)

lemma extends_on1: "bus_wf w \<Longrightarrow> extends w (on1 obj n f x w)"
  by (cases f) (auto simp: on1_def extends_def Let_def dest: bus_wf_slot split: option.splits)

lemma extends_off_name: "extends w (off_name obj cb c n w)"
  unfolding off_name_eq by (auto simp: extends_def Let_def split: option.splits)

lemma extends_fold: "(\<And>n v. extends v (f n v)) \<Longrightarrow> extends w (fold f ns w)"
  by (induction ns arbitrary: w) (auto intro: extends_trans)

lemma extends_off1: "extends w (off1 obj n cb c w)"
proof -
  have "extends w (w\<lparr>evs := x\<rparr>)" for x by (simp add: extends_def)
  then show ?thesis by (auto simp: off1_def split: option.splits intro: extends_fold extends_off_name)
qed

definition steady :: "'a caller \<Rightarrow> bool" where
  "steady call \<longleftrightarrow> (\<forall>f ctx nm args w. extends w (call f ctx nm args w))"

lemma extends_invoke: "steady call \<Longrightarrow> extends w (invoke call h nm args w)"
proof -
  assume s: "steady call"
  have "extends w (w\<lparr>fns := (fns w)(h_callback h \<mapsto> fn)\<rparr>)" if "fns w (h_callback h) \<noteq> None" for fn
    using that by (simp add: extends_def)
  then show ?thesis
    using s unfolding invoke_def Let_def steady_def
    by (auto split: option.splits) (meson extends_trans extends_log extends_off1 option.distinct(1))+
qed

definition call_entry :: "string option \<Rightarrow> 'a \<Rightarrow> handler \<Rightarrow> ref \<times> ref \<times> string option \<times> 'a" where
  "call_entry nm args h = (h_callback h, h_ctx h, nm, args)"

text \<open>A handler whose function was not made by \<open>once\<close>.\<close>

definition plain_handler :: "'a world \<Rightarrow> handler \<Rightarrow> bool" where
  "plain_handler w h \<longleftrightarrow> fns w (h_callback h) = None \<and> h_callback h < next_fn w"

lemma plain_extends: "plain_handler w h \<Longrightarrow> extends w v \<Longrightarrow> plain_handler v h"
  by (auto simp: plain_handler_def extends_def)

lemma extends_triggerEvents: "steady call \<Longrightarrow> extends w (triggerEvents call a nm args i n w)"
proof (induction n arbitrary: i w)
  case (Suc n)
  let ?v = "invoke call (arr w a ! i) nm args w"
  have "extends w ?v" "extends ?v (triggerEvents call a nm args (Suc i) n ?v)" using Suc by (simp_all add: extends_invoke)
  then show ?case by (auto intro: extends_trans)
qed simp

lemma triggerEvents_delivers:
  assumes "steady call" "prefix hs (arr w a)" "a < next_arr w" "\<forall>h\<in>set hs. plain_handler w h" "length hs \<le> i + n"
  shows "\<exists>log. calls (triggerEvents call a nm args i n w) = calls w @ log \<and> subseq (map (call_entry nm args) (drop i hs)) log"
  using assms
proof (induction n arbitrary: i w)
  case 0
  then show ?case by simp
next
  case (Suc n)
  let ?v = "invoke call (arr w a ! i) nm args w"
  have ex: "extends w ?v" using Suc.prems(1) by (rule extends_invoke)
  have "prefix hs (arr ?v a)" "a < next_arr ?v" using ex Suc.prems(2,3) by (auto simp: extends_def intro: prefix_order.trans)
  moreover have "\<forall>h\<in>set hs. plain_handler ?v h" using Suc.prems(4) ex plain_extends by blast
  ultimately obtain log where log: "calls (triggerEvents call a nm args (Suc i) n ?v) = calls ?v @ log"
      "subseq (map (call_entry nm args) (drop (Suc i) hs)) log"
    using Suc.IH [OF Suc.prems(1), of ?v "Suc i"] Suc.prems(5) by auto
  obtain mid where mid: "calls ?v = calls w @ mid" using ex by (auto simp: extends_def prefix_def)
  show ?case
  proof (cases "i < length hs")
    case True
    have h: "arr w a ! i = hs ! i" using True Suc.prems(2) by (auto simp: prefix_def nth_append)
    have "plain_handler w (hs ! i)" using True Suc.prems(4) by simp
    then have "?v = call (h_callback (hs ! i)) (h_ctx (hs ! i)) nm args (log_call (h_callback (hs ! i)) (h_ctx (hs ! i)) nm args w)"
      by (simp add: invoke_def h plain_handler_def)
    then have "extends (log_call (h_callback (hs ! i)) (h_ctx (hs ! i)) nm args w) ?v"
      using Suc.prems(1) by (simp add: steady_def)
    then have "prefix (calls w @ [call_entry nm args (hs ! i)]) (calls ?v)"
      by (simp add: extends_def log_call_def call_entry_def)
    then obtain rest where "mid = call_entry nm args (hs ! i) # rest" using mid by (auto simp: prefix_def)
    moreover have "drop i hs = hs ! i # drop (Suc i) hs" using True by (simp add: Cons_nth_drop_Suc)
    ultimately have "subseq (map (call_entry nm args) (drop i hs)) (mid @ log)"
      using log(2) by (simp add: subseq_drop_many)
    then show ?thesis using log(1) mid by simp
  next
    case False
    then show ?thesis using log(1) mid by simp
  qed
qed

lemma subs_arr: "evs w obj = Some es \<Longrightarrow> subs w obj n = (case oget es n of None \<Rightarrow> [] | Some a \<Rightarrow> arr w a)"
  by (simp add: subs_def bus_slot_def events_of_def)

text \<open>C29: a \<open>trigger\<close> calls every handler that was registered when it started, in order, first
  those of the event and then those of \<open>all\<close>, with the arguments and the right \<open>this\<close>,
  whatever handlers the callbacks themselves add or remove meanwhile.\<close>

theorem trigger_reaches_subscribers:
  assumes "bus_wf w" "steady call" "\<forall>h\<in>set (subs w obj name) \<union> set (subs w obj ''all''). plain_handler w h"
  shows "\<exists>log. calls (trigger1 call obj name args w) = calls w @ log \<and>
    subseq (map (call_entry None args) (subs w obj name) @ map (call_entry (Some name) args) (subs w obj ''all'')) log"
proof (cases "evs w obj")
  case None
  then have "subs w obj n = []" for n by (simp add: subs_def bus_slot_def events_of_def oget_def)
  then show ?thesis using None by (simp add: trigger1_def)
next
  case (Some es)
  define w1 where "w1 = (case oget es name of None \<Rightarrow> w | Some a \<Rightarrow> triggerEvents call a None args 0 (length (arr w a)) w)"
  have ex: "extends w w1" using assms(2) by (simp add: w1_def extends_triggerEvents split: option.split)
  have bus_slot: "a < next_arr w" if "oget es n = Some a" for n a
    using bus_wf_slot [OF assms(1), of obj n a] that Some by (simp add: bus_slot_def events_of_def)
  have "\<exists>log. calls w1 = calls w @ log \<and> subseq (map (call_entry None args) (subs w obj name)) log"
  proof (cases "oget es name")
    case None
    then show ?thesis using subs_arr [OF Some, of name] by (simp add: w1_def)
  next
    case a: (Some a)
    then show ?thesis
      using triggerEvents_delivers [OF assms(2), of "arr w a" w a 0 "length (arr w a)" None args] bus_slot [OF a] assms(3)
        subs_arr [OF Some, of name] by (simp add: w1_def)
  qed
  then obtain l1 where l1: "calls w1 = calls w @ l1" "subseq (map (call_entry None args) (subs w obj name)) l1" by blast
  show ?thesis
  proof (cases "oget es ''all''")
    case None
    then show ?thesis using l1 Some subs_arr [OF Some, of "''all''"] by (simp add: trigger1_def w1_def)
  next
    case b: (Some b)
    have "prefix (arr w b) (arr w1 b)" "b < next_arr w1" using ex bus_slot [OF b] by (auto simp: extends_def)
    moreover have "\<forall>h\<in>set (arr w b). plain_handler w1 h"
      using assms(3) subs_arr [OF Some, of "''all''"] b plain_extends [OF _ ex] by auto
    moreover have "length (arr w b) \<le> 0 + length (arr w1 b)" using calculation(1) by (simp add: prefix_length_le)
    ultimately obtain l2 where l2: "calls (triggerEvents call b (Some name) args 0 (length (arr w1 b)) w1) = calls w1 @ l2"
        "subseq (map (call_entry (Some name) args) (subs w obj ''all'')) l2"
      using triggerEvents_delivers [OF assms(2), of "arr w b" w1 b 0 "length (arr w1 b)" "Some name" args]
        subs_arr [OF Some, of "''all''"] b by auto
    have "trigger1 call obj name args w = triggerEvents call b (Some name) args 0 (length (arr w1 b)) w1"
      using Some b by (simp add: trigger1_def w1_def Let_def)
    then show ?thesis using l1 l2 by (auto intro!: list_emb_append_mono)
  qed
qed

text \<open>A callback that removes the subscription behind it: that subscription is still called.\<close>

definition demo_call :: "nat caller" where
  "demo_call f ctx nm args w = (if f = 1 then off1 0 ''change'' (Some 2) None w else w)"

definition demo_world :: "nat world" where
  "demo_world = on1 0 ''change'' (Some 2) None (on1 0 ''change'' (Some 1) None (new_world\<lparr>next_fn := 3\<rparr>))"

lemma demo_world_wf: "bus_wf demo_world"
proof -
  have "bus_wf (new_world\<lparr>next_fn := 3\<rparr> :: nat world)"
    by (simp add: bus_wf_def new_world_def bus_slot_def events_of_def oget_def)
  then show ?thesis unfolding demo_world_def by (intro bus_wf_on1)
qed

theorem trigger_reaches_subscribers_witness:
  "\<exists>log. calls (trigger1 demo_call 0 ''change'' 7 demo_world) = calls demo_world @ log \<and>
     subseq [(1, 0, None, 7), (2, 0, None, 7)] log"
proof -
  have "steady demo_call" by (simp add: steady_def demo_call_def extends_off1)
  moreover have "subs demo_world 0 ''change'' = [\<lparr>h_callback = 1, h_context = None, h_ctx = 0\<rparr>, \<lparr>h_callback = 2, h_context = None, h_ctx = 0\<rparr>]"
    "subs demo_world 0 ''all'' = []" by code_simp+
  moreover have "next_fn demo_world = 3" "fns demo_world = (\<lambda>_. None)" by (simp_all add: demo_world_def new_world_def)
  ultimately show ?thesis
    using trigger_reaches_subscribers [OF demo_world_wf, of demo_call 0 "''change''" 7]
    by (simp add: plain_handler_def call_entry_def)
qed

abbreviation quiet :: "'a caller" where
  "quiet \<equiv> \<lambda>f ctx nm args w. w"

text \<open>A subscription made by \<open>once\<close> is called at the first event only, and leaves nothing behind.\<close>

theorem once_called_once:
  assumes "n \<noteq> ''all''" "w = once1 obj n (Some f) c new_world"
  shows "calls (trigger1 quiet obj n y (trigger1 quiet obj n x w)) = [(f, (case c of Some r \<Rightarrow> r | None \<Rightarrow> obj), None, x)] \<and>
    subs (trigger1 quiet obj n x w) obj n = []"
  using assms(1) unfolding assms(2)
  by (auto simp: once1_def on1_def new_world_def events_of_def trigger1_def oget_def invoke_def off1_def off_name_def
      retained_def orig_def new_handler_def log_call_def subs_def bus_slot_def odel_def okeys_def order_keys_def Let_def split: option.splits)

theorem once_called_once_witness:
  "calls (trigger1 quiet 0 ''change'' 6 (trigger1 quiet 0 ''change'' 5 (once1 0 ''change'' (Some 9) None (new_world :: nat world)))) = [(9, 0, None, 5)]"
  using once_called_once [of "''change''" "once1 0 ''change'' (Some 9) None (new_world :: nat world)" 0 9 None 6 5] by simp

section \<open>Listening\<close>

lemma stop_one_remove:
  assumes "bus_wf w"
  shows "let v = stop_one this NoName None True io w
    in bus_wf v \<and> listeningTo v this = map_option (odel (fst io)) (listeningTo w this) \<and>
       (\<forall>o' n. subs v o' n = (if o' = snd io then filter (\<lambda>h. h_context h \<noteq> Some this) (subs w o' n) else subs w o' n))"
proof -
  let ?w1 = "off1 (snd io) [] None (Some this) w"
  have r: "retained w None (Some this) = (\<lambda>h. h_context h \<noteq> Some this)" by (auto simp: retained_def fun_eq_iff)
  have l: "listeningTo ?w1 = listeningTo w"
  proof -
    have "listeningTo (fold (off_name (snd io) None (Some this)) ns w) = listeningTo w" for ns
      by (induction ns arbitrary: w) (auto simp: off_name_def Let_def split: option.splits)
    then show ?thesis by (simp add: off1_def split: option.splits)
  qed
  have f: "bus_wf (v\<lparr>listeningTo := x\<rparr>) = bus_wf v" "subs (v\<lparr>listeningTo := x\<rparr>) = subs v" for v :: "'a world" and x
    by (simp_all add: fun_eq_iff bus_wf_def subs_def bus_slot_def events_of_def split: option.split)
  show ?thesis
    using bus_wf_off1 [OF assms, of "snd io" "[]" None "Some this"] subs_off1 [OF assms, of "snd io" "[]" None "Some this"]
    by (simp add: stop_one_def Let_def l f r)
qed

lemma stop_all:
  assumes "bus_wf w"
  shows "let v = fold (stop_one this NoName None True) ts w
    in bus_wf v \<and> listeningTo v this = map_option (fold odel (map fst ts)) (listeningTo w this) \<and>
       (\<forall>o' n. subs v o' n = (if o' \<in> snd ` set ts then filter (\<lambda>h. h_context h \<noteq> Some this) (subs w o' n) else subs w o' n))"
  using assms
proof (induction ts arbitrary: w)
  case Nil
  then show ?case by (simp add: option.map_ident)
next
  case (Cons t ts)
  let ?v = "stop_one this NoName None True t w"
  have v: "bus_wf ?v" "listeningTo ?v this = map_option (odel (fst t)) (listeningTo w this)"
    "\<And>o' n. subs ?v o' n = (if o' = snd t then filter (\<lambda>h. h_context h \<noteq> Some this) (subs w o' n) else subs w o' n)"
    using stop_one_remove [OF Cons.prems, of this t] by (simp_all add: Let_def)
  show ?case
    using Cons.IH [OF v(1)] v(2,3) by (auto simp: Let_def option.map_comp comp_def)
qed

lemma fold_odel_get: "oget (fold odel ks ob) k = (if k \<in> set ks then None else oget ob k)"
  by (induction ks arbitrary: ob) (auto simp: obj_simps)

lemma fold_odel_all: "fold odel (okeys ob) ob = []"
proof -
  have "oget (fold odel (okeys ob) ob) k = None" for k by (simp add: fold_odel_get okeys_iff)
  then have "okeys (fold odel (okeys ob) ob) = []" using okeys_iff by (metis last_in_set)
  then show ?thesis by (simp add: okeys_eq_Nil)
qed

text \<open>C30: after \<open>stopListening()\<close> the listener has no subscription left on any object it was
  listening to, all other subscriptions are as they were and in the same order, and the listener
  remembers no object.\<close>

theorem stopListening_removes_all:
  assumes "bus_wf w" "listeningTo w this = Some lt"
  shows "let v = stopListening this None NoName None w
    in listeningTo v this = Some [] \<and>
       (\<forall>k obj n. oget lt k = Some obj \<longrightarrow> subs v obj n = filter (\<lambda>h. h_context h \<noteq> Some this) (subs w obj n)) \<and>
       (\<forall>obj n. (\<nexists>k. oget lt k = Some obj) \<longrightarrow> subs v obj n = subs w obj n)"
proof -
  let ?ts = "map (\<lambda>k. (k, the (oget lt k))) (okeys lt)"
  have v: "stopListening this None NoName None w = fold (stop_one this NoName None True) ?ts w"
    using assms(2) by (simp add: stopListening_def map_callback_def falsy_name_def)
  have m: "map fst ?ts = okeys lt" by (simp add: comp_def)
  have t: "obj \<in> snd ` set ?ts \<longleftrightarrow> (\<exists>k. oget lt k = Some obj)" for obj
    by (force simp: okeys_iff)
  show ?thesis
    using stop_all [OF assms(1), of this ?ts] assms(2) unfolding v Let_def m t by (auto simp: fold_odel_all)
qed

definition demo_listening :: "nat world" where
  "demo_listening = listenTo 5 0 (Name ''change'') (Some 1) (on 0 (Name ''change'') (Some 2) None new_world)"

theorem stopListening_removes_all_witness:
  "map h_callback (subs (stopListening 5 None NoName None demo_listening) 0 ''change'') = [2]"
proof -
  have "bus_wf demo_listening"
  proof -
    have f: "bus_wf (v\<lparr>listeningTo := x\<rparr>) = bus_wf v" "bus_wf (v\<lparr>listenId := y\<rparr>) = bus_wf v" "bus_wf (v\<lparr>idCounter := z\<rparr>) = bus_wf v"
      for v :: "nat world" and x y z
      by (simp_all add: bus_wf_def subs_def bus_slot_def events_of_def)
    have e: "name_list ''change'' = [''change'']" by code_simp
    show ?thesis
      unfolding demo_listening_def listenTo_def on_def listen_entry_def
      by (simp add: e map_callback_def Let_def listen_id_def uniqueId_def f new_world_wf(1) bus_wf_on1 split: prod.split option.split)
  qed
  moreover have "listeningTo demo_listening 5 = Some [(''l1'', 0)]" by code_simp
  moreover have "subs demo_listening 0 ''change'' =
      [\<lparr>h_callback = 2, h_context = None, h_ctx = 0\<rparr>, \<lparr>h_callback = 1, h_context = Some 5, h_ctx = 5\<rparr>]" by code_simp
  moreover have "oget [(''l1'', 0)] ''l1'' = Some 0" by (simp add: oget_def)
  ultimately have "subs (stopListening 5 None NoName None demo_listening) 0 ''change'' =
      filter (\<lambda>h. h_context h \<noteq> Some 5) [\<lparr>h_callback = 2, h_context = None, h_ctx = 0\<rparr>, \<lparr>h_callback = 1, h_context = Some 5, h_ctx = 5\<rparr>]"
    using stopListening_removes_all [of demo_listening 5 "[(''l1'', 0)]"] unfolding Let_def by metis
  then show ?thesis by simp
qed

end
