(* ===== verification/Users.thy ===== *)
theory Users
  imports Hash_State Cookie Sha256
begin

text \<open>
  Users and the login of src/files/graph.js: \<open>UserModel\<close> and \<open>UsersModel\<close> (how users travel to
  and from the server), \<open>SettingsModel\<close> (who is logged in, login, creation, logout) and the views
  that follow its events. The state extends the dashboards' state; the browser behind
  \<open>document.cookie\<close> is a part of it with its getter and setter as arguments. What goes through
  JSON is kept as the value itself. A sliding animation is pending until its callback runs.
\<close>

section \<open>Users on the wire\<close>

record user =
  us_name :: "string option"
  us_hash :: "string option"

definition or_undefined :: "string option \<Rightarrow> string" where
  "or_undefined x = (case x of None \<Rightarrow> ''undefined'' | Some t \<Rightarrow> t)"

text \<open>The one property of the object that is sent: its key and the password in its value.\<close>

definition user_toJSON :: "user \<Rightarrow> string \<times> string option" where
  "user_toJSON u = (''user.'' @ or_undefined (us_name u), us_hash u)"

definition parse_user :: "string \<Rightarrow> string option option \<Rightarrow> user outcome" where
  "parse_user key value =
     (case value of
        None \<Rightarrow> Throw (SyntaxError ''JSON.parse'')
      | Some pw \<Rightarrow>
          Ok \<lparr>us_name = (case split_chr (CHR ''.'') key of _ # n # _ \<Rightarrow> Some n | _ \<Rightarrow> None), us_hash = pw\<rparr>)"

text \<open>The reply maps keys to values; a value that is not JSON is \<open>None\<close>.\<close>

fun parse_each :: "string option option jsobj \<Rightarrow> string list \<Rightarrow> user list outcome" where
  "parse_each resp [] = Ok []"
| "parse_each resp (k # ks) =
     bind_outcome (parse_user k (the (oget resp k))) (\<lambda>u. bind_outcome (parse_each resp ks) (\<lambda>us. Ok (u # us)))"

definition parse_users :: "string option option jsobj \<Rightarrow> user list outcome" where
  "parse_users resp = parse_each resp (okeys resp)"

section \<open>State\<close>

datatype view_fx = ShowLogin | ShowLogout

record 'b user_app = dash_app +
  ua_users :: "user list"
  ua_browser :: 'b
  ua_fx :: "view_fx list"
  ua_loginShown :: bool
  ua_logoutLabel :: "string option"
  ua_saveEnabled :: bool
  ua_redirected :: bool
  ua_name :: string
  ua_password :: string
  ua_creates :: "(string \<times> string option) list"
  ua_passwordFocus :: bool

text \<open>The plugin's configuration is never changed, so cookies are encoded strings.\<close>

definition no_env :: "unit env" where
  "no_env = \<lparr>stringify = (\<lambda>_. []), json_parse = (\<lambda>_. None), to_string = (\<lambda>_. []), truthy = (\<lambda>_. True)\<rparr>"

definition app_config :: config where
  "app_config = \<lparr>raw = False, json = False\<rparr>"

definition login_options :: cookie_options where
  "login_options = no_options\<lparr>expires := Some (Days 12), path := Some (u16 ''/'')\<rparr>"

section \<open>Who is logged in\<close>

definition find_user :: "units \<Rightarrow> user list \<Rightarrow> user option" where
  "find_user name us = find (\<lambda>u. map_option u16 (us_name u) = Some name) us"

definition getLoggedInUser :: "'b browser \<Rightarrow> ('b, 'z) user_app_scheme \<Rightarrow> string option outcome" where
  "getLoggedInUser br s =
     (case cookie_get app_config no_env None (doc_get br (ua_browser s)) (u16 ''login'') of
        Throw e \<Rightarrow> Throw e
      | Ok (Some (Str c)) \<Rightarrow>
          (case find_user (hd (split_chr 58 c)) (ua_users s) of None \<Rightarrow> Ok None | Some u \<Rightarrow> Ok (us_name u))
      | Ok _ \<Rightarrow> Ok None)"

definition isLoggedIn :: "'b browser \<Rightarrow> ('b, 'z) user_app_scheme \<Rightarrow> bool outcome" where
  "isLoggedIn br s = bind_outcome (getLoggedInUser br s) (\<lambda>u. Ok (u \<noteq> None))"

section \<open>Views\<close>

definition showViewsWhenNobodyIsLoggedIn :: "('b, 'z) user_app_scheme \<Rightarrow> ('b, 'z) user_app_scheme" where
  "showViewsWhenNobodyIsLoggedIn s = gotohash (s\<lparr>ua_fx := ua_fx s @ [ShowLogin], ua_logoutLabel := None\<rparr>)"

definition showViewsWhenSomebodyIsLoggedIn :: "('b, 'z) user_app_scheme \<Rightarrow> ('b, 'z) user_app_scheme" where
  "showViewsWhenSomebodyIsLoggedIn s = s\<lparr>ua_fx := ua_fx s @ [ShowLogout], ua_loginShown := False\<rparr>"

definition logout_label :: "string option \<Rightarrow> string" where
  "logout_label u = ''User: '' @ (case u of None \<Rightarrow> ''null'' | Some n \<Rightarrow> n)"

text \<open>The callback of the first pending animation; the label of the logout menu is rendered when it slides down.\<close>

definition view_slid :: "'b browser \<Rightarrow> ('b, 'z) user_app_scheme \<Rightarrow> unit outcome \<times> ('b, 'z) user_app_scheme" where
  "view_slid br s =
     (case ua_fx s of
        [] \<Rightarrow> (Ok (), s)
      | ShowLogin # r \<Rightarrow> (Ok (), s\<lparr>ua_fx := r, ua_loginShown := True\<rparr>)
      | ShowLogout # r \<Rightarrow>
          (let s1 = s\<lparr>ua_fx := r\<rparr>
           in case getLoggedInUser br s1 of
                Throw e \<Rightarrow> (Throw e, s1)
              | Ok u \<Rightarrow>
                  (let s2 = s1\<lparr>ua_logoutLabel := Some (logout_label u), da_userName := u, ua_saveEnabled := True\<rparr>
                   in case list_reload s2 of
                        (Throw e, s3) \<Rightarrow> (Throw e, s3)
                      | (Ok _, s3) \<Rightarrow> (Ok (), gotohash s3))))"

definition on_reset :: "'b browser \<Rightarrow> ('b, 'z) user_app_scheme \<Rightarrow> unit outcome \<times> ('b, 'z) user_app_scheme" where
  "on_reset br s =
     (case getLoggedInUser br s of
        Throw e \<Rightarrow> (Throw e, s)
      | Ok None \<Rightarrow> (Ok (), showViewsWhenNobodyIsLoggedIn s)
      | Ok (Some _) \<Rightarrow> (Ok (), showViewsWhenSomebodyIsLoggedIn s))"

text \<open>The reply resets the collection, which is emptied before the reply is parsed.\<close>

definition users_loaded ::
  "'b browser \<Rightarrow> string option option jsobj \<Rightarrow> ('b, 'z) user_app_scheme \<Rightarrow> unit outcome \<times> ('b, 'z) user_app_scheme" where
  "users_loaded br resp s =
     (case parse_users resp of
        Throw e \<Rightarrow> (Throw e, s\<lparr>ua_users := []\<rparr>)
      | Ok us \<Rightarrow> on_reset br (s\<lparr>ua_users := us\<rparr>))"

section \<open>Login\<close>

definition password_hash :: "string \<Rightarrow> string \<Rightarrow> string" where
  "password_hash password username = hash (u16 (password @ '' salt '' @ username)) None"

definition create_question :: "string \<Rightarrow> string" where
  "create_question username = ''Could not load user info -- create new user '' @ username @ ''?''"

definition write_login :: "'b browser \<Rightarrow> string \<Rightarrow> string \<Rightarrow> ('b, 'z) user_app_scheme \<Rightarrow> unit outcome \<times> ('b, 'z) user_app_scheme" where
  "write_login br username hsh s =
     (case cookie_text app_config no_env (ap_clock s) (u16 ''login'') (Str (u16 (username @ '':'' @ hsh))) login_options of
        Throw e \<Rightarrow> (Throw e, s)
      | Ok t \<Rightarrow> (Ok (), showViewsWhenSomebodyIsLoggedIn (s\<lparr>ua_browser := doc_set br t (ua_browser s)\<rparr>)))"

definition login ::
  "'b browser \<Rightarrow> string \<Rightarrow> string \<Rightarrow> bool \<Rightarrow> ('b, 'z) user_app_scheme \<Rightarrow> unit outcome \<times> ('b, 'z) user_app_scheme" where
  "login br username password hashed s =
     (let hsh = (if hashed then password else password_hash password username)
      in case find_user (u16 username) (ua_users s) of
           None \<Rightarrow> (Ok (), snd (choiceDialog (create_question username) [(''create'', ''Yes''), (''no'', ''No'')] s))
         | Some u \<Rightarrow> write_login br username hsh s)"

text \<open>The new user is in the collection before the server has answered.\<close>

definition createUserAndLogin ::
  "'b browser \<Rightarrow> string \<Rightarrow> string \<Rightarrow> ('b, 'z) user_app_scheme \<Rightarrow> unit outcome \<times> ('b, 'z) user_app_scheme" where
  "createUserAndLogin br username hsh s =
     (let u = \<lparr>us_name = Some username, us_hash = Some hsh\<rparr>;
          s1 = s\<lparr>ua_users := ua_users s @ [u], ua_creates := ua_creates s @ [user_toJSON u]\<rparr>
      in case login br username hsh True s1 of
           (Throw e, s2) \<Rightarrow> (Throw e, s2)
         | (Ok _, s2) \<Rightarrow> (Ok (), saveSettings username [] SaveEmpty NoCallback s2))"

text \<open>The answer to the question; the password hash is the one of the question.\<close>

definition create_choice ::
  "'b browser \<Rightarrow> string \<Rightarrow> string \<Rightarrow> string \<Rightarrow> ('b, 'z) user_app_scheme \<Rightarrow> unit outcome \<times> ('b, 'z) user_app_scheme" where
  "create_choice br username hsh opt s =
     (if opt = ''create'' then createUserAndLogin br username hsh s else (Ok (), s))"

section \<open>Logout\<close>

definition on_logged_out :: "('b, 'z) user_app_scheme \<Rightarrow> ('b, 'z) user_app_scheme" where
  "on_logged_out s = s\<lparr>da_hash := [], ua_redirected := True\<rparr>"

definition logout :: "'b browser \<Rightarrow> ('b, 'z) user_app_scheme \<Rightarrow> unit outcome \<times> ('b, 'z) user_app_scheme" where
  "logout br s =
     (case removeCookie app_config no_env br (ap_clock s) (u16 ''login'') login_options (ua_browser s) of
        (Throw e, b) \<Rightarrow> (Throw e, s\<lparr>ua_browser := b\<rparr>)
      | (Ok _, b) \<Rightarrow> (Ok (), on_logged_out (s\<lparr>ua_browser := b\<rparr>)))"

section \<open>The login form\<close>

definition form_login :: "'b browser \<Rightarrow> ('b, 'z) user_app_scheme \<Rightarrow> unit outcome \<times> ('b, 'z) user_app_scheme" where
  "form_login br s = login br (ua_name s) (ua_password s) False s"

definition form_keydown :: "'b browser \<Rightarrow> nat \<Rightarrow> string \<Rightarrow> ('b, 'z) user_app_scheme \<Rightarrow> unit outcome \<times> ('b, 'z) user_app_scheme" where
  "form_keydown br which target s =
     (if which = 13
      then (if target = ''loginname'' then (Ok (), s\<lparr>ua_passwordFocus := True, ua_password := []\<rparr>)
            else form_login br (s\<lparr>ua_passwordFocus := False\<rparr>))
      else (Ok (), s))"

definition form_focus :: "string \<Rightarrow> ('b, 'z) user_app_scheme \<Rightarrow> ('b, 'z) user_app_scheme" where
  "form_focus target s = (if target = ''loginname'' then s\<lparr>ua_name := []\<rparr> else s\<lparr>ua_password := []\<rparr>)"

section \<open>The old login code\<close>

definition is_login_name :: "units \<Rightarrow> bool" where
  "is_login_name n \<longleftrightarrow>
     (let sp = (\<lambda>c. c \<in> {9, 10, 11, 12, 13, 32, 160})
      in rev (dropWhile sp (rev (dropWhile sp n))) = u16 ''login'')"

text \<open>The function that it calls for a login cookie is defined nowhere.\<close>

fun parse_login_cookie :: "units list \<Rightarrow> bool outcome" where
  "parse_login_cookie [] = Ok False"
| "parse_login_cookie (c # cs) =
     (let cookie = split_chr 61 c
      in if is_login_name (hd cookie)
         then bind_outcome (decodeURIComponent (case cookie of _ # v # _ \<Rightarrow> v | _ \<Rightarrow> u16 ''undefined''))
                (\<lambda>_. Throw (ReferenceError ''doLogin is not defined''))
         else parse_login_cookie cs)"

definition maybeParseCookie ::
  "units \<Rightarrow> (('b, 'z) user_app_scheme \<Rightarrow> ('b, 'z) user_app_scheme) \<Rightarrow> ('b, 'z) user_app_scheme \<Rightarrow> unit outcome \<times> ('b, 'z) user_app_scheme" where
  "maybeParseCookie str cb s =
     (case parse_login_cookie (split_chr 59 str) of
        Throw e \<Rightarrow> (Throw e, s)
      | Ok _ \<Rightarrow> (Ok (), cb (s\<lparr>ua_loginShown := True\<rparr>)))"

end
