(* ===== verification/Users_Props.thy ===== *)
theory Users_Props
  imports Users Cookie_Props Dashboard_Props
begin

text \<open>
  Logging in under a known name makes that user the logged in one, creating a user logs it in,
  and users survive the way to the server and back; with the names for which this fails.
\<close>

section \<open>Strings as code units\<close>

lemma u16_inject: "u16 a = u16 b \<longleftrightarrow> a = b"
proof -
  have "inj (\<lambda>c :: char. int (of_char c))" by (auto simp: inj_def)
  then show ?thesis by (simp add: u16_def inj_map_eq_map)
qed

lemma u16_units: "c \<in> set (u16 s) \<Longrightarrow> 0 \<le> c \<and> c < 256"
proof -
  assume "c \<in> set (u16 s)"
  then obtain x where "c = int (of_char (x :: char))" by (auto simp: u16_def)
  moreover have "(of_char x :: nat) < 256" using of_char_mod_256 [of x, where 'a = nat] mod_less_divisor [of 256 "of_char x"] by simp
  ultimately show ?thesis by simp
qed

lemma u16_code_units: "code_units (u16 s)"
  using u16_units by (fastforce simp: code_units_def)

lemma u16_append: "u16 (a @ b) = u16 a @ u16 b"
  by (simp add: u16_def)

lemma u16_colon: "58 \<in> set (u16 s) \<longleftrightarrow> CHR '':'' \<in> set s"
proof -
  have "int (of_char c) = 58 \<longleftrightarrow> c = CHR '':''" for c :: char
  proof
    assume "int (of_char c) = 58"
    then have "(of_char c :: nat) = of_char CHR '':''" by simp
    then show "c = CHR '':''" by (simp only: of_char_eq_iff)
  qed simp
  then show ?thesis by (force simp: u16_def image_iff)
qed

lemma encode_latin: "\<forall>c\<in>set s. 0 \<le> c \<and> c < 256 \<Longrightarrow> \<exists>t. encodeURIComponent s = Ok t"
proof (induction s rule: encodeURIComponent.induct)
  case (3 c d r)
  moreover have "\<not> lo_surrogate c" "\<not> hi_surrogate c" using 3 by (auto simp: lo_surrogate_def hi_surrogate_def)
  ultimately show ?case by (auto simp: bind_outcome_eq_Ok)
qed (auto simp: lo_surrogate_def hi_surrogate_def)

section \<open>The browser\<close>

text \<open>
  What the browser does with a cookie that has not expired: it shows the pair in front of the
  first semicolon, among pairs of other names that can be decoded.
\<close>

definition keeps_login :: "'b browser \<Rightarrow> 'b \<Rightarrow> bool" where
  "keeps_login br b \<longleftrightarrow>
     (\<forall>t. \<exists>pre post. doc_get br (doc_set br t b) = join_str (u16 ''; '') (pre @ [takeWhile (\<lambda>c. c \<noteq> 59) t] @ post) \<and>
        (\<forall>c\<in>set pre. 59 \<notin> set c \<and> (\<exists>n. decodeURIComponent (cookie_name c) = Ok n \<and> n \<noteq> u16 ''login'')) \<and>
        (\<forall>c\<in>set post. 59 \<notin> set c))"

lemma write_login_reads:
  assumes "keeps_login br (ua_browser s)"
  shows "\<exists>s'. write_login br n h s = (Ok (), s') \<and> ua_users s' = ua_users s \<and> ua_creates s' = ua_creates s \<and>
    cookie_get app_config no_env None (doc_get br (ua_browser s')) (u16 ''login'') = Ok (Some (Str (u16 (n @ '':'' @ h))))"
proof -
  have "\<exists>k. encodeURIComponent (u16 ''login'') = Ok k" "\<exists>w. encodeURIComponent (u16 (n @ '':'' @ h)) = Ok w"
    using u16_units by (blast intro: encode_latin)+
  then obtain t where t: "cookie_text app_config no_env (ap_clock s) (u16 ''login'') (Str (u16 (n @ '':'' @ h))) login_options = Ok t"
    by (auto simp: cookie_text_def cookie_encode_def stringifyCookieValue_def string_of_value_def app_config_def)
  obtain pre post where p: "doc_get br (doc_set br t (ua_browser s)) = join_str (u16 ''; '') (pre @ [takeWhile (\<lambda>c. c \<noteq> 59) t] @ post)"
      "\<forall>c\<in>set pre. 59 \<notin> set c \<and> (\<exists>n. decodeURIComponent (cookie_name c) = Ok n \<and> n \<noteq> u16 ''login'')" "\<forall>c\<in>set post. 59 \<notin> set c"
    using assms unfolding keeps_login_def by blast
  have "cookie_get app_config no_env None (doc_get br (doc_set br t (ua_browser s))) (u16 ''login'') = Ok (Some (Str (u16 (n @ '':'' @ h))))"
    unfolding p(1) app_config_def
    by (rule cookie_read_back [OF u16_code_units u16_code_units t [unfolded app_config_def] p(2,3)])
  then show ?thesis using t by (simp add: write_login_def showViewsWhenSomebodyIsLoggedIn_def)
qed

lemma find_user_name: "find_user (u16 n) us = Some u \<Longrightarrow> us_name u = Some n"
  by (auto simp: find_user_def find_Some_iff u16_inject)

lemma split_login: "CHR '':'' \<notin> set n \<Longrightarrow> hd (split_chr 58 (u16 (n @ '':'' @ h))) = u16 n"
proof -
  assume "CHR '':'' \<notin> set n"
  then have "58 \<notin> set (u16 n)" by (simp add: u16_colon)
  moreover have "u16 (n @ '':'' @ h) = u16 n @ 58 # u16 h" by (simp add: u16_def)
  ultimately show ?thesis by (simp add: split_chr_append_sep)
qed

lemma login_known:
  assumes "keeps_login br (ua_browser s)" "find_user (u16 n) (ua_users s) = Some u" "CHR '':'' \<notin> set n"
  shows "\<exists>s'. login br n pw hashed s = (Ok (), s') \<and> getLoggedInUser br s' = Ok (Some n) \<and>
    ua_creates s' = ua_creates s"
proof -
  obtain s' where s': "write_login br n (if hashed then pw else password_hash pw n) s = (Ok (), s')" "ua_users s' = ua_users s" "ua_creates s' = ua_creates s"
      "cookie_get app_config no_env None (doc_get br (ua_browser s')) (u16 ''login'') =
         Ok (Some (Str (u16 (n @ '':'' @ (if hashed then pw else password_hash pw n)))))"
    using write_login_reads [OF assms(1)] by blast
  then have "getLoggedInUser br s' = Ok (Some n)"
    using assms(2) split_login [OF assms(3)] find_user_name [OF assms(2)] by (simp add: getLoggedInUser_def)
  then show ?thesis using s' assms(2) by (simp add: login_def Let_def)
qed

lemma saveSettings_frame [app_simps]:
  "ua_users (saveSettings a b v c s) = ua_users s" "ua_browser (saveSettings a b v c s) = ua_browser s"
  "ua_creates (saveSettings a b v c s) = ua_creates s"
  by (simp_all add: saveSettings_def begin_progress_def Let_def)

lemma getLoggedInUser_cong:
  "ua_users s = ua_users t \<Longrightarrow> ua_browser s = ua_browser t \<Longrightarrow> getLoggedInUser br s = getLoggedInUser br t"
  unfolding getLoggedInUser_def by (simp only:)

lemma find_snoc: "find P xs = None \<Longrightarrow> find P (xs @ [y]) = (if P y then Some y else None)"
  by (induction xs) (auto split: if_splits)



definition demo_browser :: "units list browser" where
  "demo_browser =
     \<lparr>doc_get = join_str (u16 ''; ''),
      doc_set = (\<lambda>t b. filter (\<lambda>c. cookie_name c \<noteq> cookie_name (takeWhile (\<lambda>c. c \<noteq> 59) t)) b @ [takeWhile (\<lambda>c. c \<noteq> 59) t])\<rparr>"

definition demo_users :: "(units list, unit) user_app_scheme" where
  "demo_users = dash_app.extend demo_dash (user_app.fields [\<lparr>us_name = Some ''ann'', us_hash = None\<rparr>] [] [] False None False False [] [] [] False)"

lemma demo_keeps: "keeps_login demo_browser (ua_browser demo_users)"
proof -
  have "ua_browser demo_users = []" by (simp add: demo_users_def user_app.defs dash_app.defs)
  then show ?thesis unfolding keeps_login_def by (intro allI exI [of _ "[]"]) (simp add: demo_browser_def)
qed



text \<open>A user whose name has no dot comes back from the server as it was sent.\<close>

theorem user_wire_roundtrip:
  "CHR ''.'' \<notin> set n \<Longrightarrow>
   parse_user (fst (user_toJSON \<lparr>us_name = Some n, us_hash = h\<rparr>)) (Some (snd (user_toJSON \<lparr>us_name = Some n, us_hash = h\<rparr>))) =
     Ok \<lparr>us_name = Some n, us_hash = h\<rparr>"
  using split_chr_append_sep [of "CHR ''.''" "''user''" n]
  by (simp add: parse_user_def user_toJSON_def or_undefined_def split_chr_notin)

theorem user_wire_roundtrip_witness:
  "parse_user ''user.ann'' (Some (Some ''1f'')) = Ok \<lparr>us_name = Some ''ann'', us_hash = Some ''1f''\<rparr>"
  using user_wire_roundtrip [of "''ann''" "Some ''1f''"] by (simp add: user_toJSON_def or_undefined_def)

text \<open>A name with a dot is cut off on the way back, so its owner is unknown after a reload.\<close>

theorem dotted_user_is_cut:
  "parse_user (fst (user_toJSON \<lparr>us_name = Some ''ann.lee'', us_hash = h\<rparr>)) (Some h) = Ok \<lparr>us_name = Some ''ann'', us_hash = h\<rparr>"
  by (simp add: parse_user_def user_toJSON_def or_undefined_def)

text \<open>The login cookie of a name with a colon names nobody, or somebody else.\<close>

theorem colon_user_is_somebody_else:
  "hd (split_chr 58 (u16 (''ann:x'' @ '':'' @ h))) = u16 ''ann''"
proof -
  have "u16 (''ann:x'' @ '':'' @ h) = u16 ''ann'' @ 58 # u16 (''x:'' @ h)" by (simp add: u16_def)
  moreover have "58 \<notin> set (u16 ''ann'')" by (simp add: u16_def)
  ultimately show ?thesis using split_chr_append_sep [of 58 "u16 ''ann''" "u16 (''x:'' @ h)"] by simp
qed

text \<open>The old cookie code cannot log anybody in: for a login cookie it calls an undefined function.\<close>

theorem maybeParseCookie_fails:
  "maybeParseCookie (u16 ''a=1; login=ann%3A1f'') cb s = (Throw (ReferenceError ''doLogin is not defined''), s)"
proof -
  have "parse_login_cookie (split_chr 59 (u16 ''a=1; login=ann%3A1f'')) = Throw (ReferenceError ''doLogin is not defined'')"
    by code_simp
  then show ?thesis by (simp add: maybeParseCookie_def)
qed
end
