(* ===== verification/Js_Action.thy ===== *)
theory Js_Action
  imports Js_Object
begin

text \<open>
  Operations on a world that may throw, and that may not return: the result is \<open>None\<close> when they do
  not. The methods of Backbone's models and of the tree widget are such operations, because they
  call listeners and callbacks that the client gives them.
\<close>

section \<open>Operations that may throw or not return\<close>

type_synonym ('a, 'w) act = "'w \<Rightarrow> ('a outcome \<times> 'w) option"

definition retM :: "'a \<Rightarrow> ('a, 'w) act" where
  "retM x w = Some (Ok x, w)"

definition throwM :: "js_error \<Rightarrow> ('a, 'w) act" where
  "throwM e w = Some (Throw e, w)"

definition bindM :: "('a, 'w) act \<Rightarrow> ('a \<Rightarrow> ('b, 'w) act) \<Rightarrow> ('b, 'w) act" where
  "bindM m f w =
     (case m w of
        None \<Rightarrow> None
      | Some (Throw e, w1) \<Rightarrow> Some (Throw e, w1)
      | Some (Ok x, w1) \<Rightarrow> f x w1)"

definition modifyM :: "('w \<Rightarrow> 'w) \<Rightarrow> (unit, 'w) act" where
  "modifyM f w = Some (Ok (), f w)"

definition whenM :: "bool \<Rightarrow> (unit, 'w) act \<Rightarrow> (unit, 'w) act" where
  "whenM b m = (if b then m else retM ())"

fun eachM :: "('x \<Rightarrow> (unit, 'w) act) \<Rightarrow> 'x list \<Rightarrow> (unit, 'w) act" where
  "eachM f [] = retM ()"
| "eachM f (x # xs) = bindM (f x) (\<lambda>_. eachM f xs)"

lemma retM_eq [simp]: "retM x w = Some (Ok x, w)"
  by (simp add: retM_def)

lemma modifyM_eq [simp]: "modifyM f w = Some (Ok (), f w)"
  by (simp add: modifyM_def)

lemma throwM_eq [simp]: "throwM e w = Some (Throw e, w)"
  by (simp add: throwM_def)

text \<open>An action keeps a property of the world, however it ends.\<close>

definition keeps :: "('w \<Rightarrow> bool) \<Rightarrow> ('a, 'w) act \<Rightarrow> bool" where
  "keeps P m \<longleftrightarrow> (\<forall>w r w'. P w \<longrightarrow> m w = Some (r, w') \<longrightarrow> P w')"

lemma keepsD: "keeps P m \<Longrightarrow> P w \<Longrightarrow> m w = Some (r, w') \<Longrightarrow> P w'"
  by (auto simp: keeps_def)

lemma keeps_retM [intro]: "keeps P (retM x)"
  by (simp add: keeps_def)

lemma keeps_throwM [intro]: "keeps P (throwM e)"
  by (simp add: keeps_def)

lemma keeps_modifyM [intro]: "(\<And>w. P w \<Longrightarrow> P (f w)) \<Longrightarrow> keeps P (modifyM f)"
  by (simp add: keeps_def)

lemma keeps_whenM [intro]: "(b \<Longrightarrow> keeps P m) \<Longrightarrow> keeps P (whenM b m)"
  by (simp add: whenM_def keeps_retM)

lemma keepsI: "(\<And>w r w'. P w \<Longrightarrow> m w = Some (r, w') \<Longrightarrow> P w') \<Longrightarrow> keeps P m"
  by (simp add: keeps_def)

lemma keeps_bindM [intro]:
  assumes "keeps P m" "\<And>x. keeps P (f x)"
  shows "keeps P (bindM m f)"
proof (rule keepsI)
  fix w r w'
  assume P: "P w" and m: "bindM m f w = Some (r, w')"
  then obtain q w1 where q: "m w = Some (q, w1)" by (cases "m w") (auto simp: bindM_def)
  have P1: "P w1" by (rule keepsD [OF assms(1) P q])
  show "P w'"
  proof (cases q)
    case (Ok x)
    then show ?thesis using m q keepsD [OF assms(2) P1] by (simp add: bindM_def)
  next
    case (Throw e)
    then show ?thesis using m q P1 by (simp add: bindM_def)
  qed
qed

lemma keeps_eachM [intro]: "(\<And>x. x \<in> set xs \<Longrightarrow> keeps P (f x)) \<Longrightarrow> keeps P (eachM f xs)"
  by (induction xs) auto

text \<open>An action that looks at the world first.\<close>

lemma keeps_read:
  assumes "\<And>w. P w \<Longrightarrow> keeps P (m w)"
  shows "keeps P (\<lambda>w. m w w)"
proof (rule keepsI)
  fix w r w' assume "P w" "m w w = Some (r, w')"
  then show "P w'" using keepsD [of P "m w" w r w'] assms by blast
qed

lemma bindM_Ok: "m t = Some (Ok x, u) \<Longrightarrow> bindM m f t = f x u"
  by (simp add: bindM_def)

lemma bindM_OkE:
  assumes "bindM m f t = Some (Ok y, v)"
  obtains x u where "m t = Some (Ok x, u)" "f x u = Some (Ok y, v)"
  using assms by (auto simp: bindM_def split: option.splits outcome.splits)

end
