(* ===== verification/Bb_Model.thy ===== *)
theory Bb_Model
  imports Bb_Events Js_Action
begin

text \<open>
  \<open>Backbone.Model\<close> and \<open>Backbone.sync\<close> of src/files/backbone.js. The models are records in a store.
  What the listeners of an object do when it triggers an event is an argument: they may change
  the whole world, throw, or not come back, so an operation is a function of the world whose
  result is \<open>None\<close> when it does not return. Attribute values are compared structurally, as
  \<open>_.isEqual\<close> does on what JSON can hold; attribute names are not names of members that every
  object inherits. A request is answered after the call that made it has returned.
\<close>

section \<open>Models\<close>

datatype 'v jsval = Undefined | Null | Val 'v

type_synonym 'v attrs = "'v jsval jsobj"

definition lookup :: "'v attrs \<Rightarrow> string \<Rightarrow> 'v jsval" where
  "lookup ob k = (case oget ob k of None \<Rightarrow> Undefined | Some v \<Rightarrow> v)"

record mopts =
  o_unset :: bool
  o_silent :: bool
  o_validate :: "bool option"
  o_wait :: bool
  o_patch :: bool
  o_parse :: "bool option"

definition no_opts :: mopts where
  "no_opts = \<lparr>o_unset = False, o_silent = False, o_validate = None, o_wait = False, o_patch = False, o_parse = None\<rparr>"

record 'v model =
  attributes :: "'v attrs"
  m_id :: "'v jsval"
  m_cid :: string
  changed :: "'v attrs"
  previousAttributes :: "'v attrs option"
  changing :: bool
  pending :: "mopts option"
  validationError :: "'v option"
  m_collection :: "ref option"

text \<open>What a subclass may override.\<close>

record 'v model_class =
  c_defaults :: "'v attrs"
  c_validate :: "('v attrs \<Rightarrow> mopts \<Rightarrow> 'v option) option"
  c_parse :: "'v attrs \<Rightarrow> 'v attrs"
  c_toJSON :: "'v attrs \<Rightarrow> 'v attrs"
  c_url :: "'v model \<Rightarrow> string outcome"

datatype 'v request_data = NoData | Json "'v attrs" | Form "'v attrs option" "string option"

record 'v sync_request =
  rq_model :: ref
  rq_type :: string
  rq_url :: string
  rq_data :: "'v request_data"
  rq_contentType :: "string option"
  rq_override :: "string option"
  rq_processData :: bool
  rq_activeX :: bool

record 'v models =
  mods :: "ref \<Rightarrow> 'v model"
  next_mod :: ref
  cidCounter :: nat
  requests :: "'v sync_request list"

datatype 'v bevent =
    ChangeAttr "'v jsval"
  | Change
  | Invalid 'v
  | Request
  | Sync
  | Failed
  | Destroy
  | Added
  | Removed nat
  | Sorted
  | Resetted

type_synonym ('v, 'w) notify = "ref \<Rightarrow> string \<Rightarrow> 'v bevent \<Rightarrow> mopts \<Rightarrow> (unit, 'w) act"

definition mupd :: "ref \<Rightarrow> ('v model \<Rightarrow> 'v model) \<Rightarrow> ('v, 'z) models_scheme \<Rightarrow> ('v, 'z) models_scheme" where
  "mupd r f w = w\<lparr>mods := (mods w)(r := f (mods w r))\<rparr>"

text \<open>\<open>trigger\<close>: a name with blanks stands for several events.\<close>

definition fire :: "('v, 'w) notify \<Rightarrow> ref \<Rightarrow> string \<Rightarrow> 'v bevent \<Rightarrow> mopts \<Rightarrow> (unit, 'w) act" where
  "fire nt r name ev opts = eachM (\<lambda>n. nt r n ev opts) (name_list name)"

definition idAttribute :: string where
  "idAttribute = ''id''"

definition merge_attrs :: "'v attrs \<Rightarrow> 'v attrs \<Rightarrow> 'v attrs" where
  "merge_attrs dst src = fold (\<lambda>k. oset k (lookup src k)) (okeys src) dst"

section \<open>Reading\<close>

definition model_get :: "string \<Rightarrow> 'v model \<Rightarrow> 'v jsval" where
  "model_get attr m = lookup (attributes m) attr"

definition model_has :: "string \<Rightarrow> 'v model \<Rightarrow> bool" where
  "model_has attr m \<longleftrightarrow> model_get attr m \<noteq> Undefined \<and> model_get attr m \<noteq> Null"

definition isNew :: "'v model \<Rightarrow> bool" where
  "isNew m \<longleftrightarrow> \<not> model_has idAttribute m"

definition hasChanged :: "string option \<Rightarrow> 'v model \<Rightarrow> bool" where
  "hasChanged attr m \<longleftrightarrow> (case attr of None \<Rightarrow> changed m \<noteq> [] | Some a \<Rightarrow> oget (changed m) a \<noteq> None)"

text \<open>The attributes that changed, or those of a given object that would; \<open>None\<close> is \<open>false\<close>.\<close>

definition changedAttributes :: "'v attrs option \<Rightarrow> 'v model \<Rightarrow> 'v attrs option" where
  "changedAttributes diff m =
     (case diff of
        None \<Rightarrow> if hasChanged None m then Some (changed m) else None
      | Some d \<Rightarrow>
          (let old = (if changing m then (case previousAttributes m of None \<Rightarrow> [] | Some p \<Rightarrow> p) else attributes m)
           in fold (\<lambda>a ch. if lookup old a = lookup d a then ch
                           else Some (oset a (lookup d a) (case ch of None \<Rightarrow> [] | Some c \<Rightarrow> c))) (okeys d) None))"

definition previous :: "string \<Rightarrow> 'v model \<Rightarrow> 'v jsval" where
  "previous attr m = (case previousAttributes m of None \<Rightarrow> Null | Some p \<Rightarrow> lookup p attr)"

section \<open>set\<close>

text \<open>\<open>_validate\<close>: the attributes the model would have are checked when the options ask for it.\<close>

definition validate_model ::
  "('v, ('v, 'z) models_scheme) notify \<Rightarrow> 'v model_class \<Rightarrow> ref \<Rightarrow> 'v attrs \<Rightarrow> mopts \<Rightarrow> (bool, ('v, 'z) models_scheme) act" where
  "validate_model nt cls r attrs opts w =
     (case c_validate cls of
        None \<Rightarrow> retM True w
      | Some check \<Rightarrow>
          (if o_validate opts \<noteq> Some True then retM True w
           else (let error = check (merge_attrs (attributes (mods w r)) attrs) opts;
                     w1 = mupd r (\<lambda>m. m\<lparr>validationError := error\<rparr>) w
                 in case error of
                      None \<Rightarrow> retM True w1
                    | Some e \<Rightarrow> bindM (fire nt r ''invalid'' (Invalid e) opts) (\<lambda>_. retM False) w1)))"

text \<open>The start of \<open>set\<close>: a call that is not nested takes down the previous attributes.\<close>

definition begin_set :: "'v attrs \<Rightarrow> 'v model \<Rightarrow> 'v model" where
  "begin_set attrs m =
     (let m1 = (if changing m then m else m\<lparr>previousAttributes := Some (attributes m), changed := []\<rparr>)
      in m1\<lparr>changing := True, m_id := (case oget attrs idAttribute of None \<Rightarrow> m_id m1 | Some v \<Rightarrow> v)\<rparr>)"

definition prev_attrs :: "'v model \<Rightarrow> 'v attrs" where
  "prev_attrs m = (case previousAttributes m of None \<Rightarrow> [] | Some p \<Rightarrow> p)"

definition write_attr :: "bool \<Rightarrow> 'v attrs \<Rightarrow> string \<Rightarrow> string list \<times> 'v model \<Rightarrow> string list \<times> 'v model" where
  "write_attr unset attrs attr cm =
     (case cm of (changes, m) \<Rightarrow>
        let val = lookup attrs attr
        in (if lookup (attributes m) attr \<noteq> val then changes @ [attr] else changes,
            m\<lparr>changed := (if lookup (prev_attrs m) attr \<noteq> val then oset attr val (changed m) else odel attr (changed m)),
              attributes := (if unset then odel attr (attributes m) else oset attr val (attributes m))\<rparr>))"

definition write_attrs :: "'v attrs \<Rightarrow> mopts \<Rightarrow> 'v model \<Rightarrow> string list \<times> 'v model" where
  "write_attrs attrs opts m = fold (write_attr (o_unset opts) attrs) (okeys attrs) ([], begin_set attrs m)"

definition change_event :: "string \<Rightarrow> string" where
  "change_event a = ''change:'' @ a"

definition announce ::
  "('v, ('v, 'z) models_scheme) notify \<Rightarrow> ref \<Rightarrow> string list \<Rightarrow> mopts \<Rightarrow> (unit, ('v, 'z) models_scheme) act" where
  "announce nt r changes opts =
     bindM (whenM (changes \<noteq> []) (modifyM (mupd r (\<lambda>m. m\<lparr>pending := Some opts\<rparr>)))) (\<lambda>_.
       eachM (\<lambda>a w. fire nt r (change_event a) (ChangeAttr (model_get a (mods w r))) opts w) changes)"

text \<open>The loop over pending changes, which listeners may make again and again.\<close>

partial_function (option) flush ::
  "('v, ('v, 'z) models_scheme) notify \<Rightarrow> ref \<Rightarrow> (unit, ('v, 'z) models_scheme) act" where
  "flush nt r w =
     (case pending (mods w r) of
        None \<Rightarrow> Some (Ok (), w)
      | Some opts \<Rightarrow>
          Option.bind (fire nt r ''change'' Change opts (mupd r (\<lambda>m. m\<lparr>pending := None\<rparr>) w))
            (\<lambda>(res, w1). case res of Throw e \<Rightarrow> Some (Throw e, w1) | Ok _ \<Rightarrow> flush nt r w1))"

declare flush.simps [code]

definition finish_set :: "ref \<Rightarrow> (unit, ('v, 'z) models_scheme) act" where
  "finish_set r = modifyM (mupd r (\<lambda>m. m\<lparr>pending := None, changing := False\<rparr>))"

definition model_set ::
  "('v, ('v, 'z) models_scheme) notify \<Rightarrow> 'v model_class \<Rightarrow> ref \<Rightarrow> 'v attrs \<Rightarrow> mopts \<Rightarrow> (bool, ('v, 'z) models_scheme) act" where
  "model_set nt cls r attrs opts =
     bindM (validate_model nt cls r attrs opts) (\<lambda>valid.
       if \<not> valid then retM False
       else (\<lambda>w.
         let nested = changing (mods w r);
             (changes, m) = write_attrs attrs opts (mods w r)
         in bindM (whenM (\<not> o_silent opts) (announce nt r changes opts)) (\<lambda>_.
              if nested then retM True
              else bindM (whenM (\<not> o_silent opts) (flush nt r)) (\<lambda>_.
                     bindM (finish_set r) (\<lambda>_. retM True)))
              (mupd r (\<lambda>_. m) w)))"

definition model_unset ::
  "('v, ('v, 'z) models_scheme) notify \<Rightarrow> 'v model_class \<Rightarrow> ref \<Rightarrow> string \<Rightarrow> mopts \<Rightarrow> (bool, ('v, 'z) models_scheme) act" where
  "model_unset nt cls r attr opts = model_set nt cls r [(attr, Undefined)] (opts\<lparr>o_unset := True\<rparr>)"

definition model_clear ::
  "('v, ('v, 'z) models_scheme) notify \<Rightarrow> 'v model_class \<Rightarrow> ref \<Rightarrow> mopts \<Rightarrow> (bool, ('v, 'z) models_scheme) act" where
  "model_clear nt cls r opts w =
     model_set nt cls r (fold (\<lambda>k. oset k Undefined) (okeys (attributes (mods w r))) []) (opts\<lparr>o_unset := True\<rparr>) w"

definition isValid :: "('v, ('v, 'z) models_scheme) notify \<Rightarrow> 'v model_class \<Rightarrow> ref \<Rightarrow> mopts \<Rightarrow> (bool, ('v, 'z) models_scheme) act" where
  "isValid nt cls r opts = validate_model nt cls r [] (opts\<lparr>o_validate := Some True\<rparr>)"

section \<open>Making models\<close>

text \<open>\<open>_.defaults\<close>: a missing or undefined member is taken from the next object.\<close>

definition fill_defaults :: "'v attrs \<Rightarrow> 'v attrs \<Rightarrow> 'v attrs" where
  "fill_defaults dst src =
     fold (\<lambda>k d. if lookup d k = Undefined then oset k (lookup src k) d else d) (okeys src) dst"

definition blank_model :: "string \<Rightarrow> ref option \<Rightarrow> 'v model" where
  "blank_model cid coll =
     \<lparr>attributes = [], m_id = Undefined, m_cid = cid, changed = [], previousAttributes = None, changing = False,
      pending = None, validationError = None, m_collection = coll\<rparr>"

definition new_model ::
  "('v, ('v, 'z) models_scheme) notify \<Rightarrow> 'v model_class \<Rightarrow> (ref \<Rightarrow> (unit, ('v, 'z) models_scheme) act) \<Rightarrow> 'v attrs \<Rightarrow>
     ref option \<Rightarrow> mopts \<Rightarrow> (ref, ('v, 'z) models_scheme) act" where
  "new_model nt cls initialize attrs coll opts w =
     (let r = next_mod w;
          w1 = w\<lparr>mods := (mods w)(r := blank_model (''c'' @ nat_str (Suc (cidCounter w))) coll),
                 next_mod := Suc r, cidCounter := Suc (cidCounter w)\<rparr>;
          given = (if o_parse opts = Some True then c_parse cls attrs else attrs)
      in bindM (model_set nt cls r (fill_defaults (fill_defaults [] given) (c_defaults cls)) opts) (\<lambda>_.
           bindM (modifyM (mupd r (\<lambda>m. m\<lparr>changed := []\<rparr>))) (\<lambda>_.
             bindM (initialize r) (\<lambda>_. retM r))) w1)"

definition model_clone ::
  "('v, ('v, 'z) models_scheme) notify \<Rightarrow> 'v model_class \<Rightarrow> (ref \<Rightarrow> (unit, ('v, 'z) models_scheme) act) \<Rightarrow> ref \<Rightarrow>
     (ref, ('v, 'z) models_scheme) act" where
  "model_clone nt cls initialize r w = new_model nt cls initialize (attributes (mods w r)) None no_opts w"

section \<open>The server\<close>

record sync_env =
  e_emulateHTTP :: bool
  e_emulateJSON :: bool
  e_noXhrPatch :: bool

definition methodMap :: "string \<Rightarrow> string" where
  "methodMap method =
     (if method = ''create'' then ''POST'' else if method = ''update'' then ''PUT'' else if method = ''patch'' then ''PATCH''
      else if method = ''delete'' then ''DELETE'' else ''GET'')"

definition urlError :: "'a outcome" where
  "urlError = Throw (ErrorMsg ''A \"url\" property or function must be specified'')"

definition sends_data :: "string \<Rightarrow> bool" where
  "sends_data method \<longleftrightarrow> method \<in> {''create'', ''update'', ''patch''}"

text \<open>The request \<open>sync\<close> makes for a model or collection with this address and JSON form.\<close>

definition make_request :: "sync_env \<Rightarrow> string \<Rightarrow> ref \<Rightarrow> string \<Rightarrow> 'v attrs \<Rightarrow> 'v sync_request" where
  "make_request env method obj url json =
     (let type = methodMap method;
          masked = e_emulateHTTP env \<and> type \<in> {''PUT'', ''DELETE'', ''PATCH''};
          type1 = (if masked then ''POST'' else type);
          body = (if sends_data method then Some json else None)
      in \<lparr>rq_model = obj, rq_type = type1, rq_url = url,
          rq_data = (if e_emulateJSON env then Form body (if masked then Some type else None)
                     else case body of None \<Rightarrow> NoData | Some d \<Rightarrow> Json d),
          rq_contentType = (if e_emulateJSON env then Some ''application/x-www-form-urlencoded''
                            else if sends_data method then Some ''application/json'' else None),
          rq_override = (if masked then Some type else None),
          rq_processData = (type1 = ''GET'' \<or> e_emulateJSON env),
          rq_activeX = (type1 = ''PATCH'' \<and> e_noXhrPatch env)\<rparr>)"

definition sync ::
  "('v, ('v, 'z) models_scheme) notify \<Rightarrow> sync_env \<Rightarrow> string \<Rightarrow> ref \<Rightarrow> string outcome \<Rightarrow> 'v attrs \<Rightarrow> mopts \<Rightarrow>
     (unit, ('v, 'z) models_scheme) act" where
  "sync nt env method obj url json opts =
     (case url of
        Throw e \<Rightarrow> throwM e
      | Ok u \<Rightarrow>
          (if u = [] then (\<lambda>w. Some (urlError, w))
           else bindM (modifyM (\<lambda>w. w\<lparr>requests := requests w @ [make_request env method obj u json]\<rparr>)) (\<lambda>_.
                  fire nt obj ''request'' Request opts)))"

text \<open>The address of a model: below its own root or its collection's; an identifier follows a slash.\<close>

definition with_slash :: "string \<Rightarrow> string" where
  "with_slash base = (if base \<noteq> [] \<and> last base \<noteq> CHR ''/'' then base @ ''/'' else base)"

definition default_url :: "string option \<Rightarrow> string option \<Rightarrow> ('v jsval \<Rightarrow> string outcome) \<Rightarrow> 'v model \<Rightarrow> string outcome" where
  "default_url urlRoot coll_url encoded m =
     (case filter (\<lambda>u. u \<noteq> []) (map the (filter (\<lambda>u. u \<noteq> None) [urlRoot, coll_url])) of
        [] \<Rightarrow> urlError
      | base # _ \<Rightarrow>
          if isNew m then Ok base
          else bind_outcome (encoded (m_id m)) (\<lambda>i. Ok (with_slash base @ i)))"

definition parse_opts :: "mopts \<Rightarrow> mopts" where
  "parse_opts opts = (if o_parse opts = None then opts\<lparr>o_parse := Some True\<rparr> else opts)"

definition model_fetch ::
  "('v, ('v, 'z) models_scheme) notify \<Rightarrow> 'v model_class \<Rightarrow> sync_env \<Rightarrow> ref \<Rightarrow> mopts \<Rightarrow> (unit, ('v, 'z) models_scheme) act" where
  "model_fetch nt cls env r opts w = sync nt env ''read'' r (c_url cls (mods w r)) [] (parse_opts opts) w"

text \<open>The answer to \<open>fetch\<close>; a \<open>null\<close> answer sets nothing. The caller's own callback is an argument.\<close>

definition fetch_success ::
  "('v, ('v, 'z) models_scheme) notify \<Rightarrow> 'v model_class \<Rightarrow> (unit, ('v, 'z) models_scheme) act \<Rightarrow> ref \<Rightarrow> 'v attrs option \<Rightarrow> mopts \<Rightarrow>
     (unit, ('v, 'z) models_scheme) act" where
  "fetch_success nt cls success r resp opts =
     bindM (case resp of None \<Rightarrow> retM True | Some a \<Rightarrow> model_set nt cls r (c_parse cls a) (parse_opts opts)) (\<lambda>ok.
       if \<not> ok then retM ()
       else bindM success (\<lambda>_. fire nt r ''sync'' Sync (parse_opts opts)))"

definition request_error ::
  "('v, ('v, 'z) models_scheme) notify \<Rightarrow> (unit, ('v, 'z) models_scheme) act \<Rightarrow> ref \<Rightarrow> mopts \<Rightarrow> (unit, ('v, 'z) models_scheme) act" where
  "request_error nt error r opts = bindM error (\<lambda>_. fire nt r ''error'' Failed opts)"

definition save_opts :: "mopts \<Rightarrow> mopts" where
  "save_opts opts = parse_opts (opts\<lparr>o_validate := Some (case o_validate opts of None \<Rightarrow> True | Some b \<Rightarrow> b)\<rparr>)"

definition save_method :: "mopts \<Rightarrow> 'v model \<Rightarrow> string" where
  "save_method opts m = (if isNew m then ''create'' else if o_patch opts then ''patch'' else ''update'')"

text \<open>
  With \<open>wait\<close> the model has the new attributes only while the request is made. The \<open>set\<close> before
  the request sees the options as they are then, with \<open>parse\<close> still unset.
\<close>

definition save_request ::
  "('v, ('v, 'z) models_scheme) notify \<Rightarrow> 'v model_class \<Rightarrow> sync_env \<Rightarrow> ref \<Rightarrow> 'v attrs option \<Rightarrow> mopts \<Rightarrow> (bool, ('v, 'z) models_scheme) act" where
  "save_request nt cls env r attrs opts w =
     (let before = attributes (mods w r);
          w1 = (case attrs of
                  Some a \<Rightarrow> if o_wait opts then mupd r (\<lambda>m. m\<lparr>attributes := merge_attrs before a\<rparr>) w else w
                | None \<Rightarrow> w);
          method = save_method opts (mods w1 r);
          json = (case attrs of
                    Some a \<Rightarrow> if method = ''patch'' then a else c_toJSON cls (attributes (mods w1 r))
                  | None \<Rightarrow> c_toJSON cls (attributes (mods w1 r)))
      in bindM (sync nt env method r (c_url cls (mods w1 r)) json opts) (\<lambda>_.
           bindM (whenM (attrs \<noteq> None \<and> o_wait opts) (modifyM (mupd r (\<lambda>m. m\<lparr>attributes := before\<rparr>)))) (\<lambda>_.
             retM True)) w1)"

definition model_save ::
  "('v, ('v, 'z) models_scheme) notify \<Rightarrow> 'v model_class \<Rightarrow> sync_env \<Rightarrow> ref \<Rightarrow> 'v attrs option \<Rightarrow> mopts \<Rightarrow> (bool, ('v, 'z) models_scheme) act" where
  "model_save nt cls env r attrs opts =
     (let o1 = opts\<lparr>o_validate := o_validate (save_opts opts)\<rparr>
      in bindM (case attrs of
                  Some a \<Rightarrow> if o_wait opts then validate_model nt cls r a o1 else model_set nt cls r a o1
                | None \<Rightarrow> validate_model nt cls r [] o1) (\<lambda>ok.
           if ok then save_request nt cls env r attrs (save_opts opts) else retM False))"

definition save_success ::
  "('v, ('v, 'z) models_scheme) notify \<Rightarrow> 'v model_class \<Rightarrow> (unit, ('v, 'z) models_scheme) act \<Rightarrow> ref \<Rightarrow> 'v attrs option \<Rightarrow> 'v attrs option \<Rightarrow>
     mopts \<Rightarrow> (unit, ('v, 'z) models_scheme) act" where
  "save_success nt cls success r attrs resp opts =
     (let given = (case attrs of None \<Rightarrow> [] | Some a \<Rightarrow> a);
          server = map_option (c_parse cls) resp;
          server1 = (if o_wait opts then Some (case server of None \<Rightarrow> given | Some a \<Rightarrow> merge_attrs given a) else server)
      in bindM (case server1 of None \<Rightarrow> retM True | Some a \<Rightarrow> model_set nt cls r a (save_opts opts)) (\<lambda>ok.
           if \<not> ok then retM ()
           else bindM success (\<lambda>_. fire nt r ''sync'' Sync (save_opts opts))))"

definition destroy_success ::
  "('v, ('v, 'z) models_scheme) notify \<Rightarrow> (unit, ('v, 'z) models_scheme) act \<Rightarrow> ref \<Rightarrow> mopts \<Rightarrow> (unit, ('v, 'z) models_scheme) act" where
  "destroy_success nt success r opts =
     bindM (\<lambda>w. whenM (o_wait opts \<or> isNew (mods w r)) (fire nt r ''destroy'' Destroy opts) w) (\<lambda>_.
       bindM success (\<lambda>_. (\<lambda>w. whenM (\<not> isNew (mods w r)) (fire nt r ''sync'' Sync opts) w)))"

definition model_destroy ::
  "('v, ('v, 'z) models_scheme) notify \<Rightarrow> 'v model_class \<Rightarrow> sync_env \<Rightarrow> (unit, ('v, 'z) models_scheme) act \<Rightarrow> ref \<Rightarrow> mopts \<Rightarrow>
     (bool, ('v, 'z) models_scheme) act" where
  "model_destroy nt cls env success r opts w =
     (if isNew (mods w r) then bindM (destroy_success nt success r opts) (\<lambda>_. retM False) w
      else bindM (sync nt env ''delete'' r (c_url cls (mods w r)) [] opts) (\<lambda>_.
             bindM (whenM (\<not> o_wait opts) (fire nt r ''destroy'' Destroy opts)) (\<lambda>_. retM True)) w)"

end
