(* ===== verification/Bb_Model_Props.thy ===== *)
theory Bb_Model_Props
  imports Bb_Model
begin

text \<open>
  Properties of \<open>Backbone.Model\<close>. While a change is announced, \<open>changed\<close> is exactly the
  difference between the attributes and those before the change, however deeply listeners nest
  further changes; a change is announced once per attribute and once as a whole; a listener that
  throws leaves the model in the changing state, after which it announces no change any more.
\<close>

section \<open>The difference\<close>

definition changed_exact :: "'v model \<Rightarrow> bool" where
  "changed_exact m \<longleftrightarrow>
     (\<forall>k. oget (changed m) k =
        (if lookup (attributes m) k = lookup (prev_attrs m) k then None else Some (lookup (attributes m) k)))"

definition changed_ok :: "('v, 'z) models_scheme \<Rightarrow> bool" where
  "changed_ok w \<longleftrightarrow> (\<forall>r. changing (mods w r) \<longrightarrow> changed_exact (mods w r))"

abbreviation in_change :: "ref \<Rightarrow> ('v, 'z) models_scheme \<Rightarrow> bool" where
  "in_change r w \<equiv> changing (mods w r)"

text \<open>A deletion is asked for with undefined values only.\<close>

definition unset_ok :: "'v attrs \<Rightarrow> mopts \<Rightarrow> bool" where
  "unset_ok attrs opts \<longleftrightarrow> (o_unset opts \<longrightarrow> (\<forall>k. lookup attrs k = Undefined))"

lemma lookup_oset [simp]: "lookup (oset k v ob) k' = (if k' = k then v else lookup ob k')"
  by (simp add: lookup_def oget_oset)

lemma lookup_odel [simp]: "lookup (odel k ob) k' = (if k' = k then Undefined else lookup ob k')"
  by (simp add: lookup_def oget_odel)

lemma lookup_Nil [simp]: "lookup [] k = Undefined"
  by (simp add: lookup_def oget_def)

lemma begin_set_simps [simp]:
  "attributes (begin_set attrs m) = attributes m" "changing (begin_set attrs m)"
  "pending (begin_set attrs m) = pending m" "m_cid (begin_set attrs m) = m_cid m"
  by (simp_all add: begin_set_def Let_def)

lemma begin_set_exact: "(changing m \<Longrightarrow> changed_exact m) \<Longrightarrow> changed_exact (begin_set attrs m)"
  by (auto simp: begin_set_def changed_exact_def prev_attrs_def oget_def Let_def)

lemma write_attr_exact:
  assumes "changed_exact m" "un \<longrightarrow> lookup attrs a = Undefined"
  shows "changed_exact (snd (write_attr un attrs a (ch, m)))"
  using assms by (auto simp: changed_exact_def write_attr_def prev_attrs_def obj_simps Let_def)

lemma write_attr_frame [simp]:
  "changing (snd (write_attr un attrs a cm)) = changing (snd cm)"
  "pending (snd (write_attr un attrs a cm)) = pending (snd cm)"
  "previousAttributes (snd (write_attr un attrs a cm)) = previousAttributes (snd cm)"
  by (simp_all add: write_attr_def case_prod_unfold Let_def)

lemma write_fold_frame [simp]:
  "changing (snd (fold (write_attr un attrs) ks cm)) = changing (snd cm)"
  "pending (snd (fold (write_attr un attrs) ks cm)) = pending (snd cm)"
  "previousAttributes (snd (fold (write_attr un attrs) ks cm)) = previousAttributes (snd cm)"
  by (induction ks arbitrary: cm) simp_all

lemma write_fold_exact:
  assumes "un \<longrightarrow> (\<forall>k. lookup attrs k = Undefined)" "changed_exact (snd cm)"
  shows "changed_exact (snd (fold (write_attr un attrs) ks cm))"
  using assms(2)
proof (induction ks arbitrary: cm)
  case (Cons k ks)
  have "changed_exact (snd (write_attr un attrs k cm))"
    using write_attr_exact [of "snd cm" un attrs k "fst cm"] Cons.prems assms(1) by simp
  then show ?case using Cons.IH by simp
qed simp

lemma write_attrs_exact:
  "unset_ok attrs opts \<Longrightarrow> (changing m \<Longrightarrow> changed_exact m) \<Longrightarrow> changed_exact (snd (write_attrs attrs opts m))"
  unfolding write_attrs_def by (rule write_fold_exact) (simp_all add: unset_ok_def begin_set_exact)

lemma write_attrs_frame [simp]:
  "changing (snd (write_attrs attrs opts m))"
  "pending (snd (write_attrs attrs opts m)) = pending m"
  by (simp_all add: write_attrs_def)

lemma mods_mupd [simp]: "mods (mupd r f w) r' = (if r' = r then f (mods w r) else mods w r')"
  by (simp add: mupd_def)

lemma mupd_mupd [simp]: "mupd r f (mupd r g w) = mupd r (\<lambda>m. f (g m)) w"
  by (simp add: mupd_def)

lemma changed_ok_mupd:
  "changed_ok w \<Longrightarrow> (changing (f (mods w r)) \<Longrightarrow> changed_exact (f (mods w r))) \<Longrightarrow> changed_ok (mupd r f w)"
  by (simp add: changed_ok_def)

lemma changed_exact_fields [simp]:
  "changed_exact (m\<lparr>pending := p\<rparr>) = changed_exact m"
  "changed_exact (m\<lparr>changing := c\<rparr>) = changed_exact m"
  "changed_exact (m\<lparr>validationError := e\<rparr>) = changed_exact m"
  by (simp_all add: changed_exact_def prev_attrs_def)

lemma flush_keeps:
  assumes "\<And>opts. keeps P (fire nt r ''change'' Change opts)"
    and "\<And>w. P w \<Longrightarrow> P (mupd r (\<lambda>m. m\<lparr>pending := None\<rparr>) w)"
  shows "keeps P (flush nt r)"
proof (rule keepsI)
  fix w q w'
  assume P: "P w" and f: "flush nt r w = Some (q, w')"
  have "nt = nt \<longrightarrow> r = r \<longrightarrow> P w \<longrightarrow> P (snd (q, w'))"
  proof (rule flush.raw_induct [where P = "\<lambda>n s w y. n = nt \<longrightarrow> s = r \<longrightarrow> P w \<longrightarrow> P (snd y)", OF _ f], intro impI)
    fix rec n s v y
    assume IH: "\<And>n s v y. rec n s v = Some y \<Longrightarrow> n = nt \<longrightarrow> s = r \<longrightarrow> P v \<longrightarrow> P (snd y)"
      and b: "(case pending (mods v s) of None \<Rightarrow> Some (Ok (), v)
        | Some opts \<Rightarrow> Option.bind (fire n s ''change'' Change opts (mupd s (\<lambda>m. m\<lparr>pending := None\<rparr>) v))
            (\<lambda>(res, w1). case res of Ok x \<Rightarrow> rec n s w1 | Throw e \<Rightarrow> Some (Throw e, w1))) = Some y"
      and ns: "n = nt" "s = r" and v: "P v"
    show "P (snd y)"
    proof (cases "pending (mods v s)")
      case (Some opts)
      then obtain res w1 where r1: "fire nt r ''change'' Change opts (mupd r (\<lambda>m. m\<lparr>pending := None\<rparr>) v) = Some (res, w1)"
        using b ns by (auto split: bind_splits)
      have "P w1" by (rule keepsD [OF assms(1) assms(2) [OF v] r1])
      then show ?thesis using b Some r1 ns IH [of nt r w1 y] by (cases res) auto
    qed (use b v in auto)
  qed
  then show "P w'" using P by simp
qed

lemma validate_model_keeps:
  assumes "\<And>e. keeps P (fire nt r ''invalid'' (Invalid e) opts)"
    and "\<And>w e. P w \<Longrightarrow> P (mupd r (\<lambda>m. m\<lparr>validationError := e\<rparr>) w)"
  shows "keeps P (validate_model nt cls r attrs opts)"
proof (rule keepsI)
  fix w q w'
  assume P: "P w" and v: "validate_model nt cls r attrs opts w = Some (q, w')"
  have b: "keeps P (bindM (fire nt r ''invalid'' (Invalid e) opts) (\<lambda>_. retM False))" for e
    using assms(1) by blast
  show "P w'"
  proof (cases "c_validate cls = None \<or> o_validate opts \<noteq> Some True")
    case True
    then show ?thesis using v P by (auto simp: validate_model_def split: option.splits)
  next
    case False
    then obtain check where c: "c_validate cls = Some check" by auto
    let ?e = "check (merge_attrs (attributes (mods w r)) attrs) opts"
    have P1: "P (mupd r (\<lambda>m. m\<lparr>validationError := ?e\<rparr>) w)" by (rule assms(2) [OF P])
    show ?thesis
    proof (cases ?e)
      case None
      then show ?thesis using v c False P1 by (auto simp: validate_model_def)
    next
      case (Some e)
      then show ?thesis using v c False keepsD [OF b [of e] P1] by (auto simp: validate_model_def)
    qed
  qed
qed

lemma announce_keeps:
  assumes "\<And>n e. keeps P (fire nt r n e opts)"
    and "\<And>w. P w \<Longrightarrow> P (mupd r (\<lambda>m. m\<lparr>pending := Some opts\<rparr>) w)"
  shows "keeps P (announce nt r ch opts)"
proof -
  have "keeps P (\<lambda>w. fire nt r (change_event a) (ChangeAttr (model_get a (mods w r))) opts w)" for a
    using keepsD [OF assms(1)] by (rule keepsI)
  then show ?thesis unfolding announce_def using assms(2) by blast
qed

text \<open>A property that the events, the bookkeeping and the writing keep is kept by \<open>set\<close>.\<close>

lemma model_set_keeps:
  assumes fire: "\<And>n e opts. keeps P (fire nt r n e opts)"
    and pend: "\<And>w p. P w \<Longrightarrow> P (mupd r (\<lambda>m. m\<lparr>pending := p\<rparr>) w)"
    and err: "\<And>w e. P w \<Longrightarrow> P (mupd r (\<lambda>m. m\<lparr>validationError := e\<rparr>) w)"
    and wr: "\<And>w. P w \<Longrightarrow> P (mupd r (\<lambda>_. snd (write_attrs attrs opts (mods w r))) w)"
    and fin: "\<And>w v. P v \<Longrightarrow> \<not> in_change r v \<Longrightarrow> P w \<Longrightarrow> P (mupd r (\<lambda>m. m\<lparr>pending := None, changing := False\<rparr>) w)"
  shows "keeps P (model_set nt cls r attrs opts)"
proof -
  have body: "P w'"
    if P: "P w" and b: "(let nested = in_change r w; (ch, m) = write_attrs attrs opts (mods w r)
        in bindM (whenM (\<not> o_silent opts) (announce nt r ch opts)) (\<lambda>_.
             if nested then retM True
             else bindM (whenM (\<not> o_silent opts) (flush nt r)) (\<lambda>_. bindM (finish_set r) (\<lambda>_. retM True)))
             (mupd r (\<lambda>_. m) w)) = Some (q, w')" for w q w'
  proof -
    obtain ch m where wa: "write_attrs attrs opts (mods w r) = (ch, m)" by fastforce
    have P1: "P (mupd r (\<lambda>_. m) w)" using wr [OF P] wa by simp
    have "keeps P (finish_set r)" if "\<not> in_change r w"
      unfolding finish_set_def using fin [OF P that] by blast
    then have k: "keeps P (bindM (whenM (\<not> o_silent opts) (announce nt r ch opts)) (\<lambda>_.
        if in_change r w then retM True
        else bindM (whenM (\<not> o_silent opts) (flush nt r)) (\<lambda>_. bindM (finish_set r) (\<lambda>_. retM True))))"
      by (cases "in_change r w") (auto intro!: keeps_bindM keeps_whenM keeps_retM announce_keeps flush_keeps fire pend)
    show ?thesis using b wa keepsD [OF k P1] by simp
  qed
  then have "keeps P (\<lambda>w. let nested = in_change r w; (ch, m) = write_attrs attrs opts (mods w r)
        in bindM (whenM (\<not> o_silent opts) (announce nt r ch opts)) (\<lambda>_.
             if nested then retM True
             else bindM (whenM (\<not> o_silent opts) (flush nt r)) (\<lambda>_. bindM (finish_set r) (\<lambda>_. retM True)))
             (mupd r (\<lambda>_. m) w))"
    by (rule keepsI)
  then show ?thesis
    unfolding model_set_def by (auto intro!: keeps_bindM validate_model_keeps fire err)
qed

text \<open>\<open>set\<close> without validation, for a call that is not nested and for one that is.\<close>

definition no_validation :: "'v model_class \<Rightarrow> mopts \<Rightarrow> bool" where
  "no_validation cls opts \<longleftrightarrow> c_validate cls = None \<or> o_validate opts \<noteq> Some True"

lemma no_validation_valid: "no_validation cls opts \<Longrightarrow> validate_model nt cls r attrs opts = retM True"
  by (auto simp: fun_eq_iff no_validation_def validate_model_def split: option.splits)

lemma bindM_retM [simp]: "bindM (retM x) f = f x"
  by (simp add: fun_eq_iff bindM_def)

lemma bindM_assoc: "bindM (bindM m f) g = bindM m (\<lambda>x. bindM (f x) g)"
  by (auto simp: fun_eq_iff bindM_def split: option.splits outcome.splits)

lemma bindM_Ok_iff: "bindM m f w = Some (Ok y, w') \<longleftrightarrow> (\<exists>x w1. m w = Some (Ok x, w1) \<and> f x w1 = Some (Ok y, w'))"
  by (auto simp: bindM_def split: option.splits outcome.splits)

lemma bindM_Throw:
  "bindM m f w = Some (Throw e, w') \<longleftrightarrow>
     m w = Some (Throw e, w') \<or> (\<exists>x w1. m w = Some (Ok x, w1) \<and> f x w1 = Some (Throw e, w'))"
  by (auto simp: bindM_def split: option.splits outcome.splits)

lemma bindM_Throw_first:
  "bindM m f w = Some (Throw e, w') \<Longrightarrow> (\<And>x w1. f x w1 \<noteq> Some (Throw e, w')) \<Longrightarrow> m w = Some (Throw e, w')"
  by (auto simp: bindM_Throw)

lemma model_set_outer:
  assumes "no_validation cls opts" "\<not> in_change r w"
  shows "model_set nt cls r attrs opts w =
    bindM (bindM (whenM (\<not> o_silent opts) (announce nt r (fst (write_attrs attrs opts (mods w r))) opts))
       (\<lambda>_. whenM (\<not> o_silent opts) (flush nt r))) (\<lambda>_. bindM (finish_set r) (\<lambda>_. retM True))
      (mupd r (\<lambda>_. snd (write_attrs attrs opts (mods w r))) w)"
  using assms by (simp add: model_set_def no_validation_valid bindM_assoc case_prod_unfold Let_def)

lemma model_set_nested:
  assumes "no_validation cls opts" "in_change r w"
  shows "model_set nt cls r attrs opts w =
    bindM (whenM (\<not> o_silent opts) (announce nt r (fst (write_attrs attrs opts (mods w r))) opts)) (\<lambda>_. retM True)
      (mupd r (\<lambda>_. snd (write_attrs attrs opts (mods w r))) w)"
  using assms by (simp add: model_set_def no_validation_valid case_prod_unfold Let_def)

section \<open>Listeners\<close>

text \<open>What the library asks of listeners: they change models through the models' own operations.\<close>

locale listeners =
  fixes nt :: "('v, ('v, 'z) models_scheme) notify"
  assumes nt_changed: "keeps changed_ok (nt r n ev opts)"
    and nt_changing: "keeps (in_change r') (nt r n ev opts)"
begin

lemma fire_keeps: "keeps changed_ok (fire nt r n ev opts)" "keeps (in_change r') (fire nt r n ev opts)"
  unfolding fire_def by (auto intro: nt_changed nt_changing)

lemma set_keeps_changed: "unset_ok attrs opts \<Longrightarrow> keeps changed_ok (model_set nt cls r attrs opts)"
  by (rule model_set_keeps)
    (auto intro: fire_keeps changed_ok_mupd write_attrs_exact simp: changed_ok_def)

lemma set_keeps_changing: "keeps (in_change r') (model_set nt cls r attrs opts)"
  by (rule model_set_keeps) (auto intro: fire_keeps)

lemma change_part_keeps:
  "keeps (\<lambda>w. changed_ok w \<and> in_change r w)
     (bindM (whenM b (announce nt r ch opts)) (\<lambda>_. whenM b (flush nt r)))"
proof -
  have f: "keeps (\<lambda>w. changed_ok w \<and> in_change r w) (fire nt r n e o')" for n e o'
    using keepsD [OF fire_keeps(1)] keepsD [OF fire_keeps(2)] by (intro keepsI conjI) blast+
  show ?thesis
    by (intro keeps_bindM keeps_whenM announce_keeps flush_keeps f)
      (auto intro: changed_ok_mupd simp: changed_ok_def)
qed

lemma change_part_result:
  assumes "changed_ok w" "unset_ok attrs opts"
    and "bindM (whenM b (announce nt r (fst (write_attrs attrs opts (mods w r))) opts)) (\<lambda>_. whenM b (flush nt r))
      (mupd r (\<lambda>_. snd (write_attrs attrs opts (mods w r))) w) = Some (q, w')"
  shows "changed_ok w' \<and> in_change r w'"
proof (rule keepsD [OF change_part_keeps _ assms(3)])
  show "changed_ok (mupd r (\<lambda>_. snd (write_attrs attrs opts (mods w r))) w) \<and>
      in_change r (mupd r (\<lambda>_. snd (write_attrs attrs opts (mods w r))) w)"
    using assms(1,2) by (auto intro!: changed_ok_mupd write_attrs_exact simp: changed_ok_def)
qed

lemma set_result_exact:
  assumes "changed_ok w" "unset_ok attrs opts" "no_validation cls opts" "\<not> in_change r w"
    and "model_set nt cls r attrs opts w = Some (Ok True, w')"
  shows "changed_exact (mods w' r)"
proof -
  obtain w1 where w1: "bindM (whenM (\<not> o_silent opts) (announce nt r (fst (write_attrs attrs opts (mods w r))) opts))
      (\<lambda>_. whenM (\<not> o_silent opts) (flush nt r)) (mupd r (\<lambda>_. snd (write_attrs attrs opts (mods w r))) w) = Some (Ok (), w1)"
    "w' = mupd r (\<lambda>m. m\<lparr>pending := None, changing := False\<rparr>) w1"
    using assms(5) unfolding model_set_outer [OF assms(3,4)]
    by (auto simp: bindM_Ok_iff bindM_assoc finish_set_def)
  then show ?thesis
    using change_part_result [OF assms(1,2) w1(1)] by (simp add: changed_ok_def)
qed

lemma set_throw_blocks:
  assumes "no_validation cls opts" "model_set nt cls r attrs opts w = Some (Throw e, w')"
  shows "in_change r w'"
proof -
  have f: "keeps (in_change r) (fire nt r n e o')" for n e o' by (rule fire_keeps)
  have k: "keeps (in_change r) (bindM (whenM b (announce nt r ch opts)) (\<lambda>_. whenM c (flush nt r)))" for b c ch
    by (intro keeps_bindM keeps_whenM announce_keeps flush_keeps f) auto
  have i: "in_change r (mupd r (\<lambda>_. snd (write_attrs attrs opts (mods w r))) w)" by simp
  show ?thesis
  proof (cases "in_change r w")
    case True
    then show ?thesis using assms(2) keepsD [OF set_keeps_changing] by blast
  next
    case False
    have "bindM (whenM (\<not> o_silent opts) (announce nt r (fst (write_attrs attrs opts (mods w r))) opts))
        (\<lambda>_. whenM (\<not> o_silent opts) (flush nt r)) (mupd r (\<lambda>_. snd (write_attrs attrs opts (mods w r))) w) = Some (Throw e, w')"
      by (rule bindM_Throw_first [OF assms(2) [unfolded model_set_outer [OF assms(1) False]]])
        (simp add: finish_set_def bindM_def)
    then show ?thesis by (rule keepsD [OF k i])
  qed
qed

end

section \<open>Changes nobody hears\<close>

text \<open>When every listener of a model does nothing in the worlds that matter, \<open>set\<close> only writes.\<close>

lemma fire_unheard:
  assumes "\<And>n ev opts w. Q w \<Longrightarrow> nt r n ev opts w = Some (Ok (), w)" "Q w"
  shows "fire nt r n ev opts w = Some (Ok (), w)"
proof -
  have "eachM (\<lambda>n. nt r n ev opts) ns w = Some (Ok (), w)" for ns
    using assms by (induction ns) (simp_all add: bindM_def)
  then show ?thesis by (simp add: fire_def)
qed

lemma announce_unheard:
  assumes "\<And>n ev opts w. Q w \<Longrightarrow> nt r n ev opts w = Some (Ok (), w)" "\<And>w f. Q w \<Longrightarrow> Q (mupd r f w)" "Q w"
  shows "announce nt r ch opts w = Some (Ok (), if ch = [] then w else mupd r (\<lambda>m. m\<lparr>pending := Some opts\<rparr>) w)"
proof -
  have "eachM (\<lambda>a w. fire nt r (change_event a) (ChangeAttr (model_get a (mods w r))) opts w) cs w = Some (Ok (), w)"
    if "Q w" for cs w
    using fire_unheard [of Q nt r, OF assms(1) that] by (induction cs) (simp_all add: bindM_def)
  then show ?thesis using assms(2,3) by (simp add: announce_def bindM_def whenM_def)
qed

lemma flush_unheard:
  assumes "\<And>n ev opts w. Q w \<Longrightarrow> nt r n ev opts w = Some (Ok (), w)" "\<And>w f. Q w \<Longrightarrow> Q (mupd r f w)" "Q w"
  shows "flush nt r w = Some (Ok (), if pending (mods w r) = None then w else mupd r (\<lambda>m. m\<lparr>pending := None\<rparr>) w)"
  using fire_unheard [of Q nt r, OF assms(1) assms(2) [OF assms(3)]]
  by (subst flush.simps, simp split: option.split) (simp add: flush.simps [of nt r])

lemma model_set_unheard:
  assumes "\<And>n ev opts w. Q w \<Longrightarrow> nt r n ev opts w = Some (Ok (), w)" "\<And>w f. Q w \<Longrightarrow> Q (mupd r f w)" "Q w"
    and "no_validation cls opts" "\<not> in_change r w"
  shows "model_set nt cls r attrs opts w =
    Some (Ok True, mupd r (\<lambda>_. (snd (write_attrs attrs opts (mods w r)))\<lparr>pending := None, changing := False\<rparr>) w)"
  unfolding model_set_outer [OF assms(4,5)]
  using announce_unheard [of Q nt r, OF assms(1,2)] flush_unheard [of Q nt r, OF assms(1,2)] assms(2,3)
  by (simp add: bindM_def whenM_def finish_set_def)

section \<open>What is announced\<close>

text \<open>A listener that takes down what it is told.\<close>

record 'v watched = "'v models" +
  seen :: "(ref \<times> string \<times> 'v bevent) list"

definition watch :: "('v, ('v, 'z) watched_scheme) notify" where
  "watch r n ev opts w = Some (Ok (), w\<lparr>seen := seen w @ [(r, n, ev)]\<rparr>)"

definition plain_name :: "string \<Rightarrow> bool" where
  "plain_name a \<longleftrightarrow> \<not> list_ex is_space a"

lemma fire_plain: "plain_name n \<Longrightarrow> fire nt r n ev opts = nt r n ev opts"
  by (simp add: fire_def name_list_def plain_name_def fun_eq_iff bindM_def split: option.splits prod.splits outcome.splits)

lemma plain_change: "plain_name ''change''" "plain_name a \<Longrightarrow> plain_name (change_event a)"
  by (simp_all add: plain_name_def is_space_def change_event_def)

interpretation watch: listeners watch
  by unfold_locales (auto intro!: keepsI simp: watch_def changed_ok_def)

lemma watch_each:
  assumes "\<forall>a\<in>set ch. plain_name a"
  shows "eachM (\<lambda>a w. fire watch r (change_event a) (ChangeAttr (model_get a (mods w r))) opts w) ch w =
    Some (Ok (), w\<lparr>seen := seen w @ map (\<lambda>a. (r, change_event a, ChangeAttr (model_get a (mods w r)))) ch\<rparr>)"
  using assms
proof (induction ch arbitrary: w)
  case (Cons a ch)
  then show ?case by (simp add: bindM_def fire_plain plain_change watch_def)
qed simp

lemma watch_announce:
  assumes "\<forall>a\<in>set ch. plain_name a"
  shows "announce watch r ch opts w =
    (let w1 = (if ch = [] then w else mupd r (\<lambda>m. m\<lparr>pending := Some opts\<rparr>) w)
     in Some (Ok (), w1\<lparr>seen := seen w @ map (\<lambda>a. (r, change_event a, ChangeAttr (model_get a (mods w r)))) ch\<rparr>))"
  unfolding announce_def
  by (cases "ch = []") (simp_all add: bindM_def whenM_def watch_each [OF assms, unfolded model_get_def] model_get_def mupd_def)

lemma watch_flush:
  "flush watch r w =
     (case pending (mods w r) of
        None \<Rightarrow> Some (Ok (), w)
      | Some opts \<Rightarrow> Some (Ok (), (mupd r (\<lambda>m. m\<lparr>pending := None\<rparr>) w)\<lparr>seen := seen w @ [(r, ''change'', Change)]\<rparr>))"
  by (subst flush.simps, simp add: fire_plain plain_change watch_def split: option.split)
    (auto simp: flush.simps [of watch r] mupd_def)

lemma write_attr_attributes:
  "lookup (attributes (snd (write_attr un attrs a cm))) k =
     (if k = a then (if un then Undefined else lookup attrs a) else lookup (attributes (snd cm)) k)"
  by (simp add: write_attr_def case_prod_unfold Let_def)

lemma write_fold_attributes:
  "lookup (attributes (snd (fold (write_attr un attrs) ks cm))) k =
     (if k \<in> set ks then (if un then Undefined else lookup attrs k) else lookup (attributes (snd cm)) k)"
  by (induction ks arbitrary: cm) (auto simp: write_attr_attributes)

lemma write_fold_changes:
  assumes "distinct ks"
  shows "fst (fold (write_attr un attrs) ks cm) =
    fst cm @ filter (\<lambda>a. lookup (attributes (snd cm)) a \<noteq> lookup attrs a) ks"
  using assms
proof (induction ks arbitrary: cm)
  case (Cons a ks)
  have "filter (\<lambda>b. lookup (attributes (snd (write_attr un attrs a cm))) b \<noteq> lookup attrs b) ks =
      filter (\<lambda>b. lookup (attributes (snd cm)) b \<noteq> lookup attrs b) ks"
    using Cons.prems by (auto simp: write_attr_attributes intro!: filter_cong)
  moreover have "fst (write_attr un attrs a cm) =
      fst cm @ (if lookup (attributes (snd cm)) a \<noteq> lookup attrs a then [a] else [])"
    by (simp add: write_attr_def case_prod_unfold Let_def)
  ultimately show ?case using Cons by simp
qed simp

definition differing :: "'v attrs \<Rightarrow> 'v model \<Rightarrow> string list" where
  "differing attrs m = filter (\<lambda>a. model_get a m \<noteq> lookup attrs a) (okeys attrs)"

lemma write_attrs_result:
  assumes "wf_obj attrs" "unset_ok attrs opts"
  shows "fst (write_attrs attrs opts m) = differing attrs m"
    "model_get k (snd (write_attrs attrs opts m)) = (if k \<in> set (okeys attrs) then lookup attrs k else model_get k m)"
  using assms
  by (auto simp: write_attrs_def write_fold_changes write_fold_attributes differing_def model_get_def distinct_okeys unset_ok_def)

lemma write_attrs_previous:
  "\<not> changing m \<Longrightarrow> previousAttributes (snd (write_attrs attrs opts m)) = Some (attributes m)"
  by (simp add: write_attrs_def begin_set_def Let_def)

text \<open>C7: a change that is not silent is announced once for every attribute that differs, in the order
  in which the attributes are visited and with the new value, and then once as a whole; nothing is
  announced when nothing differs. The model then has the new attributes, remembers the ones before
  and is ready for the next change.\<close>

theorem set_announces:
  fixes w :: "('v, 'z) watched_scheme"
  assumes "no_validation cls opts" "\<not> o_silent opts" "\<not> changing (mods w r)" "pending (mods w r) = None"
    and "wf_obj attrs" "\<forall>a\<in>set (okeys attrs). plain_name a" "unset_ok attrs opts"
  shows "\<exists>w'. model_set watch cls r attrs opts w = Some (Ok True, w') \<and>
    seen w' = seen w @ map (\<lambda>a. (r, change_event a, ChangeAttr (lookup attrs a))) (differing attrs (mods w r)) @
      (if differing attrs (mods w r) = [] then [] else [(r, ''change'', Change)]) \<and>
    (\<forall>k. model_get k (mods w' r) = (if k \<in> set (okeys attrs) then lookup attrs k else model_get k (mods w r))) \<and>
    (\<forall>k. previous k (mods w' r) = model_get k (mods w r)) \<and>
    \<not> changing (mods w' r) \<and> pending (mods w' r) = None"
proof -
  let ?m = "snd (write_attrs attrs opts (mods w r))" and ?d = "differing attrs (mods w r)"
  let ?w = "mupd r (\<lambda>_. ?m) w"
  have pl: "\<forall>a\<in>set ?d. plain_name a" using assms(6) by (simp add: differing_def)
  have new: "map (\<lambda>a. (r, change_event a, ChangeAttr (model_get a ?m))) ?d =
      map (\<lambda>a. (r, change_event a, ChangeAttr (lookup attrs a))) ?d"
    by (auto simp: write_attrs_result(2) [OF assms(5,7)] differing_def)
  have wf: "fst (write_attrs attrs opts (mods w r)) = ?d" by (rule write_attrs_result(1) [OF assms(5,7)])
  have pre: "previousAttributes ?m = Some (attributes (mods w r))"
    by (rule write_attrs_previous [OF assms(3)])
  have "model_set watch cls r attrs opts w = Some (Ok True,
      (mupd r (\<lambda>_. ?m\<lparr>pending := None, changing := False\<rparr>) w)\<lparr>seen := seen w @
        map (\<lambda>a. (r, change_event a, ChangeAttr (lookup attrs a))) ?d @ (if ?d = [] then [] else [(r, ''change'', Change)])\<rparr>)"
    unfolding model_set_outer [OF assms(1,3)] wf
    using assms(2,4) new
    by (simp add: bindM_def whenM_def watch_announce [OF pl] watch_flush finish_set_def mupd_def)
  then show ?thesis
    by (simp add: pre previous_def model_get_def write_attrs_result(2) [OF assms(5,7), unfolded model_get_def])
qed

text \<open>A model to try things on, with one attribute.\<close>

definition plain_class :: "'v model_class" where
  "plain_class = \<lparr>c_defaults = [], c_validate = None, c_parse = id, c_toJSON = id, c_url = (\<lambda>_. urlError)\<rparr>"

definition demo_models :: "nat watched" where
  "demo_models =
     \<lparr>mods = (\<lambda>_. (blank_model ''c1'' None)\<lparr>attributes := [(''a'', Val 1), (''c'', Val 5)]\<rparr>), next_mod = 1, cidCounter = 1,
      requests = [], seen = []\<rparr>"

theorem set_announces_witness:
  "\<exists>w'. model_set watch plain_class 0 [(''a'', Val 2), (''b'', Val 3), (''c'', Val 5)] no_opts demo_models = Some (Ok True, w') \<and>
    seen w' = [(0, ''change:a'', ChangeAttr (Val 2)), (0, ''change:b'', ChangeAttr (Val 3)), (0, ''change'', Change)]"
proof -
  let ?a = "[(''a'', Val 2), (''b'', Val 3), (''c'', Val (5 :: nat))]"
  have d: "differing ?a (mods demo_models 0) = [''a'', ''b'']" by code_simp
  have "wf_obj ?a" "\<forall>x\<in>set (okeys ?a). plain_name x" by code_simp+
  then show ?thesis
    using set_announces [of plain_class no_opts demo_models 0 ?a] d
    by (auto simp: demo_models_def blank_model_def no_validation_def plain_class_def no_opts_def unset_ok_def
        change_event_def lookup_def oget_def)
qed


text \<open>A listener that answers the change of one attribute by changing another.\<close>

definition ignore_events :: "('v, ('v, 'z) models_scheme) notify" where
  "ignore_events r n ev opts = retM ()"

definition echo_listener :: "(nat, (nat, 'z) models_scheme) notify" where
  "echo_listener r n ev opts =
     (if n = ''change:a'' then bindM (model_set ignore_events plain_class r [(''b'', Val 9)] no_opts) (\<lambda>_. retM ())
      else retM ())"

interpretation ignore_events: listeners ignore_events
  by unfold_locales (auto simp: ignore_events_def)

interpretation echo_listener: listeners echo_listener
proof
  have u: "unset_ok [(''b'', Val 9)] no_opts" by (simp add: unset_ok_def no_opts_def)
  show "keeps changed_ok (echo_listener r n ev opts)" for r n ev opts
    by (auto simp: echo_listener_def intro!: keeps_bindM ignore_events.set_keeps_changed u)
  show "keeps (in_change r') (echo_listener r n ev opts)" for r' r n ev opts
    by (auto simp: echo_listener_def intro!: keeps_bindM ignore_events.set_keeps_changing)
qed


end
