(* ===== verification/Bb_Collection.thy ===== *)
theory Bb_Collection
  imports Bb_Model_Props
begin

text \<open>
  \<open>Backbone.Collection\<close> of src/files/backbone.js: one collection over the store of models. The
  array of models, the index, the length the code counts by hand and the number of times the
  collection listens to each model are kept as the code keeps them. What other listeners do is an
  argument; they run before the collection's own listener. Options that are not given are \<open>None\<close>
  or false. What sorting by the comparator gives, and the text of an identifier as a property
  name, are part of the class of the collection; a text that names an inherited member is not an
  identifier. An index option is not negative.
\<close>

section \<open>State\<close>

record copts = mopts +
  o_add :: "bool option"
  o_remove :: "bool option"
  o_merge :: "bool option"
  o_at :: "nat option"
  o_sort :: bool
  o_reset :: bool

definition no_copts :: copts where
  "no_copts = mopts.extend no_opts
     \<lparr>o_add = None, o_remove = None, o_merge = None, o_at = None, o_sort = True, o_reset = False\<rparr>"

record 'v collection = "'v models" +
  models :: "ref list"
  byId :: "ref jsobj"
  len :: int
  heard :: "ref \<Rightarrow> nat"
  coll_self :: ref

datatype 'v input = Attrs "'v attrs" | Model ref

record 'v coll_class =
  cc_model :: "'v model_class"
  cc_sort :: "((ref \<Rightarrow> 'v model) \<Rightarrow> ref list \<Rightarrow> ref list) option"
  cc_sortAttr :: "string option"
  cc_parse :: "'v input list \<Rightarrow> 'v input list"
  cc_key :: "'v jsval \<Rightarrow> string"
  cc_url :: "string outcome"

type_synonym ('a, 'v, 'z) coll_act = "('a, ('v, 'z) collection_scheme) act"
type_synonym ('v, 'z) coll_notify = "('v, ('v, 'z) collection_scheme) notify"

abbreviation plain_opts :: "copts \<Rightarrow> mopts" where
  "plain_opts \<equiv> mopts.truncate"

section \<open>Looking up\<close>

text \<open>\<open>get\<close> of an identifier and of a model: the identifier's text, the model's identifier, its client identifier.\<close>

definition get_by_id :: "'v coll_class \<Rightarrow> 'v jsval \<Rightarrow> ('v, 'z) collection_scheme \<Rightarrow> ref option" where
  "get_by_id cc i w =
     (if i = Undefined \<or> i = Null then None
      else case oget (byId w) (cc_key cc i) of
             Some x \<Rightarrow> Some x
           | None \<Rightarrow> oget (byId w) (cc_key cc Undefined))"

definition get_model :: "'v coll_class \<Rightarrow> ref \<Rightarrow> ('v, 'z) collection_scheme \<Rightarrow> ref option" where
  "get_model cc r w =
     (case oget (byId w) (cc_key cc (m_id (mods w r))) of
        Some x \<Rightarrow> Some x
      | None \<Rightarrow> oget (byId w) (m_cid (mods w r)))"

definition coll_at :: "int \<Rightarrow> ('v, 'z) collection_scheme \<Rightarrow> ref option" where
  "coll_at i w = (if 0 \<le> i \<and> i < int (length (models w)) then Some (models w ! nat i) else None)"

definition matches :: "'v attrs \<Rightarrow> 'v model \<Rightarrow> bool" where
  "matches attrs m \<longleftrightarrow> list_all (\<lambda>k. lookup attrs k = model_get k m) (okeys attrs)"

definition coll_where :: "'v attrs \<Rightarrow> ('v, 'z) collection_scheme \<Rightarrow> ref list" where
  "coll_where attrs w = (if attrs = [] then [] else filter (\<lambda>r. matches attrs (mods w r)) (models w))"

definition findWhere :: "'v attrs \<Rightarrow> ('v, 'z) collection_scheme \<Rightarrow> ref option" where
  "findWhere attrs w = (if attrs = [] then None else find (\<lambda>r. matches attrs (mods w r)) (models w))"

definition pluck :: "string \<Rightarrow> ('v, 'z) collection_scheme \<Rightarrow> 'v jsval list" where
  "pluck attr w = map (\<lambda>r. model_get attr (mods w r)) (models w)"

definition coll_toJSON :: "'v coll_class \<Rightarrow> ('v, 'z) collection_scheme \<Rightarrow> 'v attrs list" where
  "coll_toJSON cc w = map (\<lambda>r. c_toJSON (cc_model cc) (attributes (mods w r))) (models w)"

section \<open>References and events\<close>

definition addReference :: "'v coll_class \<Rightarrow> ref \<Rightarrow> ('v, 'z) collection_scheme \<Rightarrow> ('v, 'z) collection_scheme" where
  "addReference cc r w =
     (let m = mods w r;
          ids = oset (m_cid m) r (byId w);
          ids1 = (if m_id m = Undefined \<or> m_id m = Null then ids else oset (cc_key cc (m_id m)) r ids);
          m1 = (if m_collection m = None then m\<lparr>m_collection := Some (coll_self w)\<rparr> else m)
      in w\<lparr>byId := ids1, mods := (mods w)(r := m1), heard := (heard w)(r := Suc (heard w r))\<rparr>)"

definition removeReference :: "ref \<Rightarrow> ('v, 'z) collection_scheme \<Rightarrow> ('v, 'z) collection_scheme" where
  "removeReference r w =
     (let m = mods w r;
          m1 = (if m_collection m = Some (coll_self w) then m\<lparr>m_collection := None\<rparr> else m)
      in w\<lparr>mods := (mods w)(r := m1), heard := (heard w)(r := 0)\<rparr>)"

text \<open>\<open>_onModelEvent\<close> keeps the index right when an identifier changes.\<close>

definition index_change :: "'v coll_class \<Rightarrow> ref \<Rightarrow> string \<Rightarrow> ('v, 'z) collection_scheme \<Rightarrow> ('v, 'z) collection_scheme" where
  "index_change cc r n w =
     (if n = change_event idAttribute
      then (let m = mods w r; ids = odel (cc_key cc (previous idAttribute m)) (byId w)
            in w\<lparr>byId := (if m_id m = Undefined \<or> m_id m = Null then ids else oset (cc_key cc (m_id m)) r ids)\<rparr>)
      else w)"

text \<open>The listeners of a model for every event but \<open>destroy\<close>: the others', then the collection's,
  which passes the event on as its own.\<close>

fun repeatM :: "nat \<Rightarrow> (unit, 'w) act \<Rightarrow> (unit, 'w) act" where
  "repeatM 0 m = retM ()"
| "repeatM (Suc n) m = bindM m (\<lambda>_. repeatM n m)"

definition relay :: "('v, 'z) coll_notify \<Rightarrow> 'v coll_class \<Rightarrow> ref \<Rightarrow> string \<Rightarrow> 'v bevent \<Rightarrow> mopts \<Rightarrow> (unit, 'v, 'z) coll_act" where
  "relay nt cc r n ev opts =
     bindM (modifyM (index_change cc r n)) (\<lambda>_ w. fire nt (coll_self w) n ev opts w)"

definition model_notify :: "('v, 'z) coll_notify \<Rightarrow> 'v coll_class \<Rightarrow> ('v, 'z) coll_notify" where
  "model_notify nt cc r n ev opts =
     bindM (nt r n ev opts) (\<lambda>_ w. repeatM (heard w r) (relay nt cc r n ev opts) w)"

section \<open>remove\<close>

definition splice_out :: "int \<Rightarrow> 'x list \<Rightarrow> 'x list" where
  "splice_out i xs = (if i < 0 then butlast xs else take (nat i) xs @ drop (Suc (nat i)) xs)"

definition index_of_ref :: "ref \<Rightarrow> ref list \<Rightarrow> int" where
  "index_of_ref r xs = (if r \<in> set xs then int (length (takeWhile (\<lambda>x. x \<noteq> r) xs)) else - 1)"

definition remove_one :: "('v, 'z) coll_notify \<Rightarrow> 'v coll_class \<Rightarrow> copts \<Rightarrow> ref \<Rightarrow> (unit, 'v, 'z) coll_act" where
  "remove_one nt cc opts r0 w =
     (case get_model cc r0 w of
        None \<Rightarrow> retM () w
      | Some r \<Rightarrow>
          (let m = mods w r; index = index_of_ref r (models w);
               w1 = w\<lparr>byId := odel (m_cid m) (odel (cc_key cc (m_id m)) (byId w)),
                      models := splice_out index (models w), len := len w - 1\<rparr>
           in bindM (whenM (\<not> o_silent opts) (fire (model_notify nt cc) r ''remove'' (Removed (nat index)) (plain_opts opts))) (\<lambda>_.
                modifyM (removeReference r)) w1))"

definition coll_remove :: "('v, 'z) coll_notify \<Rightarrow> 'v coll_class \<Rightarrow> ref list \<Rightarrow> copts \<Rightarrow> (unit, 'v, 'z) coll_act" where
  "coll_remove nt cc rs opts = eachM (remove_one nt cc opts) rs"

text \<open>The listeners of a model for every event: a destroyed model leaves the collection first.\<close>

definition onModelEvent :: "('v, 'z) coll_notify \<Rightarrow> 'v coll_class \<Rightarrow> copts \<Rightarrow> ref \<Rightarrow> string \<Rightarrow> 'v bevent \<Rightarrow> mopts \<Rightarrow> (unit, 'v, 'z) coll_act" where
  "onModelEvent nt cc opts r n ev mo =
     bindM (whenM (n = ''destroy'') (coll_remove nt cc [r] opts)) (\<lambda>_. relay nt cc r n ev mo)"

definition coll_notify :: "('v, 'z) coll_notify \<Rightarrow> 'v coll_class \<Rightarrow> ('v, 'z) coll_notify" where
  "coll_notify nt cc r n ev mo =
     bindM (nt r n ev mo) (\<lambda>_ w.
       repeatM (heard w r) (onModelEvent nt cc (no_copts\<lparr>o_silent := o_silent mo\<rparr>) r n ev mo) w)"

section \<open>set\<close>

text \<open>The variables of the loop: the models to add, the names seen, the new order, the variable
  \<open>model\<close> that survives from one round to the next, whether to sort, and the resulting models.\<close>

record set_loop =
  l_toAdd :: "ref list"
  l_map :: "unit jsobj"
  l_order :: "ref list option"
  l_model :: "ref option"
  l_sort :: bool
  l_out :: "ref option list"

definition sortable :: "'v coll_class \<Rightarrow> copts \<Rightarrow> bool" where
  "sortable cc opts \<longleftrightarrow> cc_sort cc \<noteq> None \<and> o_at opts = None \<and> o_sort opts"

definition given :: "bool option \<Rightarrow> bool" where
  "given x = (case x of None \<Rightarrow> True | Some b \<Rightarrow> b)"

definition find_existing :: "'v coll_class \<Rightarrow> 'v input \<Rightarrow> ('v, 'z) collection_scheme \<Rightarrow> ref option" where
  "find_existing cc inp w = (case inp of Model r \<Rightarrow> get_model cc r w | Attrs a \<Rightarrow> get_by_id cc (lookup a idAttribute) w)"

definition merge_existing :: "('v, 'z) coll_notify \<Rightarrow> 'v coll_class \<Rightarrow> copts \<Rightarrow> ref \<Rightarrow> 'v input \<Rightarrow> (unit, 'v, 'z) coll_act" where
  "merge_existing nt cc opts ex inp w =
     (let attrs = (case inp of Model r \<Rightarrow> attributes (mods w r) | Attrs a \<Rightarrow> a);
          attrs1 = (if o_parse opts = Some True then c_parse (cc_model cc) attrs else attrs)
      in bindM (model_set (coll_notify nt cc) (cc_model cc) ex attrs1 (plain_opts opts)) (\<lambda>_. retM ()) w)"

text \<open>An object becomes a model; one that is not valid is announced and left out.\<close>

definition prepareModel :: "('v, 'z) coll_notify \<Rightarrow> 'v coll_class \<Rightarrow> 'v input \<Rightarrow> copts \<Rightarrow> (ref option, 'v, 'z) coll_act" where
  "prepareModel nt cc inp opts w =
     (case inp of
        Model r \<Rightarrow> retM (Some r) w
      | Attrs a \<Rightarrow>
          bindM (new_model (coll_notify nt cc) (cc_model cc) (\<lambda>_. retM ()) a (Some (coll_self w)) (plain_opts opts)) (\<lambda>r w1.
            case validationError (mods w1 r) of
              None \<Rightarrow> retM (Some r) w1
            | Some e \<Rightarrow> bindM (fire nt (coll_self w1) ''invalid'' (Invalid e) (plain_opts opts)) (\<lambda>_. retM None) w1) w)"

definition note_model :: "'v coll_class \<Rightarrow> ref \<Rightarrow> ref option \<Rightarrow> set_loop \<Rightarrow> (set_loop, 'v, 'z) coll_act" where
  "note_model cc r out ls w =
     (let m = mods w r; k = cc_key cc (m_id m)
      in retM (ls\<lparr>l_order := map_option (\<lambda>os. if isNew m \<or> oget (l_map ls) k = None then os @ [r] else os) (l_order ls),
                  l_map := oset k () (l_map ls), l_model := Some r, l_out := l_out ls @ [out]\<rparr>) w)"

definition set_one :: "('v, 'z) coll_notify \<Rightarrow> 'v coll_class \<Rightarrow> copts \<Rightarrow> 'v input \<Rightarrow> set_loop \<Rightarrow> (set_loop, 'v, 'z) coll_act" where
  "set_one nt cc opts inp ls w =
     (case find_existing cc inp w of
        Some ex \<Rightarrow>
          (let ls1 = (if given (o_remove opts) then ls\<lparr>l_map := oset (m_cid (mods w ex)) () (l_map ls)\<rparr> else ls)
           in bindM (whenM (given (o_merge opts)) (merge_existing nt cc opts ex inp)) (\<lambda>_ w1.
                note_model cc ex (Some ex)
                  (ls1\<lparr>l_sort := l_sort ls \<or> given (o_merge opts) \<and> sortable cc opts \<and> hasChanged (cc_sortAttr cc) (mods w1 ex)\<rparr>) w1) w)
      | None \<Rightarrow>
          (if given (o_add opts)
           then bindM (prepareModel nt cc inp opts) (\<lambda>pr.
                  case pr of
                    None \<Rightarrow> retM (ls\<lparr>l_model := None, l_out := l_out ls @ [None]\<rparr>)
                  | Some r \<Rightarrow> bindM (modifyM (addReference cc r)) (\<lambda>_. note_model cc r (Some r) (ls\<lparr>l_toAdd := l_toAdd ls @ [r]\<rparr>))) w
           else case (case inp of Model r \<Rightarrow> Some r | Attrs _ \<Rightarrow> l_model ls) of
                  None \<Rightarrow> throwM (TypeError ''id of undefined'') w
                | Some r \<Rightarrow> note_model cc r (case inp of Model x \<Rightarrow> Some x | Attrs _ \<Rightarrow> None) ls w))"

fun set_loop_run :: "('v, 'z) coll_notify \<Rightarrow> 'v coll_class \<Rightarrow> copts \<Rightarrow> 'v input list \<Rightarrow> set_loop \<Rightarrow> (set_loop, 'v, 'z) coll_act" where
  "set_loop_run nt cc opts [] ls = retM ls"
| "set_loop_run nt cc opts (i # is) ls = bindM (set_one nt cc opts i ls) (\<lambda>ls1. set_loop_run nt cc opts is ls1)"

definition remove_others :: "('v, 'z) coll_notify \<Rightarrow> 'v coll_class \<Rightarrow> copts \<Rightarrow> unit jsobj \<Rightarrow> (unit, 'v, 'z) coll_act" where
  "remove_others nt cc opts seen_map w =
     (if int (length (models w)) < len w then throwM (TypeError ''cid of undefined'') w
      else coll_remove nt cc (filter (\<lambda>r. oget seen_map (m_cid (mods w r)) = None) (take (nat (len w)) (models w))) opts w)"

definition coll_sort :: "('v, 'z) coll_notify \<Rightarrow> 'v coll_class \<Rightarrow> mopts \<Rightarrow> (unit, 'v, 'z) coll_act" where
  "coll_sort nt cc opts =
     (case cc_sort cc of
        None \<Rightarrow> throwM (ErrorMsg ''Cannot sort a set without a comparator'')
      | Some f \<Rightarrow>
          bindM (modifyM (\<lambda>w. w\<lparr>models := f (mods w) (models w)\<rparr>)) (\<lambda>_ w.
            whenM (\<not> o_silent opts) (fire nt (coll_self w) ''sort'' Sorted opts) w))"

definition splice_in :: "nat \<Rightarrow> 'x list \<Rightarrow> 'x list \<Rightarrow> 'x list" where
  "splice_in k new xs = take k xs @ new @ drop k xs"

definition insert_added :: "copts \<Rightarrow> set_loop \<Rightarrow> ('v, 'z) collection_scheme \<Rightarrow> ('v, 'z) collection_scheme" where
  "insert_added opts ls w =
     w\<lparr>len := len w + int (length (l_toAdd ls)),
       models := (case o_at opts of
                    Some k \<Rightarrow> splice_in k (l_toAdd ls) (models w)
                  | None \<Rightarrow> (case l_order ls of Some os \<Rightarrow> os | None \<Rightarrow> models w @ l_toAdd ls))\<rparr>"

definition added_events :: "('v, 'z) coll_notify \<Rightarrow> 'v coll_class \<Rightarrow> copts \<Rightarrow> ref list \<Rightarrow> bool \<Rightarrow> (unit, 'v, 'z) coll_act" where
  "added_events nt cc opts rs sorted_anew =
     bindM (eachM (\<lambda>r. fire (coll_notify nt cc) r ''add'' Added (plain_opts opts)) rs) (\<lambda>_ w.
       whenM sorted_anew (fire nt (coll_self w) ''sort'' Sorted (plain_opts opts)) w)"

definition coll_set :: "('v, 'z) coll_notify \<Rightarrow> 'v coll_class \<Rightarrow> 'v input list \<Rightarrow> copts \<Rightarrow> (ref option list, 'v, 'z) coll_act" where
  "coll_set nt cc inputs opts =
     (let ins = (if o_parse opts = Some True then cc_parse cc inputs else inputs);
          start = \<lparr>l_toAdd = [], l_map = [],
            l_order = (if \<not> sortable cc opts \<and> given (o_add opts) \<and> given (o_remove opts) then Some [] else None),
            l_model = None, l_sort = False, l_out = []\<rparr>
      in bindM (set_loop_run nt cc opts ins start) (\<lambda>ls.
         let ordered = (l_order ls \<noteq> None \<and> l_order ls \<noteq> Some []);
             fresh = (l_toAdd ls \<noteq> [] \<or> ordered);
             sorting = (l_sort ls \<or> fresh \<and> sortable cc opts)
         in bindM (whenM (given (o_remove opts)) (remove_others nt cc opts (l_map ls))) (\<lambda>_.
            bindM (whenM fresh (modifyM (insert_added opts ls))) (\<lambda>_.
            bindM (whenM sorting (coll_sort nt cc (no_opts\<lparr>o_silent := True\<rparr>))) (\<lambda>_.
            bindM (whenM (\<not> o_silent opts) (added_events nt cc opts (l_toAdd ls) (sorting \<or> ordered))) (\<lambda>_.
            retM (l_out ls)))))))"

section \<open>The operations above set\<close>

definition add_opts :: "copts \<Rightarrow> copts" where
  "add_opts opts =
     opts\<lparr>o_merge := Some (case o_merge opts of None \<Rightarrow> False | Some b \<Rightarrow> b), o_add := Some True, o_remove := Some False\<rparr>"

definition coll_add :: "('v, 'z) coll_notify \<Rightarrow> 'v coll_class \<Rightarrow> 'v input list \<Rightarrow> copts \<Rightarrow> (ref option list, 'v, 'z) coll_act" where
  "coll_add nt cc inputs opts = coll_set nt cc inputs (add_opts opts)"

definition reset_state :: "('v, 'z) collection_scheme \<Rightarrow> ('v, 'z) collection_scheme" where
  "reset_state w = w\<lparr>len := 0, models := [], byId := []\<rparr>"

definition coll_reset :: "('v, 'z) coll_notify \<Rightarrow> 'v coll_class \<Rightarrow> 'v input list \<Rightarrow> copts \<Rightarrow> (ref option list, 'v, 'z) coll_act" where
  "coll_reset nt cc inputs opts =
     bindM (modifyM (\<lambda>w. reset_state (fold removeReference (models w) w))) (\<lambda>_.
       bindM (coll_add nt cc inputs (opts\<lparr>o_silent := True\<rparr>)) (\<lambda>out.
         bindM (\<lambda>w. whenM (\<not> o_silent opts) (fire nt (coll_self w) ''reset'' Resetted (plain_opts opts)) w) (\<lambda>_. retM out)))"

definition new_collection :: "('v, 'z) coll_notify \<Rightarrow> 'v coll_class \<Rightarrow> 'v input list option \<Rightarrow> copts \<Rightarrow> (unit, 'v, 'z) coll_act" where
  "new_collection nt cc inputs opts =
     bindM (modifyM reset_state) (\<lambda>_.
       case inputs of
         None \<Rightarrow> retM ()
       | Some is \<Rightarrow> bindM (coll_reset nt cc is (opts\<lparr>o_silent := True\<rparr>)) (\<lambda>_. retM ()))"

definition coll_push :: "('v, 'z) coll_notify \<Rightarrow> 'v coll_class \<Rightarrow> 'v input \<Rightarrow> copts \<Rightarrow> (ref option list, 'v, 'z) coll_act" where
  "coll_push nt cc inp opts w =
     coll_add nt cc [inp] (if o_at opts = None then opts\<lparr>o_at := Some (nat (len w))\<rparr> else opts) w"

definition coll_unshift :: "('v, 'z) coll_notify \<Rightarrow> 'v coll_class \<Rightarrow> 'v input \<Rightarrow> copts \<Rightarrow> (ref option list, 'v, 'z) coll_act" where
  "coll_unshift nt cc inp opts =
     coll_add nt cc [inp] (if o_at opts = None then opts\<lparr>o_at := Some 0\<rparr> else opts)"

definition take_out :: "('v, 'z) coll_notify \<Rightarrow> 'v coll_class \<Rightarrow> int \<Rightarrow> copts \<Rightarrow> (ref option, 'v, 'z) coll_act" where
  "take_out nt cc i opts w =
     (case coll_at i w of
        None \<Rightarrow> retM None w
      | Some r \<Rightarrow> bindM (coll_remove nt cc [r] opts) (\<lambda>_. retM (Some r)) w)"

definition coll_pop :: "('v, 'z) coll_notify \<Rightarrow> 'v coll_class \<Rightarrow> copts \<Rightarrow> (ref option, 'v, 'z) coll_act" where
  "coll_pop nt cc opts w = take_out nt cc (len w - 1) opts w"

definition coll_shift :: "('v, 'z) coll_notify \<Rightarrow> 'v coll_class \<Rightarrow> copts \<Rightarrow> (ref option, 'v, 'z) coll_act" where
  "coll_shift nt cc opts = take_out nt cc 0 opts"

definition coll_fetch :: "('v, 'z) coll_notify \<Rightarrow> 'v coll_class \<Rightarrow> sync_env \<Rightarrow> copts \<Rightarrow> (unit, 'v, 'z) coll_act" where
  "coll_fetch nt cc env opts w =
     sync nt env ''read'' (coll_self w) (cc_url cc) [] (parse_opts (plain_opts opts)) w"

definition coll_parse_opts :: "copts \<Rightarrow> copts" where
  "coll_parse_opts opts = (if o_parse opts = None then opts\<lparr>o_parse := Some True\<rparr> else opts)"

definition coll_fetch_success ::
  "('v, 'z) coll_notify \<Rightarrow> 'v coll_class \<Rightarrow> (unit, 'v, 'z) coll_act \<Rightarrow> 'v input list \<Rightarrow> copts \<Rightarrow> (unit, 'v, 'z) coll_act" where
  "coll_fetch_success nt cc success resp opts =
     (let o1 = coll_parse_opts opts
      in bindM (if o_reset opts then coll_reset nt cc resp o1 else coll_set nt cc resp o1) (\<lambda>_.
           bindM success (\<lambda>_ w. fire nt (coll_self w) ''sync'' Sync (plain_opts o1) w)))"

definition coll_create :: "('v, 'z) coll_notify \<Rightarrow> 'v coll_class \<Rightarrow> sync_env \<Rightarrow> 'v input \<Rightarrow> copts \<Rightarrow> (ref option, 'v, 'z) coll_act" where
  "coll_create nt cc env inp opts =
     bindM (prepareModel nt cc inp opts) (\<lambda>pr.
       case pr of
         None \<Rightarrow> retM None
       | Some r \<Rightarrow>
           bindM (whenM (\<not> o_wait opts) (bindM (coll_add nt cc [Model r] opts) (\<lambda>_. retM ()))) (\<lambda>_.
             bindM (model_save (coll_notify nt cc) (cc_model cc) env r None (plain_opts opts)) (\<lambda>_. retM (Some r))))"

definition create_success ::
  "('v, 'z) coll_notify \<Rightarrow> 'v coll_class \<Rightarrow> (unit, 'v, 'z) coll_act \<Rightarrow> ref \<Rightarrow> copts \<Rightarrow> (unit, 'v, 'z) coll_act" where
  "create_success nt cc success r opts =
     bindM (whenM (o_wait opts) (bindM (coll_add nt cc [Model r] opts) (\<lambda>_. retM ()))) (\<lambda>_. success)"

end
