(* ===== verification/Bb_Collection_Props.thy ===== *)
theory Bb_Collection_Props
  imports Bb_Collection
begin

text \<open>
  A collection whose models have no identifiers, as the users of this program have none, is a
  list of attribute objects: adding appends, resetting replaces, removing deletes one, and the
  array, the index, the counted length and the collection's listeners stay in step. The index and
  the order go wrong for a model that is listed twice, and an update that may not add throws.
\<close>

section \<open>Models that are made\<close>

lemma lookup_fill_fold:
  "lookup (fold (\<lambda>k d. if lookup d k = Undefined then oset k (lookup src k) d else d) ks dst) k =
     (if k \<in> set ks \<and> lookup dst k = Undefined then lookup src k else lookup dst k)"
  by (induction ks arbitrary: dst) auto

lemma lookup_fill_defaults:
  "lookup (fill_defaults dst src) k = (if lookup dst k = Undefined then lookup src k else lookup dst k)"
proof -
  have "lookup src k = Undefined" if "k \<notin> set (okeys src)"
    using that by (simp add: okeys_iff lookup_def)
  then show ?thesis by (simp add: fill_defaults_def lookup_fill_fold)
qed

lemma wf_fill_defaults: "wf_obj dst \<Longrightarrow> wf_obj (fill_defaults dst src)"
proof -
  have "wf_obj dst \<Longrightarrow> wf_obj (fold (\<lambda>k d. if lookup d k = Undefined then oset k (lookup src k) d else d) ks dst)" for ks
    by (induction ks arbitrary: dst) simp_all
  then show "wf_obj dst \<Longrightarrow> wf_obj (fill_defaults dst src)" by (simp add: fill_defaults_def)
qed

lemma write_attrs_other:
  "m_cid (snd (write_attrs attrs opts m)) = m_cid m"
  "m_collection (snd (write_attrs attrs opts m)) = m_collection m"
  "validationError (snd (write_attrs attrs opts m)) = validationError m"
  "m_id (snd (write_attrs attrs opts m)) = (case oget attrs idAttribute of None \<Rightarrow> m_id m | Some v \<Rightarrow> v)"
proof -
  have f: "m_cid (snd (fold (write_attr un attrs) ks cm)) = m_cid (snd cm)"
    "m_collection (snd (fold (write_attr un attrs) ks cm)) = m_collection (snd cm)"
    "validationError (snd (fold (write_attr un attrs) ks cm)) = validationError (snd cm)"
    "m_id (snd (fold (write_attr un attrs) ks cm)) = m_id (snd cm)" for un ks cm
    by (induction ks arbitrary: cm) (simp_all add: write_attr_def case_prod_unfold Let_def)
  show "m_cid (snd (write_attrs attrs opts m)) = m_cid m"
    "m_collection (snd (write_attrs attrs opts m)) = m_collection m"
    "validationError (snd (write_attrs attrs opts m)) = validationError m"
    "m_id (snd (write_attrs attrs opts m)) = (case oget attrs idAttribute of None \<Rightarrow> m_id m | Some v \<Rightarrow> v)"
    by (simp_all add: write_attrs_def f begin_set_def Let_def split: option.split)
qed

text \<open>The model that the constructor makes, and what it says of its attributes.\<close>

definition filled :: "'v model_class \<Rightarrow> 'v attrs \<Rightarrow> 'v attrs" where
  "filled cls a = fill_defaults (fill_defaults [] a) (c_defaults cls)"

definition made :: "'v model_class \<Rightarrow> 'v attrs \<Rightarrow> string \<Rightarrow> ref option \<Rightarrow> mopts \<Rightarrow> 'v model" where
  "made cls a cid coll opts =
     (snd (write_attrs (filled cls a) opts (blank_model cid coll)))\<lparr>pending := None, changing := False, changed := []\<rparr>"

definition entry :: "'v model_class \<Rightarrow> 'v attrs \<Rightarrow> string \<Rightarrow> 'v jsval" where
  "entry cls a k = (if lookup a k = Undefined then lookup (c_defaults cls) k else lookup a k)"

lemma lookup_filled: "lookup (filled cls a) k = entry cls a k"
  by (simp add: filled_def entry_def lookup_fill_defaults)

lemma made_fields:
  "m_cid (made cls a cid coll opts) = cid" "m_collection (made cls a cid coll opts) = coll"
  "validationError (made cls a cid coll opts) = None" "\<not> changing (made cls a cid coll opts)"
  "m_id (made cls a cid coll opts) = entry cls a idAttribute"
  by (simp_all add: made_def write_attrs_other blank_model_def lookup_filled [symmetric] lookup_def split: option.split)

lemma made_get:
  assumes "\<not> o_unset opts"
  shows "model_get k (made cls a cid coll opts) = entry cls a k"
proof -
  have "model_get k (snd (write_attrs (filled cls a) opts (blank_model cid coll))) =
      (if k \<in> set (okeys (filled cls a)) then lookup (filled cls a) k else Undefined)"
    using assms write_attrs_result(2) [of "filled cls a" opts k "blank_model cid coll"]
    by (simp add: filled_def wf_fill_defaults unset_ok_def model_get_def blank_model_def)
  then show ?thesis
    by (auto simp: made_def model_get_def lookup_filled [symmetric] okeys_iff lookup_def split: option.splits)
qed

section \<open>Listening collections\<close>

lemma coll_notify_unheard: "heard w r = 0 \<Longrightarrow> coll_notify ignore_events cc r n ev mo w = Some (Ok (), w)"
  by (simp add: coll_notify_def ignore_events_def)

lemma fire_ignore [simp]: "fire ignore_events r n ev opts w = Some (Ok (), w)"
  by (rule fire_unheard [where Q = "\<lambda>_. True"]) (simp_all add: ignore_events_def)

lemma repeat_same: "(\<And>w. m w = Some (Ok (), w)) \<Longrightarrow> repeatM n m w = Some (Ok (), w)"
  by (induction n) (simp_all add: bindM_def)

lemma relay_quiet: "n \<noteq> change_event idAttribute \<Longrightarrow> relay ignore_events cc r n ev opts w = Some (Ok (), w)"
  by (simp add: relay_def bindM_def index_change_def)

lemma coll_notify_quiet:
  assumes "n \<noteq> change_event idAttribute" "n \<noteq> ''destroy''"
  shows "coll_notify ignore_events cc r n ev mo w = Some (Ok (), w)"
  unfolding coll_notify_def using assms
  by (simp add: ignore_events_def [abs_def] repeat_same onModelEvent_def whenM_def relay_quiet [unfolded ignore_events_def [abs_def]])

lemma fire_coll_quiet:
  assumes "n \<noteq> change_event idAttribute" "n \<noteq> ''destroy''" "plain_name n"
  shows "fire (coll_notify ignore_events cc) r n ev mo w = Some (Ok (), w)"
    "fire (model_notify ignore_events cc) r n ev mo w = Some (Ok (), w)"
  unfolding fire_plain [OF assms(3)]
  by (rule coll_notify_quiet [OF assms(1,2)])
    (simp add: model_notify_def ignore_events_def [abs_def] repeat_same relay_quiet [OF assms(1), unfolded ignore_events_def [abs_def]])

lemma quiet_names:
  "''add'' \<noteq> change_event idAttribute" "''remove'' \<noteq> change_event idAttribute" "plain_name ''add''" "plain_name ''remove''"
  by (simp_all add: change_event_def plain_name_def is_space_def)

lemma new_model_unheard:
  assumes "heard w (next_mod w) = 0" "c_validate cls = None" "o_parse opts = Some True \<Longrightarrow> c_parse cls = id"
  shows "new_model (coll_notify ignore_events cc) cls (\<lambda>_. retM ()) a coll opts w =
    Some (Ok (next_mod w), w\<lparr>mods := (mods w)(next_mod w := made cls a (''c'' @ nat_str (Suc (cidCounter w))) coll opts),
      next_mod := Suc (next_mod w), cidCounter := Suc (cidCounter w)\<rparr>)"
proof -
  let ?r = "next_mod w"
  let ?w = "w\<lparr>mods := (mods w)(?r := blank_model (''c'' @ nat_str (Suc (cidCounter w))) coll), next_mod := Suc ?r,
    cidCounter := Suc (cidCounter w)\<rparr>"
  have "model_set (coll_notify ignore_events cc) cls ?r (filled cls a) opts ?w =
      Some (Ok True, mupd ?r (\<lambda>_. (snd (write_attrs (filled cls a) opts (mods ?w ?r)))\<lparr>pending := None, changing := False\<rparr>) ?w)"
    by (rule model_set_unheard [where Q = "\<lambda>w. heard w ?r = 0"])
      (use assms in \<open>simp_all add: coll_notify_unheard mupd_def no_validation_def blank_model_def\<close>)
  then show ?thesis
    using assms(3) by (auto simp: new_model_def Let_def filled_def [symmetric] bindM_def made_def mupd_def)
qed

section \<open>The state in step\<close>

definition client_id :: "nat \<Rightarrow> string \<Rightarrow> bool" where
  "client_id n c \<longleftrightarrow> (\<exists>i\<le>n. c = ''c'' @ nat_str i)"

text \<open>The models with the given references, and no others, are indexed and listened to, once each.\<close>

definition tied :: "('v, 'z) collection_scheme \<Rightarrow> ref list \<Rightarrow> bool" where
  "tied w rs \<longleftrightarrow>
     distinct rs \<and>
     (\<forall>r\<in>set rs. r < next_mod w \<and> heard w r = 1 \<and> oget (byId w) (m_cid (mods w r)) = Some r \<and> m_id (mods w r) = Undefined \<and>
        client_id (cidCounter w) (m_cid (mods w r)) \<and> m_collection (mods w r) = Some (coll_self w)) \<and>
     (\<forall>r. r \<notin> set rs \<longrightarrow> heard w r = 0) \<and>
     (\<forall>k x. oget (byId w) k = Some x \<longrightarrow> x \<in> set rs \<and> k = m_cid (mods w x))"

definition coll_ok :: "('v, 'z) collection_scheme \<Rightarrow> bool" where
  "coll_ok w \<longleftrightarrow> tied w (models w) \<and> len w = int (length (models w))"

definition contents :: "('v, 'z) collection_scheme \<Rightarrow> (string \<Rightarrow> 'v jsval) list" where
  "contents w = map (\<lambda>r k. model_get k (mods w r)) (models w)"

text \<open>A class without validation, comparator and identifiers.\<close>

definition idless_class :: "'v coll_class \<Rightarrow> bool" where
  "idless_class cc \<longleftrightarrow>
     c_validate (cc_model cc) = None \<and> c_parse (cc_model cc) = id \<and> lookup (c_defaults (cc_model cc)) idAttribute = Undefined \<and>
     cc_key cc Undefined = ''undefined'' \<and> cc_sort cc = None"

definition idless :: "'v attrs \<Rightarrow> bool" where
  "idless a \<longleftrightarrow> lookup a idAttribute = Undefined"

lemma client_id_fresh: "client_id n c \<Longrightarrow> c \<noteq> ''c'' @ nat_str (Suc n)"
  by (auto simp: client_id_def)

lemma client_id_not_undefined: "client_id n c \<Longrightarrow> c \<noteq> ''undefined''"
  by (auto simp: client_id_def)

lemma client_id_mono: "client_id n c \<Longrightarrow> client_id (Suc n) c"
  by (auto simp: client_id_def le_Suc_eq)

lemma client_id_new: "client_id (Suc n) (''c'' @ nat_str (Suc n))"
  by (auto simp: client_id_def)

lemma tied_undefined: "tied w rs \<Longrightarrow> oget (byId w) ''undefined'' = None"
  unfolding tied_def using client_id_not_undefined by (metis not_Some_eq)

lemma get_tied:
  assumes "tied w rs" "r \<in> set rs" "idless_class cc"
  shows "get_model cc r w = Some r"
  using assms tied_undefined [OF assms(1)] by (simp add: get_model_def tied_def idless_class_def)

text \<open>The world after a model was made and taken in.\<close>

definition taken_in :: "'v coll_class \<Rightarrow> copts \<Rightarrow> 'v attrs \<Rightarrow> ('v, 'z) collection_scheme \<Rightarrow> ('v, 'z) collection_scheme" where
  "taken_in cc opts a w =
     (let r = next_mod w; c = ''c'' @ nat_str (Suc (cidCounter w))
      in w\<lparr>mods := (mods w)(r := made (cc_model cc) a c (Some (coll_self w)) (plain_opts opts)),
           next_mod := Suc r, cidCounter := Suc (cidCounter w), byId := oset c r (byId w), heard := (heard w)(r := 1)\<rparr>)"

lemma tied_next: "tied w rs \<Longrightarrow> next_mod w \<notin> set rs"
  by (auto simp: tied_def)

lemma made_idless:
  "idless_class cc \<Longrightarrow> idless a \<Longrightarrow> m_id (made (cc_model cc) a c coll opts) = Undefined"
  by (simp add: made_fields entry_def idless_def idless_class_def)

lemma taken_in_tied:
  assumes "tied w rs" "idless_class cc" "idless a"
  shows "tied (taken_in cc opts a w) (rs @ [next_mod w])"
proof -
  let ?w = "taken_in cc opts a w" and ?c = "''c'' @ nat_str (Suc (cidCounter w))"
  have n: "next_mod w \<notin> set rs" by (rule tied_next [OF assms(1)])
  have fresh: "m_cid (mods w r) \<noteq> ?c" if "r \<in> set rs" for r
    using assms(1) that client_id_fresh by (auto simp: tied_def)
  have m: "mods ?w r = (if r = next_mod w then made (cc_model cc) a ?c (Some (coll_self w)) (plain_opts opts) else mods w r)" for r
    by (simp add: taken_in_def Let_def)
  have f: "next_mod ?w = Suc (next_mod w)" "cidCounter ?w = Suc (cidCounter w)" "coll_self ?w = coll_self w"
    "heard ?w = (heard w)(next_mod w := 1)" "byId ?w = oset ?c (next_mod w) (byId w)"
    by (simp_all add: taken_in_def Let_def)
  have new: "m_id (mods ?w (next_mod w)) = Undefined" "m_cid (mods ?w (next_mod w)) = ?c"
    "m_collection (mods ?w (next_mod w)) = Some (coll_self w)"
    by (simp_all add: m made_idless [OF assms(2,3)] made_fields(1,2))
  have old: "mods ?w r = mods w r" if "r \<in> set rs" for r using m n that by auto
  show ?thesis
    unfolding tied_def
  proof (intro conjI ballI allI impI)
    show "distinct (rs @ [next_mod w])" using n assms(1) by (simp add: tied_def)
    fix r
    assume r: "r \<in> set (rs @ [next_mod w])"
    have o': "r < next_mod w" "heard w r = 1" "m_id (mods w r) = Undefined" "client_id (cidCounter w) (m_cid (mods w r))"
      "m_collection (mods w r) = Some (coll_self w)" "oget (byId w) (m_cid (mods w r)) = Some r" "r \<in> set rs" if "r \<noteq> next_mod w"
      using r that assms(1) by (auto simp: tied_def)
    show "r < next_mod ?w" "heard ?w r = 1" "m_id (mods ?w r) = Undefined" "m_collection (mods ?w r) = Some (coll_self ?w)"
      using o' f new old by (cases "r = next_mod w"; simp)+
    show "client_id (cidCounter ?w) (m_cid (mods ?w r))"
      using o' f new old client_id_new client_id_mono by (cases "r = next_mod w"; simp)
    show "oget (byId ?w) (m_cid (mods ?w r)) = Some r"
      using o' f new old fresh by (cases "r = next_mod w"; simp add: obj_simps)
  next
    show "heard ?w r = 0" if "r \<notin> set (rs @ [next_mod w])" for r
      using that assms(1) f by (simp add: tied_def)
    fix k x
    assume k: "oget (byId ?w) k = Some x"
    show "x \<in> set (rs @ [next_mod w])" "k = m_cid (mods ?w x)"
      using k assms(1) f new old by (auto simp: tied_def obj_simps split: if_splits)
  qed
qed

section \<open>Adding\<close>

definition adding_opts :: "copts \<Rightarrow> bool" where
  "adding_opts opts \<longleftrightarrow> o_add opts = Some True \<and> o_remove opts = Some False \<and> \<not> o_unset opts"

lemma set_one_adds:
  assumes "tied w rs" "idless_class cc" "idless a" "adding_opts opts" "l_order ls = None"
  shows "\<exists>ls'. set_one ignore_events cc opts (Attrs a) ls w = Some (Ok ls', taken_in cc opts a w) \<and>
    l_toAdd ls' = l_toAdd ls @ [next_mod w] \<and> l_order ls' = None \<and> l_sort ls' = l_sort ls \<and>
    l_out ls' = l_out ls @ [Some (next_mod w)]"
proof -
  let ?c = "''c'' @ nat_str (Suc (cidCounter w))"
  have h: "heard w (next_mod w) = 0" using assms(1) tied_next [OF assms(1)] by (simp add: tied_def)
  have e: "find_existing cc (Attrs a) w = None"
    using assms(3) by (simp add: find_existing_def get_by_id_def idless_def)
  have p: "prepareModel ignore_events cc (Attrs a) opts w = Some (Ok (Some (next_mod w)),
      w\<lparr>mods := (mods w)(next_mod w := made (cc_model cc) a ?c (Some (coll_self w)) (plain_opts opts)),
        next_mod := Suc (next_mod w), cidCounter := Suc (cidCounter w)\<rparr>)"
    using assms(2) new_model_unheard [of w "cc_model cc" "plain_opts opts" cc a "Some (coll_self w)", OF h]
    by (simp add: prepareModel_def bindM_def made_fields idless_class_def)
  have "addReference cc (next_mod w)
      (w\<lparr>mods := (mods w)(next_mod w := made (cc_model cc) a ?c (Some (coll_self w)) (plain_opts opts)),
         next_mod := Suc (next_mod w), cidCounter := Suc (cidCounter w)\<rparr>) = taken_in cc opts a w"
    using made_idless [OF assms(2,3), of ?c "Some (coll_self w)" "plain_opts opts"] h
    by (simp add: addReference_def taken_in_def made_fields(1,2) Let_def)
  then show ?thesis
    using assms(4,5) unfolding set_one_def e
    by (simp add: bindM_def p note_model_def Let_def adding_opts_def given_def)
qed

lemma taken_in_frame [simp]:
  "models (taken_in cc opts a w) = models w" "len (taken_in cc opts a w) = len w"
  "next_mod (taken_in cc opts a w) = Suc (next_mod w)" "coll_self (taken_in cc opts a w) = coll_self w"
  by (simp_all add: taken_in_def Let_def)

lemma taken_in_mods:
  "r \<noteq> next_mod w \<Longrightarrow> mods (taken_in cc opts a w) r = mods w r"
  "\<not> o_unset opts \<Longrightarrow> model_get k (mods (taken_in cc opts a w) (next_mod w)) = entry (cc_model cc) a k"
  by (simp_all add: taken_in_def Let_def made_get mopts.truncate_def)

lemma loop_adds:
  assumes "tied w rs" "idless_class cc" "\<forall>a\<in>set as. idless a" "adding_opts opts" "l_order ls = None" "\<not> l_sort ls"
  shows "\<exists>ls' w'. set_loop_run ignore_events cc opts (map Attrs as) ls w = Some (Ok ls', w') \<and>
    tied w' (rs @ [next_mod w ..< next_mod w + length as]) \<and> l_toAdd ls' = l_toAdd ls @ [next_mod w ..< next_mod w + length as] \<and>
    l_order ls' = None \<and> \<not> l_sort ls' \<and> models w' = models w \<and> len w' = len w \<and> next_mod w' = next_mod w + length as \<and>
    (\<forall>r<next_mod w. mods w' r = mods w r) \<and>
    map (\<lambda>r k. model_get k (mods w' r)) [next_mod w ..< next_mod w + length as] = map (entry (cc_model cc)) as"
  using assms
proof (induction as arbitrary: w rs ls)
  case (Cons a as)
  obtain l1 where l1: "set_one ignore_events cc opts (Attrs a) ls w = Some (Ok l1, taken_in cc opts a w)"
    "l_toAdd l1 = l_toAdd ls @ [next_mod w]" "l_order l1 = None" "l_sort l1 = l_sort ls"
    using set_one_adds [OF Cons.prems(1,2) _ Cons.prems(4,5), of a] Cons.prems(3) by auto
  have t: "tied (taken_in cc opts a w) (rs @ [next_mod w])"
    using taken_in_tied [OF Cons.prems(1,2)] Cons.prems(3) by simp
  have up: "[next_mod w ..< next_mod w + length (a # as)] = next_mod w # [Suc (next_mod w) ..< Suc (next_mod w) + length as]"
    by (subst upt_conv_Cons) (simp_all del: upt_Suc)
  have i: "\<forall>x\<in>set as. idless x" "\<not> l_sort l1" using Cons.prems(3,6) l1(4) by auto
  obtain ls' w' where w': "set_loop_run ignore_events cc opts (map Attrs as) l1 (taken_in cc opts a w) = Some (Ok ls', w')"
    "tied w' ((rs @ [next_mod w]) @ [Suc (next_mod w) ..< Suc (next_mod w) + length as])"
    "l_toAdd ls' = l_toAdd l1 @ [Suc (next_mod w) ..< Suc (next_mod w) + length as]" "l_order ls' = None" "\<not> l_sort ls'"
    "models w' = models w" "len w' = len w" "next_mod w' = Suc (next_mod w) + length as"
    "\<forall>r<Suc (next_mod w). mods w' r = mods (taken_in cc opts a w) r"
    "map (\<lambda>r k. model_get k (mods w' r)) [Suc (next_mod w) ..< Suc (next_mod w) + length as] = map (entry (cc_model cc)) as"
    using Cons.IH [OF t Cons.prems(2) i(1) Cons.prems(4) l1(3) i(2)] by auto
  have "\<forall>r<next_mod w. mods w' r = mods w r" using w'(9) taken_in_mods(1) by (metis less_SucI less_irrefl)
  moreover have "(\<lambda>k. model_get k (mods w' (next_mod w))) = entry (cc_model cc) a"
    using w'(9) taken_in_mods(2) [of opts _ cc a w] Cons.prems(4) by (simp add: adding_opts_def fun_eq_iff)
  ultimately show ?case
    unfolding up using w' l1 by (simp add: bindM_def)
qed simp

lemma each_same: "(\<And>x w. f x w = Some (Ok (), w)) \<Longrightarrow> eachM f xs w = Some (Ok (), w)"
  by (induction xs) (simp_all add: bindM_def)

lemma added_events_quiet: "added_events ignore_events cc opts rs b w = Some (Ok (), w)"
  unfolding added_events_def bindM_def
  by (simp add: each_same fire_coll_quiet(1) [OF quiet_names(1) _ quiet_names(3)] whenM_def)

definition plain_adding :: "copts \<Rightarrow> bool" where
  "plain_adding opts \<longleftrightarrow> o_parse opts = None \<and> o_at opts = None \<and> \<not> o_unset opts"

lemma coll_add_result:
  assumes "coll_ok w" "idless_class cc" "\<forall>a\<in>set as. idless a" "plain_adding opts"
  shows "\<exists>out w'. coll_add ignore_events cc (map Attrs as) opts w = Some (Ok out, w') \<and> coll_ok w' \<and>
    contents w' = contents w @ map (entry (cc_model cc)) as \<and> models w' = models w @ [next_mod w ..< next_mod w + length as]"
proof -
  let ?o = "add_opts opts" and ?new = "[next_mod w ..< next_mod w + length as]"
  let ?start = "\<lparr>l_toAdd = [], l_map = [], l_order = None, l_model = None, l_sort = False, l_out = []\<rparr>"
  have t: "tied w (models w)" using assms(1) by (simp add: coll_ok_def)
  have o: "adding_opts ?o" using assms(4) by (simp add: adding_opts_def add_opts_def plain_adding_def)
  obtain ls w1 where w1: "set_loop_run ignore_events cc ?o (map Attrs as) ?start w = Some (Ok ls, w1)"
    "tied w1 (models w @ ?new)" "l_toAdd ls = ?new" "l_order ls = None" "\<not> l_sort ls" "models w1 = models w" "len w1 = len w"
    "\<forall>r<next_mod w. mods w1 r = mods w r" "map (\<lambda>r k. model_get k (mods w1 r)) ?new = map (entry (cc_model cc)) as"
    using loop_adds [OF t assms(2,3) o, of ?start] by auto
  let ?w = "if as = [] then w1 else insert_added ?o ls w1"
  have ns: "\<not> sortable cc ?o" using assms(2) by (simp add: sortable_def idless_class_def)
  have "coll_add ignore_events cc (map Attrs as) opts w = Some (Ok (l_out ls), ?w)"
    unfolding coll_add_def coll_set_def
    using w1 ns assms(4) by (simp add: bindM_def whenM_def added_events_quiet add_opts_def given_def plain_adding_def)
  moreover have m: "models ?w = models w @ ?new" "len ?w = len w + int (length as)" "mods ?w = mods w1"
    using w1(3,4,6,7) assms(4) by (auto simp: insert_added_def add_opts_def plain_adding_def)
  moreover have "tied ?w (models w @ ?new)"
  proof (cases "as = []")
    case False
    then show ?thesis using w1(2) by (simp add: tied_def insert_added_def)
  qed (use w1(2) in simp)
  moreover have "map (\<lambda>r k. model_get k (mods w1 r)) (models w) = contents w"
    using w1(8) t by (auto simp: contents_def tied_def)
  ultimately show ?thesis
    using assms(1) w1(9) by (auto simp: coll_ok_def contents_def)
qed

section \<open>Resetting and removing\<close>

lemma fold_removeReference:
  "heard (fold removeReference rs w) r = (if r \<in> set rs then 0 else heard w r)"
  "byId (fold removeReference rs w) = byId w" "models (fold removeReference rs w) = models w"
  "next_mod (fold removeReference rs w) = next_mod w"
  by (induction rs arbitrary: w) (auto simp: removeReference_def Let_def)

lemma coll_reset_result:
  assumes "coll_ok w" "idless_class cc" "\<forall>a\<in>set as. idless a" "plain_adding opts"
  shows "\<exists>out w'. coll_reset ignore_events cc (map Attrs as) opts w = Some (Ok out, w') \<and> coll_ok w' \<and>
    contents w' = map (entry (cc_model cc)) as \<and> (\<forall>r\<in>set (models w). heard w' r = 0)"
proof -
  let ?w = "reset_state (fold removeReference (models w) w)"
  have t: "coll_ok ?w" "contents ?w = []"
    using assms(1) by (auto simp: coll_ok_def tied_def reset_state_def fold_removeReference contents_def oget_def)
  have o: "plain_adding (opts\<lparr>o_silent := True\<rparr>)" using assms(4) by (simp add: plain_adding_def)
  obtain out w' where w': "coll_add ignore_events cc (map Attrs as) (opts\<lparr>o_silent := True\<rparr>) ?w = Some (Ok out, w')" "coll_ok w'"
    "contents w' = contents ?w @ map (entry (cc_model cc)) as" "models w' = models ?w @ [next_mod ?w ..< next_mod ?w + length as]"
    using coll_add_result [OF t(1) assms(2,3) o] by blast
  then have "coll_reset ignore_events cc (map Attrs as) opts w = Some (Ok out, w')"
    by (simp add: coll_reset_def bindM_def whenM_def)
  moreover have "heard w' r = 0" if "r \<in> set (models w)" for r
  proof -
    have "r < next_mod w" using that assms(1) by (simp add: coll_ok_def tied_def)
    then have "r \<notin> set (models w')" by (simp add: w'(4) reset_state_def fold_removeReference)
    then show ?thesis using w'(2) by (simp add: coll_ok_def tied_def)
  qed
  ultimately show ?thesis using w' t(2) by auto
qed

lemma splice_out_index: "r \<in> set xs \<Longrightarrow> splice_out (index_of_ref r xs) xs = remove1 r xs"
proof (induction xs)
  case (Cons x xs)
  then show ?case
    by (cases "x = r") (auto simp: splice_out_def index_of_ref_def nat_add_distrib)
qed simp

lemma tied_removed:
  assumes t: "tied w (models w)" and r: "r \<in> set (models w)"
    and b: "\<And>k. oget (byId w') k = (if k = m_cid (mods w r) then None else oget (byId w) k)"
    and f: "heard w' = (heard w)(r := 0)" "next_mod w' = next_mod w" "coll_self w' = coll_self w" "cidCounter w' = cidCounter w"
      "\<And>x. x \<noteq> r \<Longrightarrow> mods w' x = mods w x"
  shows "tied w' (remove1 r (models w))"
proof -
  have m: "set (remove1 r (models w)) = set (models w) - {r}" "distinct (remove1 r (models w))"
    using t by (simp_all add: tied_def set_remove1_eq)
  have c: "m_cid (mods w x) \<noteq> m_cid (mods w r)" if "x \<in> set (models w)" "x \<noteq> r" for x
  proof -
    have "oget (byId w) (m_cid (mods w x)) = Some x" "oget (byId w) (m_cid (mods w r)) = Some r"
      using that t r by (simp_all add: tied_def)
    then show ?thesis using that(2) by auto
  qed
  show ?thesis
    unfolding tied_def m(1)
  proof (intro conjI ballI allI impI m(2))
    fix x
    assume x: "x \<in> set (models w) - {r}"
    show "x < next_mod w'" "heard w' x = 1" "oget (byId w') (m_cid (mods w' x)) = Some x" "m_id (mods w' x) = Undefined"
      "client_id (cidCounter w') (m_cid (mods w' x))" "m_collection (mods w' x) = Some (coll_self w')"
      using x t f b c by (simp_all add: tied_def)
  next
    show "heard w' x = 0" if "x \<notin> set (models w) - {r}" for x
      using that t f(1) by (auto simp: tied_def)
    fix q x
    assume q: "oget (byId w') q = Some x"
    then have "x \<in> set (models w)" "q = m_cid (mods w x)" "q \<noteq> m_cid (mods w r)"
      using t by (auto simp: b tied_def split: if_splits)
    then have "x \<noteq> r" by auto
    then show "x \<in> set (models w) - {r}" "q = m_cid (mods w' x)"
      using f(5) \<open>x \<in> set (models w)\<close> \<open>q = m_cid (mods w x)\<close> by simp_all
  qed
qed

lemma coll_remove_result:
  assumes "coll_ok w" "idless_class cc" "r \<in> set (models w)"
  shows "\<exists>w'. coll_remove ignore_events cc [r] opts w = Some (Ok (), w') \<and> coll_ok w' \<and> models w' = remove1 r (models w) \<and>
    contents w' = map (\<lambda>x k. model_get k (mods w x)) (remove1 r (models w)) \<and> heard w' r = 0 \<and> get_model cc r w' = None"
proof -
  have t: "tied w (models w)" and d: "distinct (models w)" using assms(1) by (simp_all add: coll_ok_def tied_def)
  let ?w1 = "w\<lparr>byId := odel (m_cid (mods w r)) (odel ''undefined'' (byId w)), models := remove1 r (models w), len := len w - 1\<rparr>"
  let ?w = "removeReference r ?w1"
  have g: "get_model cc r w = Some r" by (rule get_tied [OF t assms(3,2)])
  have "m_id (mods w r) = Undefined" using t assms(3) by (simp add: tied_def)
  then have "coll_remove ignore_events cc [r] opts w = Some (Ok (), ?w)"
    using g assms(2,3)
    by (simp add: fire_coll_quiet(2) [OF quiet_names(2) _ quiet_names(4)] coll_remove_def remove_one_def bindM_def whenM_def splice_out_index idless_class_def Let_def)
  moreover have f: "models ?w = remove1 r (models w)" "len ?w = len w - 1" "byId ?w = odel (m_cid (mods w r)) (odel ''undefined'' (byId w))"
    "heard ?w = (heard w)(r := 0)" "next_mod ?w = next_mod w" "coll_self ?w = coll_self w" "cidCounter ?w = cidCounter w"
    "\<And>x. x \<noteq> r \<Longrightarrow> mods ?w x = mods w x" "m_cid (mods ?w r) = m_cid (mods w r)" "m_id (mods ?w r) = m_id (mods w r)"
    by (simp_all add: removeReference_def Let_def)
  moreover have m: "set (remove1 r (models w)) = set (models w) - {r}" "distinct (remove1 r (models w))"
    "length (remove1 r (models w)) = length (models w) - 1"
    using d assms(3) by (simp_all add: set_remove1_eq length_remove1)
  have u: "oget (byId w) ''undefined'' = None" by (rule tied_undefined [OF t])
  have k: "oget (byId ?w) k = (if k = m_cid (mods w r) then None else oget (byId w) k)" for k
    using u f(3) by (simp add: obj_simps)
  have t': "tied ?w (remove1 r (models w))" by (rule tied_removed [OF t assms(3) k f(4-8)])
  have "0 < length (models w)" using assms(3) by (cases "models w") auto
  then have ok: "coll_ok ?w" using t' f(1,2) m(3) assms(1) by (simp add: coll_ok_def int_ops(6))
  have "contents ?w = map (\<lambda>x k. model_get k (mods w x)) (remove1 r (models w))"
    unfolding contents_def f(1) using f(8) m(1) by (intro map_cong refl) auto
  moreover have "oget (byId ?w) ''undefined'' = None" "oget (byId ?w) (m_cid (mods w r)) = None"
    unfolding k using u by simp_all
  then have "get_model cc r ?w = None"
    using f(9,10) \<open>m_id (mods w r) = Undefined\<close> assms(2) by (simp add: get_model_def idless_class_def)
  ultimately show ?thesis using ok by auto
qed

section \<open>Properties\<close>

text \<open>C4: a collection of models without identifiers is the list of their attributes. Adding objects
  appends them with the defaults filled in, resetting replaces the list and lets go of the models
  it held, removing a model takes it out and forgets it; the array, the index, the counted length
  and the listeners agree after each.\<close>

theorem collection_refines_list:
  fixes w :: "('v, 'z) collection_scheme"
  assumes "coll_ok w" "idless_class cc" "\<forall>a\<in>set as. idless a" "plain_adding opts"
  shows "(\<exists>out w'. coll_add ignore_events cc (map Attrs as) opts w = Some (Ok out, w') \<and> coll_ok w' \<and>
      contents w' = contents w @ map (entry (cc_model cc)) as) \<and>
    (\<exists>out w'. coll_reset ignore_events cc (map Attrs as) opts w = Some (Ok out, w') \<and> coll_ok w' \<and>
      contents w' = map (entry (cc_model cc)) as \<and> (\<forall>r\<in>set (models w). heard w' r = 0)) \<and>
    (\<forall>r\<in>set (models w). \<exists>w'. coll_remove ignore_events cc [r] opts w = Some (Ok (), w') \<and> coll_ok w' \<and>
      contents w' = map (\<lambda>x k. model_get k (mods w x)) (remove1 r (models w)) \<and> heard w' r = 0 \<and> get_model cc r w' = None)"
  using coll_add_result [OF assms] coll_reset_result [OF assms] coll_remove_result [OF assms(1,2), of _ opts]
  by blast

definition text_class :: "string coll_class" where
  "text_class =
     \<lparr>cc_model = plain_class, cc_sort = None, cc_sortAttr = None, cc_parse = id,
      cc_key = (\<lambda>v. case v of Undefined \<Rightarrow> ''undefined'' | Null \<Rightarrow> ''null'' | Val t \<Rightarrow> t), cc_url = Ok ''/?s=users''\<rparr>"

definition no_models :: "string collection" where
  "no_models = \<lparr>mods = (\<lambda>_. blank_model [] None), next_mod = 1, cidCounter = 0, requests = [], models = [], byId = [], len = 0,
     heard = (\<lambda>_. 0), coll_self = 0\<rparr>"

lemma no_models_ok: "coll_ok no_models"
  by (simp add: coll_ok_def tied_def no_models_def oget_def)

lemma text_class_idless: "idless_class text_class"
  by (simp add: idless_class_def text_class_def plain_class_def)

theorem collection_refines_list_witness:
  "\<exists>w w' :: string collection. coll_ok w \<and> length (contents w) = 1 \<and>
     (\<exists>out. coll_add ignore_events text_class [Attrs [(''username'', Val ''bob'')]] no_copts w = Some (Ok out, w')) \<and>
     length (contents w') = 2 \<and> (contents w' ! 1) ''username'' = Val ''bob''"
proof -
  have p: "plain_adding no_copts" by (simp add: plain_adding_def no_copts_def no_opts_def mopts.extend_def)
  have i: "\<forall>a\<in>set [[(''username'', Val n)]]. idless a" for n :: string
    by (simp add: idless_def lookup_def oget_def idAttribute_def)
  obtain out w where w: "coll_add ignore_events text_class (map Attrs [[(''username'', Val ''ann'')]]) no_copts no_models = Some (Ok out, w)"
    "coll_ok w" "contents w = contents no_models @ map (entry (cc_model text_class)) [[(''username'', Val ''ann'')]]"
    using coll_add_result [OF no_models_ok text_class_idless i p] by blast
  have l: "length (contents w) = 1" using w(3) by (simp add: contents_def no_models_def)
  from collection_refines_list [OF w(2) text_class_idless i [of "''bob''"] p]
  obtain out' w' where w': "coll_add ignore_events text_class (map Attrs [[(''username'', Val ''bob'')]]) no_copts w = Some (Ok out', w')"
    "contents w' = contents w @ map (entry (cc_model text_class)) [[(''username'', Val ''bob'')]]" by blast
  then show ?thesis
    using w(2) l by (intro exI [of _ w] exI [of _ w']) (auto simp: nth_append entry_def lookup_def oget_def)
qed

text \<open>Whoever is found by attributes is the first of the list with those values.\<close>

theorem findWhere_first:
  assumes "attrs \<noteq> []"
  shows "findWhere attrs w = None \<longleftrightarrow> (\<forall>f\<in>set (contents w). \<exists>k\<in>set (okeys attrs). lookup attrs k \<noteq> f k)"
  using assms by (auto simp: findWhere_def find_None_iff contents_def matches_def list_all_iff)

text \<open>An update that may not add throws as soon as it meets an object that is not in the
  collection.\<close>

theorem set_without_add_throws:
  assumes "idless a" "o_add opts = Some False" "o_parse opts = None"
  shows "coll_set nt cc [Attrs a] opts w = Some (Throw (TypeError ''id of undefined''), w)"
  using assms
  by (simp add: coll_set_def bindM_def set_one_def find_existing_def get_by_id_def idless_def given_def Let_def)

text \<open>A model without an identifier that an update lists twice is in the collection twice afterwards,
  although the counted length says once.\<close>

definition one_model :: "string collection" where
  "one_model = \<lparr>mods = (\<lambda>_. (blank_model ''c1'' (Some 0))\<lparr>attributes := [(''username'', Val ''ann'')]\<rparr>), next_mod = 2, cidCounter = 1,
     requests = [], models = [1], byId = [(''c1'', 1)], len = 1, heard = (\<lambda>r. if r = 1 then 1 else 0), coll_self = 0\<rparr>"

lemma one_model_ok: "coll_ok one_model"
proof -
  have "''c1'' = ''c'' @ nat_str 1" by code_simp
  then have "client_id 1 ''c1''" by (auto simp: client_id_def)
  then show ?thesis
    by (auto simp: coll_ok_def tied_def one_model_def blank_model_def oget_def split: if_splits)
qed

theorem listed_twice:
  "coll_ok one_model \<and>
   (case coll_set ignore_events text_class [Model 1, Model 1] no_copts one_model of
      Some (Ok out, w) \<Rightarrow> models w = [1, 1] \<and> len w = 1
    | _ \<Rightarrow> False)"
proof (rule conjI [OF one_model_ok])
  show "case coll_set ignore_events text_class [Model 1, Model 1] no_copts one_model of
      Some (Ok out, w) \<Rightarrow> models w = [1, 1] \<and> len w = 1 | _ \<Rightarrow> False"
    by code_simp
qed

end
