(* ===== verification/Users_Store.thy ===== *)
theory Users_Store
  imports Users_Props Bb_Collection_Props
begin

text \<open>
  The users as the program keeps them, in a Backbone collection, and the list that the theory
  \<open>Users\<close> works with: the collection \<open>UsersModel\<close> of src/files/graph.js implements the list.
\<close>

definition opt_val :: "string option \<Rightarrow> string jsval" where
  "opt_val x = (case x of None \<Rightarrow> Undefined | Some t \<Rightarrow> Val t)"

definition val_opt :: "string jsval \<Rightarrow> string option" where
  "val_opt v = (case v of Val t \<Rightarrow> Some t | _ \<Rightarrow> None)"

text \<open>The attributes that \<open>UsersModel.parse\<close> and \<open>createUserAndLogin\<close> give a user.\<close>

definition user_attrs :: "user \<Rightarrow> string attrs" where
  "user_attrs u = [(''username'', opt_val (us_name u)), (''password_hash'', opt_val (us_hash u))]"

text \<open>How the text of a password object is written as JSON is an argument.\<close>

definition users_class :: "(string option \<Rightarrow> string) \<Rightarrow> string coll_class" where
  "users_class st =
     \<lparr>cc_model = \<lparr>c_defaults = [], c_validate = None, c_parse = id,
        c_toJSON = (\<lambda>a. [(''user.'' @ or_undefined (val_opt (lookup a ''username'')), Val (st (val_opt (lookup a ''password_hash''))))]),
        c_url = default_url None (Some ''/?s=users'') (\<lambda>v. case v of Val t \<Rightarrow> Ok t | _ \<Rightarrow> Ok [])\<rparr>,
      cc_sort = None, cc_sortAttr = None, cc_parse = id,
      cc_key = (\<lambda>v. case v of Undefined \<Rightarrow> ''undefined'' | Null \<Rightarrow> ''null'' | Val t \<Rightarrow> t), cc_url = Ok ''/?s=users''\<rparr>"

definition user_of :: "(string \<Rightarrow> string jsval) \<Rightarrow> user" where
  "user_of f = \<lparr>us_name = val_opt (f ''username''), us_hash = val_opt (f ''password_hash'')\<rparr>"

definition users_of :: "(string, 'z) collection_scheme \<Rightarrow> user list" where
  "users_of w = map user_of (contents w)"

lemma users_class_idless: "idless_class (users_class st)"
  by (simp add: idless_class_def users_class_def)

lemma val_opt_inverse [simp]: "val_opt (opt_val x) = x"
  by (simp add: val_opt_def opt_val_def split: option.split)

lemma user_of_entry: "user_of (entry (cc_model (users_class st)) (user_attrs u)) = u"
proof -
  have "entry (cc_model (users_class st)) (user_attrs u) ''username'' = opt_val (us_name u)"
    "entry (cc_model (users_class st)) (user_attrs u) ''password_hash'' = opt_val (us_hash u)"
    by (simp_all add: entry_def users_class_def user_attrs_def lookup_def oget_def opt_val_def split: option.split)
  then show ?thesis by (simp add: user_of_def)
qed

lemma user_attrs_idless: "idless (user_attrs u)"
  by (simp add: idless_def user_attrs_def lookup_def oget_def idAttribute_def)

lemma plain_adding_none: "plain_adding no_copts"
  by (simp add: plain_adding_def no_copts_def no_opts_def mopts.extend_def)

lemma findWhere_user:
  "map_option (\<lambda>r. user_of (\<lambda>k. model_get k (mods w r))) (findWhere [(''username'', Val n)] w) = find_user (u16 n) (users_of w)"
proof -
  have "map_option (\<lambda>r. user_of (\<lambda>k. model_get k (mods w r))) (find (\<lambda>r. matches [(''username'', Val n)] (mods w r)) rs) =
      find_user (u16 n) (map user_of (map (\<lambda>r k. model_get k (mods w r)) rs))" for rs
  proof (induction rs)
    case (Cons r rs)
    have "matches [(''username'', Val n)] (mods w r) \<longleftrightarrow> us_name (user_of (\<lambda>k. model_get k (mods w r))) = Some n"
      by (auto simp: matches_def okeys_def order_keys_def is_index_def is_digit_def lookup_def oget_def user_of_def val_opt_def
          split: jsval.split)
    then show ?case using Cons by (simp add: find_user_def u16_inject)
  qed (simp add: find_user_def)
  then show ?thesis by (simp add: findWhere_def users_of_def contents_def)
qed



end
