(* ===== verification/Xref.thy ===== *)
theory Xref
  imports Grid
begin

text \<open>
  The cross-reference dialog of src/files/graph.js: \<open>computeXref\<close> relates the categories that
  occur together in an agent, \<open>populateXrefFrom\<close> and \<open>populateXrefTo\<close> fill the two menus, and the
  buttons rename or add counters. The tables are JavaScript arrays used as dictionaries: their
  own members and those of their prototype count as present, and sorting moves numeric keys.
\<close>

section \<open>Arrays as dictionaries\<close>

definition array_proto :: "string list" where
  "array_proto = object_proto @ [''length'', ''at'', ''concat'', ''copyWithin'', ''fill'', ''find'', ''findIndex'',
     ''findLast'', ''findLastIndex'', ''lastIndexOf'', ''pop'', ''push'', ''reverse'', ''shift'', ''unshift'', ''slice'',
     ''sort'', ''splice'', ''includes'', ''indexOf'', ''join'', ''keys'', ''entries'', ''values'', ''forEach'', ''filter'',
     ''flat'', ''flatMap'', ''map'', ''every'', ''some'', ''reduce'', ''reduceRight'', ''toReversed'', ''toSorted'',
     ''toSpliced'', ''with'']"

text \<open>\<open>k in a\<close> for an array with string keys.\<close>

definition in_array :: "string \<Rightarrow> 'v jsobj \<Rightarrow> bool" where
  "in_array k a \<longleftrightarrow> oget a k \<noteq> None \<or> k \<in> set array_proto"

text \<open>\<open>a.sort()\<close> on an array whose values are all equal moves the numeric keys to the front.\<close>

definition sort_row :: "unit jsobj \<Rightarrow> unit jsobj" where
  "sort_row r =
     (let ks = map fst r
      in map (\<lambda>i. (nat_str i, ())) [0..<length (filter is_index ks)] @ map (\<lambda>k. (k, ())) (filter (\<lambda>k. \<not> is_index k) ks))"

section \<open>Categories that occur together\<close>

type_synonym xrefs = "unit jsobj jsobj"

text \<open>A category that the array has from its prototype gets no row: the writes go to the member.\<close>

definition xref_pair :: "string \<Rightarrow> string \<Rightarrow> xrefs \<Rightarrow> xrefs" where
  "xref_pair c c2 ret =
     (case oget ret c of
        None \<Rightarrow> ret
      | Some row \<Rightarrow> if in_array c2 row then ret else oset c (oset c2 () row) ret)"

definition xref_category :: "string list \<Rightarrow> string \<Rightarrow> xrefs \<Rightarrow> xrefs" where
  "xref_category categories c ret =
     fold (xref_pair c) categories (if in_array c ret then ret else oset c [] ret)"

text \<open>An agent is given by its categories, when it has any.\<close>

definition xref_agent :: "string option \<Rightarrow> xrefs \<Rightarrow> xrefs" where
  "xref_agent cats ret =
     (case cats of
        None \<Rightarrow> ret
      | Some txt \<Rightarrow> (let categories = split_chr (CHR '','') txt in fold (xref_category categories) categories ret))"

definition finish_rows :: "xrefs \<Rightarrow> xrefs" where
  "finish_rows ret = map (\<lambda>(k, row). (k, sort_row (odel k row))) ret"

definition computeXref :: "string option list \<Rightarrow> xrefs" where
  "computeXref agents = finish_rows (fold xref_agent agents [])"

section \<open>The menus\<close>

text \<open>\<open>counter.substr(-n) == category\<close> with \<open>n\<close> the category's length; minus zero is zero.\<close>

definition has_ending :: "string \<Rightarrow> string \<Rightarrow> bool" where
  "has_ending category counter \<longleftrightarrow>
     (if category = [] then counter = [] else drop (length counter - length category) counter = category)"

record xref_dialog =
  xd_prompt :: nat
  xd_from :: "string list"
  xd_fromSelected :: nat
  xd_to :: "(string \<times> bool) list"
  xd_xrefs :: "xrefs option"

definition option_categories :: "string list \<Rightarrow> xrefs \<Rightarrow> string list" where
  "option_categories counters xr =
     okeys (fold (\<lambda>cat oc. if \<exists>c\<in>set counters. has_ending cat c then oset cat () oc else oc) (okeys xr) [])"

definition populateXrefFrom :: "xrefs \<Rightarrow> 'z app_scheme \<Rightarrow> xref_dialog \<Rightarrow> xref_dialog" where
  "populateXrefFrom xr s d = d\<lparr>xd_from := xd_from d @ option_categories (getGraphedCounters s) xr\<rparr>"

definition xref_row :: "xrefs \<Rightarrow> string \<Rightarrow> string list" where
  "xref_row xr c = (case oget xr c of None \<Rightarrow> [] | Some row \<Rightarrow> okeys row)"

definition populateXrefTo :: "xrefs \<Rightarrow> xref_dialog \<Rightarrow> xref_dialog outcome" where
  "populateXrefTo xr d =
     (if xd_fromSelected d < length (xd_from d)
      then Ok (d\<lparr>xd_to := take 1 (xd_to d) @ map (\<lambda>c. (c, False)) (sort (xref_row xr (xd_from d ! xd_fromSelected d)))\<rparr>)
      else Throw (TypeError ''text of undefined''))"

section \<open>The dialog\<close>

definition xrefSelectDialog :: "string \<Rightarrow> 'z app_scheme \<Rightarrow> xref_dialog \<times> 'z app_scheme" where
  "xrefSelectDialog prmp s =
     (case open_prompt (XrefSelect (htmlescape prmp)) s of (i, s1) \<Rightarrow>
        (\<lparr>xd_prompt = i, xd_from = [''Xref From''], xd_fromSelected = 0, xd_to = [(''Xref To'', True)], xd_xrefs = None\<rparr>, s1))"

definition xref_change :: "'z app_scheme \<Rightarrow> xref_dialog \<times> 'z app_scheme" where
  "xref_change s = xrefSelectDialog ''Alter graph to use cross-references instead. See source for more details.'' s"

text \<open>The reply with the agents; a reply that is not JSON throws.\<close>

definition agents_loaded :: "string option list option \<Rightarrow> 'z app_scheme \<Rightarrow> xref_dialog \<Rightarrow> xref_dialog outcome" where
  "agents_loaded body s d =
     (case body of
        None \<Rightarrow> Throw (SyntaxError ''JSON.parse'')
      | Some agents \<Rightarrow> (let x = computeXref agents in Ok (populateXrefFrom x s (d\<lparr>xd_xrefs := Some x\<rparr>))))"

text \<open>Choosing in the first menu; before the reply nothing listens.\<close>

definition from_chosen :: "nat \<Rightarrow> xref_dialog \<Rightarrow> xref_dialog outcome" where
  "from_chosen i d =
     (let d1 = d\<lparr>xd_fromSelected := i\<rparr> in case xd_xrefs d of None \<Rightarrow> Ok d1 | Some x \<Rightarrow> populateXrefTo x d1)"

text \<open>The handler of the two buttons. The text of a menu that has no selection cannot be read.\<close>

definition selected_to :: "xref_dialog \<Rightarrow> string list" where
  "selected_to d = map fst (filter snd (xd_to d))"

definition xref_handler :: "bool \<Rightarrow> xref_dialog \<Rightarrow> 'z app_scheme \<Rightarrow> unit outcome \<times> 'z app_scheme" where
  "xref_handler change d s =
     (if xd_fromSelected d \<ge> length (xd_from d) then (Throw (TypeError ''text of undefined''), s)
      else (let from = xd_from d ! xd_fromSelected d
            in if change
               then (case selected_to d of
                       [] \<Rightarrow> (Throw (TypeError ''text of undefined''), s)
                     | t # _ \<Rightarrow> (Ok (), remove_prompt (xd_prompt d) (change_counters (from @ '':'' @ t) False s)))
               else (Ok (), remove_prompt (xd_prompt d)
                       (fold (\<lambda>t s. change_counters (from @ '':'' @ t) True s) (selected_to d) s))))"

definition xref_button :: "bool \<Rightarrow> xref_dialog \<Rightarrow> 'z app_scheme \<Rightarrow> 'z app_scheme" where
  "xref_button change d s = guarded [] (xref_handler change d) s"

section \<open>The table\<close>

text \<open>A category that is neither a number nor a member of arrays.\<close>

definition plain_category :: "string \<Rightarrow> bool" where
  "plain_category c \<longleftrightarrow> (c = [] \<or> \<not> list_all is_digit c) \<and> c \<notin> set array_proto"

lemma plain_not_number: "plain_category c \<Longrightarrow> c \<noteq> nat_str i \<and> \<not> is_index c"
  using nat_str_digits [of _ i] nat_str_nonempty [of i] by (auto simp: plain_category_def is_index_def list_all_iff simp del: nat_str_nonempty)

definition agent_has :: "string option \<Rightarrow> string \<Rightarrow> bool" where
  "agent_has cats c \<longleftrightarrow> (\<exists>txt. cats = Some txt \<and> c \<in> set (split_chr (CHR '','') txt))"

definition related :: "xrefs \<Rightarrow> string \<Rightarrow> string \<Rightarrow> bool" where
  "related xr a b \<longleftrightarrow> (\<exists>row. oget xr a = Some row \<and> oget row b \<noteq> None)"

text \<open>The rows while the agents are read: a row exists, and a pair is related, exactly for what was seen.\<close>

lemma oget_xref_pair:
  "oget (xref_pair c c2 ret) k =
     (if k = c then map_option (\<lambda>row. if in_array c2 row then row else oset c2 () row) (oget ret c) else oget ret k)"
  by (auto simp: xref_pair_def obj_simps split: option.splits)

definition row_add :: "string list \<Rightarrow> unit jsobj \<Rightarrow> unit jsobj" where
  "row_add cs row = fold (\<lambda>c2 row. if in_array c2 row then row else oset c2 () row) cs row"

lemma oget_xref_pairs: "oget (fold (xref_pair c) cs ret) k = (if k = c then map_option (row_add cs) (oget ret c) else oget ret k)"
proof (induction cs arbitrary: ret)
  case Nil
  then show ?case by (simp add: row_add_def option.map_ident)
next
  case (Cons x cs)
  then show ?case by (simp add: oget_xref_pair row_add_def option.map_comp comp_def)
qed

lemma row_add_get: "oget (row_add cs row) b \<noteq> None \<longleftrightarrow> oget row b \<noteq> None \<or> b \<in> set cs \<and> b \<notin> set array_proto"
  unfolding row_add_def by (induction cs arbitrary: row) (auto simp: in_array_def obj_simps split: if_splits)

lemma oget_xref_category:
  "oget (xref_category cs c ret) k =
     (if k = c then (case oget ret c of Some row \<Rightarrow> Some (row_add cs row) | None \<Rightarrow> if c \<in> set array_proto then None else Some (row_add cs []))
      else oget ret k)"
  by (auto simp: xref_category_def oget_xref_pairs in_array_def obj_simps split: option.splits)

lemma related_category:
  "related (xref_category cs c ret) a b \<longleftrightarrow>
     related ret a b \<or> a = c \<and> c \<notin> set array_proto \<and> b \<in> set cs \<and> b \<notin> set array_proto \<or>
     a = c \<and> oget ret c \<noteq> None \<and> b \<in> set cs \<and> b \<notin> set array_proto"
  unfolding related_def oget_xref_category
  using row_add_get [of cs _ b] by (auto simp: oget_def split: option.splits)

text \<open>No row is ever made for a member of arrays.\<close>

definition rows_plain :: "xrefs \<Rightarrow> bool" where
  "rows_plain ret \<longleftrightarrow> (\<forall>k. oget ret k \<noteq> None \<longrightarrow> k \<notin> set array_proto)"

lemma rows_plain_category: "rows_plain ret \<Longrightarrow> rows_plain (xref_category cs c ret)"
  by (auto simp: rows_plain_def oget_xref_category split: option.splits if_splits)

lemma related_categories:
  "rows_plain ret \<Longrightarrow>
   rows_plain (fold (xref_category cs) ds ret) \<and>
   (related (fold (xref_category cs) ds ret) a b \<longleftrightarrow>
      related ret a b \<or> a \<in> set ds \<and> b \<in> set cs \<and> a \<notin> set array_proto \<and> b \<notin> set array_proto)"
proof (induction ds arbitrary: ret)
  case (Cons d ds)
  have "oget ret d \<noteq> None \<Longrightarrow> d \<notin> set array_proto" using Cons.prems by (simp add: rows_plain_def)
  then show ?case
    using Cons.IH [OF rows_plain_category [OF Cons.prems, of cs d]] related_category [of cs d ret a b] by auto
qed simp

lemma related_agents:
  "rows_plain ret \<Longrightarrow>
   related (fold xref_agent as ret) a b \<longleftrightarrow>
     related ret a b \<or> (a \<notin> set array_proto \<and> b \<notin> set array_proto \<and> (\<exists>x\<in>set as. agent_has x a \<and> agent_has x b))"
proof (induction as arbitrary: ret)
  case (Cons x as)
  have "rows_plain (xref_agent x ret) \<and> (related (xref_agent x ret) a b \<longleftrightarrow>
      related ret a b \<or> agent_has x a \<and> agent_has x b \<and> a \<notin> set array_proto \<and> b \<notin> set array_proto)"
    using related_categories [OF Cons.prems] Cons.prems
    by (auto simp: xref_agent_def agent_has_def Let_def split: option.splits)
  then show ?case using Cons.IH [of "xref_agent x ret"] by auto
qed simp

lemma sort_row_get: "plain_category b \<Longrightarrow> oget (sort_row r) b \<noteq> None \<longleftrightarrow> oget r b \<noteq> None"
proof -
  assume b: "plain_category b"
  have key: "oget x b \<noteq> None \<longleftrightarrow> b \<in> fst ` set x" for x :: "unit jsobj"
    unfolding oget_def by (metis map_of_eq_None_iff)
  have "fst ` set (sort_row r) = nat_str ` {0..<length (filter is_index (map fst r))} \<union> {k \<in> fst ` set r. \<not> is_index k}"
    by (auto simp: sort_row_def image_Un image_image Let_def simp del: length_map)
  then show ?thesis using plain_not_number [OF b] unfolding key by auto
qed

lemma oget_finish: "oget (finish_rows ret) k = map_option (\<lambda>row. sort_row (odel k row)) (oget ret k)"
  by (induction ret) (auto simp: finish_rows_def oget_def)



text \<open>A numeric category is offered under another name: sorting the row renumbers it.\<close>

theorem numeric_category_renumbered:
  "xref_row (computeXref [Some ''class.web,42'']) ''class.web'' = [''0'']"
  by code_simp

end
