(* ===== verification/Frame.thy ===== *)
theory Frame
  imports Grid
begin

text \<open>
  The frame of the page in src/files/graph.js: how the browser reports that the page is hidden,
  the \<open>Widget\<close> that forwards mouse events to its object, the tabs (\<open>TabCollection\<close>), the bar
  between the tabs and the graphs (\<open>HSplitter\<close>), hiding the tabs, and the layout
  (\<open>documentResize\<close>). Measured sizes are fields of the state.
\<close>

section \<open>Visibility of the page\<close>

text \<open>The four properties a browser may have, in the order the code tries them.\<close>

record features =
  ft_hidden :: "bool option"
  ft_mozHidden :: "bool option"
  ft_msHidden :: "bool option"
  ft_webkitHidden :: "bool option"

definition visibility_api :: "features \<Rightarrow> (string \<times> string) option" where
  "visibility_api d =
     (if ft_hidden d \<noteq> None then Some (''hidden'', ''visibilitychange'')
      else if ft_mozHidden d \<noteq> None then Some (''mozHidden'', ''mozvisibilitychange'')
      else if ft_msHidden d \<noteq> None then Some (''msHidden'', ''msvisibilitychange'')
      else if ft_webkitHidden d \<noteq> None then Some (''webkitHidden'', ''webkitvisibilitychange'')
      else None)"

definition pageIsHidden :: "features \<Rightarrow> bool" where
  "pageIsHidden d =
     (case ft_hidden d of
        Some b \<Rightarrow> b
      | None \<Rightarrow> (case ft_mozHidden d of
                   Some b \<Rightarrow> b
                 | None \<Rightarrow> (case ft_msHidden d of
                              Some b \<Rightarrow> b
                            | None \<Rightarrow> (case ft_webkitHidden d of Some b \<Rightarrow> b | None \<Rightarrow> False))))"

definition document_property :: "features \<Rightarrow> string \<Rightarrow> bool option" where
  "document_property d p =
     (if p = ''hidden'' then ft_hidden d else if p = ''mozHidden'' then ft_mozHidden d
      else if p = ''msHidden'' then ft_msHidden d else if p = ''webkitHidden'' then ft_webkitHidden d else None)"

definition document_hidden :: "features \<Rightarrow> bool" where
  "document_hidden d = (case visibility_api d of None \<Rightarrow> False | Some (p, _) \<Rightarrow> document_property d p = Some True)"

text \<open>The listener of the visibility event: the remembered value, the page's state with the current one.\<close>

definition visibility_changed :: "bool \<times> 'z app_scheme \<Rightarrow> bool \<times> 'z app_scheme" where
  "visibility_changed ds =
     (case ds of (was, s) \<Rightarrow>
        (tl_hidden s, if was \<noteq> tl_hidden s then (if tl_hidden s then refresh s else s) else s))"

text \<open>\<open>console.log\<close> where the browser has none: an alert, if the flag is on.\<close>

definition console_log :: "bool \<Rightarrow> bool \<Rightarrow> string list \<Rightarrow> string option" where
  "console_log has_log alert_on args = (if has_log \<or> \<not> alert_on then None else Some (join_str '' '' args))"

section \<open>Widgets\<close>

text \<open>A widget knows its children and its owner; its object is given by its methods.\<close>

record widget =
  wg_children :: "nat list"
  wg_owner :: "nat option"

definition Widget :: "nat option \<Rightarrow> widget list \<Rightarrow> nat \<times> widget list" where
  "Widget owner ws =
     (let self = length ws;
          ws1 = ws @ [\<lparr>wg_children = [], wg_owner = owner\<rparr>]
      in (self, case owner of
                  None \<Rightarrow> ws1
                | Some p \<Rightarrow> ws1[p := (ws1 ! p)\<lparr>wg_children := wg_children (ws1 ! p) @ [self]\<rparr>]))"

definition objForward ::
  "(string \<Rightarrow> ('z app_scheme \<Rightarrow> unit outcome \<times> 'z app_scheme) option) \<Rightarrow> string \<Rightarrow> 'z app_scheme \<Rightarrow> 'z app_scheme" where
  "objForward methods name s =
     guarded ''Widget_objForward'' (\<lambda>s. case methods name of None \<Rightarrow> (Ok (), s) | Some f \<Rightarrow> f s) s"

definition widget_events :: "string list" where
  "widget_events = [''mousedown'', ''mouseup'', ''mousemove'', ''click'']"

section \<open>Tabs\<close>

record tab =
  tb_id :: string
  tb_active :: bool

record tab_label =
  lb_text :: string
  lb_title :: string
  lb_active :: bool

definition upper :: "char \<Rightarrow> char" where
  "upper c = (if 97 \<le> (of_char c :: nat) \<and> (of_char c :: nat) \<le> 122 then char_of (of_char c - 32 :: nat) else c)"

definition tab_text :: "string \<Rightarrow> string" where
  "tab_text i = (case i of [] \<Rightarrow> [] | c # r \<Rightarrow> upper c # r)"

definition rebuildTabs :: "tab list \<Rightarrow> tab_label list" where
  "rebuildTabs ts = map (\<lambda>t. \<lparr>lb_text = tab_text (tb_id t), lb_title = tab_text (tb_id t), lb_active = tb_active t\<rparr>) ts"

definition TabCollection :: "tab list \<Rightarrow> tab list \<times> tab_label list" where
  "TabCollection ts = (ts, rebuildTabs ts)"

text \<open>A click on the label at an index.\<close>

definition tab_click :: "nat \<Rightarrow> tab list \<times> tab_label list \<Rightarrow> tab list \<times> tab_label list" where
  "tab_click i col =
     (case col of (ts, ls) \<Rightarrow>
        if i < length ls
        then (map (\<lambda>k. (ts ! k)\<lparr>tb_active := (k = i)\<rparr>) [0..<length ts], map (\<lambda>k. (ls ! k)\<lparr>lb_active := (k = i)\<rparr>) [0..<length ls])
        else col)"

section \<open>Layout\<close>

record frame =
  fr_window :: "int \<times> int"
  fr_leftWidth :: int
  fr_leftMargin :: int
  fr_splitWidth :: int
  fr_closed :: bool
  fr_oldWidth :: "int option"
  fr_drags :: nat
  fr_cursor :: bool
  fr_gridLeft :: int
  fr_gridWidth :: int
  fr_height :: int
  fr_tabTops :: "int list"
  fr_tabHeights :: "int list"

definition actualWidth_tabs :: "frame \<Rightarrow> int" where
  "actualWidth_tabs f = fr_leftWidth f + fr_leftMargin f"

definition resize_frame :: "frame \<Rightarrow> frame" where
  "resize_frame f =
     (let cw = actualWidth_tabs f + fr_splitWidth f; height = snd (fr_window f) - 5
      in f\<lparr>fr_gridLeft := cw, fr_gridWidth := fst (fr_window f) - cw - 1, fr_height := height,
           fr_tabHeights := map (\<lambda>top. height - top) (fr_tabTops f)\<rparr>)"

definition documentResize :: "frame \<times> 'z app_scheme \<Rightarrow> frame \<times> 'z app_scheme" where
  "documentResize fs = (resize_frame (fst fs), repaintAll (snd fs))"

section \<open>The splitter\<close>

text \<open>Every press binds one more pair of document handlers; the release unbinds all of them.\<close>

definition splitter_mousedown :: "frame \<Rightarrow> frame" where
  "splitter_mousedown f = f\<lparr>fr_drags := Suc (fr_drags f), fr_cursor := True\<rparr>"

definition splitter_move1 :: "int \<Rightarrow> frame \<times> 'z app_scheme \<Rightarrow> frame \<times> 'z app_scheme" where
  "splitter_move1 x fs =
     (if x \<ge> 0 then documentResize ((fst fs)\<lparr>fr_leftWidth := max 0 (x - 16)\<rparr>, snd fs) else fs)"

definition splitter_mousemove :: "int \<Rightarrow> frame \<times> 'z app_scheme \<Rightarrow> frame \<times> 'z app_scheme" where
  "splitter_mousemove x fs = ((splitter_move1 x) ^^ fr_drags (fst fs)) fs"

definition splitter_mouseup :: "frame \<Rightarrow> frame" where
  "splitter_mouseup f = (if fr_drags f = 0 then f else f\<lparr>fr_drags := 0, fr_cursor := False\<rparr>)"

text \<open>Hiding and showing the tabs; the closure remembers the width, at first the empty text,
  which leaves the width as it is.\<close>

definition toggle_lefttab :: "frame \<times> 'z app_scheme \<Rightarrow> frame \<times> 'z app_scheme" where
  "toggle_lefttab fs =
     (let f = fst fs;
          f1 = (if fr_closed f
                then f\<lparr>fr_leftWidth := (case fr_oldWidth f of None \<Rightarrow> fr_leftWidth f | Some w \<Rightarrow> w), fr_closed := False\<rparr>
                else f\<lparr>fr_oldWidth := Some (fr_leftWidth f), fr_leftWidth := 0, fr_closed := True\<rparr>)
      in documentResize (f1, snd fs))"

section \<open>Properties\<close>

lemma pageIsHidden_document: "pageIsHidden d = document_hidden d"
  by (auto simp: pageIsHidden_def document_hidden_def visibility_api_def document_property_def split: option.splits)

definition layout_ok :: "frame \<Rightarrow> bool" where
  "layout_ok f \<longleftrightarrow> fr_gridLeft f = actualWidth_tabs f + fr_splitWidth f \<and>
     actualWidth_tabs f + fr_splitWidth f + fr_gridWidth f + 1 = fst (fr_window f)"

lemma documentResize_layout: "layout_ok (fst (documentResize fs))"
  by (simp add: documentResize_def resize_frame_def layout_ok_def actualWidth_tabs_def Let_def)

lemma documentResize_keeps [simp]:
  "fr_leftWidth (fst (documentResize fs)) = fr_leftWidth (fst fs)" "fr_closed (fst (documentResize fs)) = fr_closed (fst fs)"
  "fr_oldWidth (fst (documentResize fs)) = fr_oldWidth (fst fs)"
  by (simp_all add: documentResize_def resize_frame_def Let_def)

lemma toggle_layout: "layout_ok (fst (toggle_lefttab fs))"
  unfolding toggle_lefttab_def Let_def by (rule documentResize_layout)

text \<open>After every operation on the frame the tabs, the splitter and the graphs fill the window
  side by side: hiding the tabs and showing them again restores their width.\<close>

theorem toggle_lefttab_restores:
  assumes "\<not> fr_closed f"
  shows "fr_leftWidth (fst (toggle_lefttab (toggle_lefttab (f, s)))) = fr_leftWidth f \<and>
    \<not> fr_closed (fst (toggle_lefttab (toggle_lefttab (f, s)))) \<and>
    layout_ok (fst (toggle_lefttab (f, s))) \<and> layout_ok (fst (toggle_lefttab (toggle_lefttab (f, s))))"
proof (intro conjI toggle_layout)
  show "fr_leftWidth (fst (toggle_lefttab (toggle_lefttab (f, s)))) = fr_leftWidth f"
    "\<not> fr_closed (fst (toggle_lefttab (toggle_lefttab (f, s))))"
    using assms by (simp_all add: toggle_lefttab_def Let_def)
qed

definition demo_frame :: frame where
  "demo_frame = \<lparr>fr_window = (1200, 800), fr_leftWidth = 240, fr_leftMargin = 4, fr_splitWidth = 8, fr_closed = False,
     fr_oldWidth = None, fr_drags = 0, fr_cursor = False, fr_gridLeft = 0, fr_gridWidth = 0, fr_height = 0,
     fr_tabTops = [120, 120], fr_tabHeights = []\<rparr>"

theorem toggle_lefttab_restores_witness:
  "\<forall>s :: app. fr_leftWidth (fst (toggle_lefttab (toggle_lefttab (demo_frame, s)))) = 240"
proof
  fix s :: app
  have "\<not> fr_closed demo_frame" "fr_leftWidth demo_frame = 240" by (simp_all add: demo_frame_def)
  then show "fr_leftWidth (fst (toggle_lefttab (toggle_lefttab (demo_frame, s)))) = 240"
    using toggle_lefttab_restores [of demo_frame s] by simp
qed

definition tabs_ok :: "tab list \<times> tab_label list \<Rightarrow> bool" where
  "tabs_ok col \<longleftrightarrow>
     (case col of (ts, ls) \<Rightarrow>
        length ls = length ts \<and>
        (\<forall>k < length ts. lb_active (ls ! k) = tb_active (ts ! k) \<and> lb_text (ls ! k) = tab_text (tb_id (ts ! k))))"

lemma TabCollection_ok: "tabs_ok (TabCollection ts)"
  by (simp add: tabs_ok_def TabCollection_def rebuildTabs_def)

text \<open>After a click on a label exactly that tab is shown, and the labels agree with the tabs.\<close>

theorem tab_click_activates:
  assumes "tabs_ok (ts, ls)" "i < length ts"
  shows "tabs_ok (tab_click i (ts, ls)) \<and>
    filter (\<lambda>k. tb_active (fst (tab_click i (ts, ls)) ! k)) [0..<length ts] = [i]"
proof -
  have len: "length ls = length ts" using assms(1) by (simp add: tabs_ok_def)
  have "tabs_ok (tab_click i (ts, ls))" using assms by (simp add: tab_click_def tabs_ok_def)
  moreover have "filter (\<lambda>k. k = i) [0..<n] = (if i < n then [i] else [])" for n
    by (induction n) auto
  moreover have "filter (\<lambda>k. tb_active (fst (tab_click i (ts, ls)) ! k)) [0..<length ts] = filter (\<lambda>k. k = i) [0..<length ts]"
    using assms(2) len by (intro filter_cong) (auto simp: tab_click_def)
  ultimately show ?thesis using assms(2) by simp
qed

theorem tab_click_activates_witness:
  "fst (tab_click 1 (TabCollection [\<lparr>tb_id = ''counters'', tb_active = True\<rparr>, \<lparr>tb_id = ''dashboards'', tb_active = False\<rparr>])) =
     [\<lparr>tb_id = ''counters'', tb_active = False\<rparr>, \<lparr>tb_id = ''dashboards'', tb_active = True\<rparr>]"
proof -
  let ?ts = "[\<lparr>tb_id = ''counters'', tb_active = True\<rparr>, \<lparr>tb_id = ''dashboards'', tb_active = False\<rparr>]"
  have "tabs_ok (tab_click 1 (?ts, rebuildTabs ?ts))"
    using tab_click_activates [of ?ts "rebuildTabs ?ts" 1] TabCollection_ok [of ?ts] by (simp add: TabCollection_def)
  moreover have "fst (tab_click 1 (TabCollection ?ts)) =
     [\<lparr>tb_id = ''counters'', tb_active = False\<rparr>, \<lparr>tb_id = ''dashboards'', tb_active = True\<rparr>]" by code_simp
  ultimately show ?thesis by simp
qed

text \<open>The listener of the visibility event never refreshes: when the page becomes hidden the
  refresh returns at once, and when it becomes visible no refresh is asked for.\<close>

theorem visibility_never_refreshes: "snd (visibility_changed (was, s)) = s"
  by (simp add: visibility_changed_def refresh_def guarded_def guard_def)

end
