(* ===== verification/Jstree.thy ===== *)
theory Jstree
  imports Js_Action
begin

text \<open>
  The tree widget of src/files/jstree.js as the program uses it: the table of nodes, loading,
  drawing, opening and closing, selecting, saving and restoring the state, and the plugin that
  sorts. A node is identified by its id. Of the document the elements of the nodes are modelled,
  with their nesting, because drawing looks nodes up in it; classes, attributes, icons, focus and
  scrolling are not. An animation that closes a node ends later: until then its list of children
  stays in the document. The settings hold the function that gives a node's rows, which
  answers at once, and what the program does when a node is selected; other events have no
  listeners outside the widget. Rows have no property \<open>parent\<close>, so the format for flat lists of
  rows does not occur.
\<close>

section \<open>State\<close>

record node_state =
  st_loaded :: bool
  st_opened :: bool
  st_selected :: bool
  st_disabled :: bool
  st_loading :: bool

record tnode =
  nd_id :: string
  nd_text :: string
  nd_parent :: "string option"
  nd_parents :: "string list"
  nd_children :: "string list"
  nd_children_d :: "string list"
  nd_state :: node_state
  nd_li_attr :: "string option jsobj"
  nd_a_attr :: "string option jsobj"

datatype li = Li (li_id: string) (li_ul: "li list")

text \<open>What \<open>set_state\<close> still has to restore.\<close>

record restore =
  rs_core :: bool
  rs_open :: "string list option"
  rs_selected :: "string list option"

record jst =
  jt_id :: nat
  jt_cnt :: nat
  jt_data :: "tnode jsobj"
  jt_changed :: "string list"
  jt_full :: bool
  jt_sel :: "string list"
  jt_clicked :: "string option"
  jt_loaded :: bool
  jt_ready :: bool
  jt_restore :: restore
  jt_dom :: "li list"
  jt_sliding :: "string list"
  jt_timers :: "string list"

text \<open>A row: the fields of the object, and its children, \<open>None\<close> for the value true.\<close>

record jfields =
  jd_id :: "string option"
  jd_text :: "string option"
  jd_state :: "(string \<times> bool) list"
  jd_li_attr :: "string option jsobj"
  jd_a_attr :: "string option jsobj"

datatype jdata = JString string | JObject jfields "jdata list option"

record 'w jst_env =
  je_data :: "string \<Rightarrow> 'w \<Rightarrow> jdata list option outcome"
  je_select :: "string \<Rightarrow> (unit, 'w) act"
  je_multiple :: bool
  je_animation :: bool

section \<open>Nodes\<close>

definition no_state :: node_state where
  "no_state = \<lparr>st_loaded = False, st_opened = False, st_selected = False, st_disabled = False, st_loading = False\<rparr>"

definition default_state :: node_state where
  "default_state = \<lparr>st_loaded = True, st_opened = False, st_selected = False, st_disabled = False, st_loading = False\<rparr>"

definition root_node :: tnode where
  "root_node =
     \<lparr>nd_id = ''#'', nd_text = [], nd_parent = None, nd_parents = [], nd_children = [], nd_children_d = [],
      nd_state = no_state, nd_li_attr = [], nd_a_attr = []\<rparr>"

abbreviation node_at :: "'z jst_scheme \<Rightarrow> string \<Rightarrow> tnode option" where
  "node_at t i \<equiv> oget (jt_data t) i"

definition with_node :: "string \<Rightarrow> (tnode \<Rightarrow> bool) \<Rightarrow> 'z jst_scheme \<Rightarrow> bool" where
  "with_node i P t \<longleftrightarrow> (case node_at t i of None \<Rightarrow> False | Some n \<Rightarrow> P n)"

definition get_parent :: "'z jst_scheme \<Rightarrow> string \<Rightarrow> string option" where
  "get_parent t i = (if i = ''#'' then None else case node_at t i of None \<Rightarrow> None | Some n \<Rightarrow> nd_parent n)"

definition is_parent :: "'z jst_scheme \<Rightarrow> string \<Rightarrow> bool" where
  "is_parent t i = with_node i (\<lambda>n. \<not> st_loaded (nd_state n) \<or> nd_children n \<noteq> []) t"

definition is_loaded :: "'z jst_scheme \<Rightarrow> string \<Rightarrow> bool" where
  "is_loaded t i = with_node i (\<lambda>n. st_loaded (nd_state n)) t"

definition is_loading :: "'z jst_scheme \<Rightarrow> string \<Rightarrow> bool" where
  "is_loading t i = with_node i (\<lambda>n. st_loading (nd_state n)) t"

definition is_open :: "'z jst_scheme \<Rightarrow> string \<Rightarrow> bool" where
  "is_open t i = with_node i (\<lambda>n. st_opened (nd_state n)) t"

definition is_closed :: "'z jst_scheme \<Rightarrow> string \<Rightarrow> bool" where
  "is_closed t i = with_node i (\<lambda>n. is_parent t i \<and> \<not> st_opened (nd_state n)) t"

definition is_leaf :: "'z jst_scheme \<Rightarrow> string \<Rightarrow> bool" where
  "is_leaf t i = (\<not> is_parent t i)"

definition is_disabled :: "'z jst_scheme \<Rightarrow> string \<Rightarrow> bool" where
  "is_disabled t i = with_node i (\<lambda>n. st_disabled (nd_state n)) t"

definition is_selected :: "'z jst_scheme \<Rightarrow> string \<Rightarrow> bool" where
  "is_selected t i = (i \<noteq> ''#'' \<and> with_node i (\<lambda>n. st_selected (nd_state n)) t)"

definition get_text :: "'z jst_scheme \<Rightarrow> string \<Rightarrow> string option" where
  "get_text t i = (if i = ''#'' then None else map_option nd_text (node_at t i))"

text \<open>The path to a node, as ids or as texts; \<open>None\<close> is the value false.\<close>

definition get_path :: "'z jst_scheme \<Rightarrow> string \<Rightarrow> bool \<Rightarrow> string option list option" where
  "get_path t i ids =
     (case node_at t i of
        None \<Rightarrow> None
      | Some n \<Rightarrow>
          if i = ''#'' then None
          else Some (drop 1 (rev ((if ids then Some (nd_id n) else Some (nd_text n)) #
                 map (\<lambda>q. if ids then Some q else get_text t q) (nd_parents n)))))"

text \<open>Writing to a node that is not in the table throws.\<close>

definition put_data :: "tnode jsobj \<Rightarrow> 'z jst_scheme \<Rightarrow> 'z jst_scheme" where
  "put_data d t = t\<lparr>jt_data := d\<rparr>"

definition atM :: "string \<Rightarrow> (tnode \<Rightarrow> tnode) \<Rightarrow> (unit, 'z jst_scheme) act" where
  "atM i f t =
     (case node_at t i of
        None \<Rightarrow> throwM (TypeError ''property of undefined'') t
      | Some n \<Rightarrow> retM () (put_data (oset i (f n) (jt_data t)) t))"

abbreviation set_flag :: "(node_state \<Rightarrow> node_state) \<Rightarrow> tnode \<Rightarrow> tnode" where
  "set_flag f n \<equiv> n\<lparr>nd_state := f (nd_state n)\<rparr>"

section \<open>Rows become nodes\<close>

definition node_name :: "nat \<Rightarrow> nat \<Rightarrow> string" where
  "node_name inst n = ''j'' @ nat_str inst @ ''_'' @ nat_str n"

lemma node_name_inject [simp]: "node_name a m = node_name a n \<longleftrightarrow> m = n"
  by (simp add: node_name_def)

lemma finite_taken: "finite {n :: nat. oget d (node_name a n) \<noteq> None}"
proof (rule finite_imageD)
  have "node_name a ` {n. oget d (node_name a n) \<noteq> None} \<subseteq> set (map fst d)"
    by (auto simp: oget_def map_of_eq_None_iff)
  then show "finite (node_name a ` {n. oget d (node_name a n) \<noteq> None})" by (rule finite_subset) simp
qed (simp add: inj_on_def)

text \<open>The counter is advanced until it gives a name that is free.\<close>

function free_cnt :: "tnode jsobj \<Rightarrow> nat \<Rightarrow> nat \<Rightarrow> nat" where
  "free_cnt d a c = (if oget d (node_name a (Suc c)) = None then Suc c else free_cnt d a (Suc c))"
  by pat_completeness auto
termination
proof (relation "measure (\<lambda>(d, a, c). card {n. c < n \<and> oget d (node_name a n) \<noteq> None})")
  fix d :: "tnode jsobj" and a c
  assume n: "oget d (node_name a (Suc c)) \<noteq> None"
  have f: "finite {n. c < n \<and> oget d (node_name a n) \<noteq> None}"
    using finite_taken [of d a] by (rule rev_finite_subset) auto
  have "{n. Suc c < n \<and> oget d (node_name a n) \<noteq> None} \<subset> {n. c < n \<and> oget d (node_name a n) \<noteq> None}"
    using n by (auto simp: psubset_eq)
  from psubset_card_mono [OF f this]
  show "((d, a, Suc c), (d, a, c)) \<in> measure (\<lambda>(d, a, c). card {n. c < n \<and> oget d (node_name a n) \<noteq> None})" by simp
qed simp

declare free_cnt.simps [simp del]

definition truthy_str :: "string option \<Rightarrow> bool" where
  "truthy_str s \<longleftrightarrow> s \<noteq> None \<and> s \<noteq> Some []"

definition row_id :: "jfields \<Rightarrow> string \<Rightarrow> string" where
  "row_id f tid =
     (if truthy_str (jd_id f) then the (jd_id f)
      else case oget (jd_li_attr f) ''id'' of
             Some (Some v) \<Rightarrow> if v = [] then tid else v
           | _ \<Rightarrow> tid)"

definition set_state_key :: "string \<times> bool \<Rightarrow> node_state \<Rightarrow> node_state" where
  "set_state_key p s =
     (if fst p = ''loaded'' then s\<lparr>st_loaded := snd p\<rparr>
      else if fst p = ''opened'' then s\<lparr>st_opened := snd p\<rparr>
      else if fst p = ''selected'' then s\<lparr>st_selected := snd p\<rparr>
      else if fst p = ''disabled'' then s\<lparr>st_disabled := snd p\<rparr>
      else if fst p = ''loading'' then s\<lparr>st_loading := snd p\<rparr>
      else s)"

definition assign_attrs :: "'v jsobj \<Rightarrow> 'v jsobj \<Rightarrow> 'v jsobj" where
  "assign_attrs src dst = fold (\<lambda>(k, v). oset k v) src dst"

definition row_li_attr :: "jfields \<Rightarrow> string \<Rightarrow> string option jsobj" where
  "row_li_attr f i =
     (let a = assign_attrs (jd_li_attr f) [(''id'', None)]
      in case oget a ''id'' of
           Some v \<Rightarrow> if truthy_str v then a else oset ''id'' (Some i) a
         | None \<Rightarrow> oset ''id'' (Some i) a)"

text \<open>The node for a row: its children are in the table already; a row whose children are true is not loaded.\<close>

definition put_node ::
  "jfields \<Rightarrow> string \<Rightarrow> string list \<Rightarrow> string list \<Rightarrow> string list \<Rightarrow> bool \<Rightarrow> 'z jst_scheme \<Rightarrow> 'z jst_scheme" where
  "put_node f i ps ch cd lazy t =
     (let st = fold set_state_key (jd_state f) default_state;
          st' = (if lazy then st\<lparr>st_loaded := False\<rparr> else st);
          n = \<lparr>nd_id = i, nd_text = (case jd_text f of None \<Rightarrow> [] | Some s \<Rightarrow> s), nd_parent = Some (hd ps), nd_parents = ps,
               nd_children = ch, nd_children_d = cd, nd_state = st', nd_li_attr = row_li_attr f i,
               nd_a_attr = assign_attrs (jd_a_attr f) [(''href'', Some ''#'')]\<rparr>
      in t\<lparr>jt_data := oset i n (jt_data t), jt_sel := jt_sel t @ (if st_selected st' then [i] else [])\<rparr>)"

definition alloc :: "'z jst_scheme \<Rightarrow> string \<times> 'z jst_scheme" where
  "alloc t = (let c = free_cnt (jt_data t) (jt_id t) (jt_cnt t) in (node_name (jt_id t) c, t\<lparr>jt_cnt := c\<rparr>))"

definition descendants_of :: "'z jst_scheme \<Rightarrow> string \<Rightarrow> string list" where
  "descendants_of t i = (case node_at t i of None \<Rightarrow> [] | Some n \<Rightarrow> nd_children_d n)"

definition text_fields :: "string \<Rightarrow> jfields" where
  "text_fields s = \<lparr>jd_id = None, jd_text = Some s, jd_state = [], jd_li_attr = [], jd_a_attr = []\<rparr>"

fun parse_model_from_json :: "jdata \<Rightarrow> string \<Rightarrow> string list \<Rightarrow> 'z jst_scheme \<Rightarrow> string \<times> 'z jst_scheme"
  and parse_list :: "jdata list \<Rightarrow> string \<Rightarrow> string list \<Rightarrow> 'z jst_scheme \<Rightarrow> string list \<times> string list \<times> 'z jst_scheme" where
  "parse_model_from_json (JString s) p ps t =
     (case alloc t of (tid, t1) \<Rightarrow> (tid, put_node (text_fields s) tid (p # ps) [] [] False t1))"
| "parse_model_from_json (JObject f None) p ps t =
     (case alloc t of (tid, t1) \<Rightarrow> (row_id f tid, put_node f (row_id f tid) (p # ps) [] [] True t1))"
| "parse_model_from_json (JObject f (Some ds)) p ps t =
     (case alloc t of (tid, t1) \<Rightarrow>
        (case parse_list ds (row_id f tid) (p # ps) t1 of (ch, cd, t2) \<Rightarrow>
           (row_id f tid, put_node f (row_id f tid) (p # ps) ch (cd @ ch) False t2)))"
| "parse_list [] p ps t = ([], [], t)"
| "parse_list (d # ds) p ps t =
     (case parse_model_from_json d p ps t of (c, t1) \<Rightarrow>
        (case parse_list ds p ps t1 of (ch, cd, t2) \<Rightarrow> (c # ch, descendants_of t1 c @ cd, t2)))"

text \<open>The rows that are appended to a node: their ids, and with each id the ids below it.\<close>

fun parse_rows :: "jdata list \<Rightarrow> string \<Rightarrow> string list \<Rightarrow> 'z jst_scheme \<Rightarrow> string list \<times> string list \<times> 'z jst_scheme" where
  "parse_rows [] p ps t = ([], [], t)"
| "parse_rows (d # ds) p ps t =
     (case parse_model_from_json d p ps t of (c, t1) \<Rightarrow>
        (case parse_rows ds p ps t1 of (ch, dpc, t2) \<Rightarrow> (c # ch, c # descendants_of t1 c @ dpc, t2)))"

section \<open>Sorting\<close>

text \<open>\<open>Array.prototype.sort\<close> as insertion from the right; the comparison says when two elements are out of order.\<close>

definition sort_put :: "('a \<Rightarrow> 'a \<Rightarrow> bool) \<Rightarrow> 'a \<Rightarrow> 'a list \<Rightarrow> 'a list" where
  "sort_put gt x xs = rev (dropWhile (\<lambda>y. gt y x) (rev xs)) @ x # rev (takeWhile (\<lambda>y. gt y x) (rev xs))"

definition array_sort :: "('a \<Rightarrow> 'a \<Rightarrow> bool) \<Rightarrow> 'a list \<Rightarrow> 'a list" where
  "array_sort gt xs = foldl (\<lambda>acc x. sort_put gt x acc) [] xs"

definition text_gt :: "'z jst_scheme \<Rightarrow> string \<Rightarrow> string \<Rightarrow> bool" where
  "text_gt t a b = (case (get_text t a, get_text t b) of (Some x, Some y) \<Rightarrow> x > y | _ \<Rightarrow> False)"

definition sort_children :: "string \<Rightarrow> 'z jst_scheme \<Rightarrow> 'z jst_scheme" where
  "sort_children i t =
     (case node_at t i of
        None \<Rightarrow> t
      | Some n \<Rightarrow> put_data (oset i (n\<lparr>nd_children := array_sort (text_gt t) (nd_children n)\<rparr>) (jt_data t)) t)"

definition sort_node :: "string \<Rightarrow> bool \<Rightarrow> 'z jst_scheme \<Rightarrow> 'z jst_scheme" where
  "sort_node i deep t =
     (case node_at t i of
        None \<Rightarrow> t
      | Some n \<Rightarrow>
          if nd_children n = [] then t
          else (let t1 = sort_children i t in if deep then fold sort_children (nd_children_d n) t1 else t1))"

section \<open>The document\<close>

fun find_li :: "string \<Rightarrow> li list \<Rightarrow> li option" where
  "find_li i [] = None"
| "find_li i (Li j us # ls) =
     (if i = j then Some (Li j us) else case find_li i us of Some l \<Rightarrow> Some l | None \<Rightarrow> find_li i ls)"

fun li_ids :: "li list \<Rightarrow> string list" where
  "li_ids [] = []"
| "li_ids (Li j us # ls) = j # li_ids us @ li_ids ls"

fun remove_li :: "string \<Rightarrow> li list \<Rightarrow> li list" where
  "remove_li i [] = []"
| "remove_li i (Li j us # ls) = (if i = j then remove_li i ls else Li j (remove_li i us) # remove_li i ls)"

fun change_ul :: "string \<Rightarrow> (li list \<Rightarrow> li list) \<Rightarrow> li list \<Rightarrow> li list" where
  "change_ul i f [] = []"
| "change_ul i f (Li j us # ls) = Li j (if i = j then f us else change_ul i f us) # change_ul i f ls"

text \<open>The element around an element, \<open>None\<close> for the container, and the place in its list.\<close>

fun place_li :: "string \<Rightarrow> string option \<Rightarrow> nat \<Rightarrow> li list \<Rightarrow> (string option \<times> nat) option" where
  "place_li i par k [] = None"
| "place_li i par k (Li j us # ls) =
     (if i = j then Some (par, k)
      else case place_li i (Some j) 0 us of Some p \<Rightarrow> Some p | None \<Rightarrow> place_li i par (Suc k) ls)"

definition insert_li :: "string option \<Rightarrow> nat \<Rightarrow> li \<Rightarrow> li list \<Rightarrow> li list" where
  "insert_li par k l ls =
     (case par of
        None \<Rightarrow> take k ls @ l # drop k ls
      | Some p \<Rightarrow> change_ul p (\<lambda>us. take k us @ l # drop k us) ls)"

text \<open>Elements that leave the document take their animations with them.\<close>

definition forget :: "string list \<Rightarrow> 'z jst_scheme \<Rightarrow> 'z jst_scheme" where
  "forget is t = t\<lparr>jt_sliding := filter (\<lambda>i. i \<notin> set is) (jt_sliding t)\<rparr>"

definition take_li_out :: "string \<Rightarrow> 'z jst_scheme \<Rightarrow> 'z jst_scheme" where
  "take_li_out i t =
     (case find_li i (jt_dom t) of
        None \<Rightarrow> t
      | Some l \<Rightarrow> forget (li_ids [l]) (t\<lparr>jt_dom := remove_li i (jt_dom t)\<rparr>))"

definition drop_ul :: "string \<Rightarrow> 'z jst_scheme \<Rightarrow> 'z jst_scheme" where
  "drop_ul i t =
     (case find_li i (jt_dom t) of
        None \<Rightarrow> t
      | Some l \<Rightarrow> forget (li_ids [l]) (t\<lparr>jt_dom := change_ul i (\<lambda>_. []) (jt_dom t)\<rparr>))"

text \<open>The end of the animation that closes a node.\<close>

definition slide_end :: "string \<Rightarrow> 'z jst_scheme \<Rightarrow> 'z jst_scheme" where
  "slide_end i t = (if i \<in> set (jt_sliding t) then drop_ul i t else t)"

section \<open>Drawing\<close>

definition mapM_li :: "(string \<Rightarrow> (li option, 'w) act) \<Rightarrow> string list \<Rightarrow> (li option list, 'w) act" where
  "mapM_li f is = foldr (\<lambda>i k. bindM (f i) (\<lambda>l. bindM k (\<lambda>ls. retM (l # ls)))) is (retM [])"

text \<open>A node without an element is not drawn when its parent has no element or is closed.\<close>

definition li_hidden :: "'z jst_scheme \<Rightarrow> tnode \<Rightarrow> bool" where
  "li_hidden t obj \<longleftrightarrow>
     nd_parent obj \<noteq> Some ''#'' \<and>
     (case nd_parent obj of None \<Rightarrow> True | Some p \<Rightarrow> find_li p (jt_dom t) = None \<or> \<not> is_open t p)"

text \<open>Where the element goes: back to its place, or to the node's place among its parent's children.\<close>

definition li_place :: "'z jst_scheme \<Rightarrow> string \<Rightarrow> tnode \<Rightarrow> string option \<times> nat" where
  "li_place t i obj =
     (case place_li i None 0 (jt_dom t) of
        Some p \<Rightarrow> p
      | None \<Rightarrow>
          (if nd_parent obj = Some ''#'' then None else nd_parent obj,
           case nd_parent obj of
             None \<Rightarrow> 0
           | Some p \<Rightarrow> (case node_at t p of None \<Rightarrow> 0 | Some pn \<Rightarrow> length (takeWhile (\<lambda>x. x \<noteq> i) (nd_children pn)))))"

text \<open>The last steps: a node that is marked open and not loaded is closed, to be opened by a timer.\<close>

definition finish_li :: "bool \<Rightarrow> string option \<times> nat \<Rightarrow> tnode \<Rightarrow> string \<Rightarrow> li \<Rightarrow> (li option, 'z jst_scheme) act" where
  "finish_li is_callback at obj i l =
     bindM (whenM (\<not> is_callback) (modifyM (\<lambda>t. t\<lparr>jt_dom := insert_li (fst at) (snd at) l (jt_dom t)\<rparr>))) (\<lambda>_.
     bindM (whenM (st_opened (nd_state obj) \<and> \<not> st_loaded (nd_state obj))
              (bindM (atM i (set_flag (\<lambda>s. s\<lparr>st_opened := False\<rparr>))) (\<lambda>_. modifyM (\<lambda>t. t\<lparr>jt_timers := jt_timers t @ [i]\<rparr>)))) (\<lambda>_.
     retM (Some l)))"

text \<open>
  The element of a node is taken out, made anew, with the elements of its children when it is
  open, and put back. In a call for a child the caller puts it back. The first argument bounds the
  depth of the calls; no tree is deeper than its table is long.
\<close>

fun redraw_li :: "nat \<Rightarrow> bool \<Rightarrow> bool \<Rightarrow> string \<Rightarrow> (li option, 'z jst_scheme) act" where
  "redraw_li 0 deep is_callback i t = throwM (ErrorMsg ''Maximum call stack size exceeded'') t"
| "redraw_li (Suc d) deep is_callback i t =
     (case node_at t i of
        None \<Rightarrow> retM None t
      | Some obj \<Rightarrow>
          let old = find_li i (jt_dom t);
              kept = (case old of None \<Rightarrow> [] | Some l \<Rightarrow> li_ul l);
              deep' = (deep \<or> nd_children obj = [] \<or> kept = [])
          in if old = None \<and> \<not> is_callback \<and> li_hidden t obj then retM None t
             else bindM (if deep' \<and> nd_children obj \<noteq> [] \<and> st_opened (nd_state obj) \<and> st_loaded (nd_state obj)
                         then mapM_li (redraw_li d deep' True) (nd_children obj) else retM [])
               (\<lambda>ls. if None \<in> set ls then throwM (TypeError ''appendChild'')
                     else finish_li is_callback (li_place t i obj) obj i (Li i (map the ls @ (if deep' then [] else kept))))
               (take_li_out i t))"

definition table_size :: "'z jst_scheme \<Rightarrow> nat" where
  "table_size t = Suc (length (jt_data t))"

definition redraw_full :: "(unit, 'z jst_scheme) act" where
  "redraw_full t =
     bindM (mapM_li (redraw_li (table_size t) True True) (case node_at t ''#'' of None \<Rightarrow> [] | Some n \<Rightarrow> nd_children n))
       (\<lambda>ls. modifyM (\<lambda>t. t\<lparr>jt_dom := map the (filter (\<lambda>l. l \<noteq> None) ls), jt_sliding := [], jt_full := False, jt_changed := []\<rparr>)) t"

definition redraw_node :: "string \<Rightarrow> bool \<Rightarrow> (unit, 'z jst_scheme) act" where
  "redraw_node i deep t =
     (if i = ''#'' \<and> node_at t i \<noteq> None then redraw_full (t\<lparr>jt_full := True\<rparr>)
      else bindM (redraw_li (table_size t) deep False i) (\<lambda>_. retM ()) t)"

definition redraw_changed :: "(unit, 'z jst_scheme) act" where
  "redraw_changed t =
     bindM (eachM (\<lambda>i. redraw_node i True) (jt_changed t)) (\<lambda>_. modifyM (\<lambda>t. t\<lparr>jt_full := False, jt_changed := []\<rparr>)) t"

definition redraw :: "bool \<Rightarrow> (unit, 'z jst_scheme) act" where
  "redraw full t = (if full \<or> jt_full t then redraw_full (t\<lparr>jt_full := True\<rparr>) else redraw_changed t)"

definition node_changed :: "string \<Rightarrow> 'z jst_scheme \<Rightarrow> 'z jst_scheme" where
  "node_changed i t = (if node_at t i = None then t else t\<lparr>jt_changed := jt_changed t @ [i]\<rparr>)"

end
