(* ===== verification/Jstree_Ops.thy ===== *)
theory Jstree_Ops
  imports Jstree
begin

text \<open>
  The operations of the tree widget of src/files/jstree.js: loading a node's rows, opening and
  closing, selecting, the reactions to clicks and keys, and saving, restoring and refreshing. A
  callback gets the id of the node and whether the operation succeeded.
\<close>

section \<open>Loading\<close>

type_synonym 'w node_callback = "string \<Rightarrow> bool \<Rightarrow> (unit, 'w) act"

abbreviation no_callback :: "'w node_callback" where
  "no_callback \<equiv> \<lambda>_ _. retM ()"

definition append_json_data :: "string \<Rightarrow> jdata list \<Rightarrow> (unit, 'z jst_scheme) act" where
  "append_json_data i dat =
     bindM (atM i (\<lambda>n. n\<lparr>nd_children := [], nd_children_d := []\<rparr>)) (\<lambda>_ t.
       let ps = (case node_at t i of None \<Rightarrow> [] | Some p \<Rightarrow> nd_parents p)
       in case parse_rows dat i ps t of (chd, dpc, t1) \<Rightarrow>
            bindM (atM i (\<lambda>n. n\<lparr>nd_children := chd, nd_children_d := dpc\<rparr>)) (\<lambda>_.
            bindM (eachM (\<lambda>q. atM q (\<lambda>n. n\<lparr>nd_children_d := nd_children_d n @ dpc\<rparr>)) ps) (\<lambda>_.
            bindM (modifyM (sort_node i True)) (\<lambda>_.
            if i \<noteq> ''#'' then bindM (modifyM (node_changed i)) (\<lambda>_. redraw False) else redraw True))) t1)"

text \<open>A node that is loaded again first loses what is below it.\<close>

definition unload_one :: "string list \<Rightarrow> string \<Rightarrow> (unit, 'z jst_scheme) act" where
  "unload_one ps k =
     bindM (eachM (\<lambda>q. atM q (\<lambda>n. n\<lparr>nd_children_d := remove1 k (nd_children_d n)\<rparr>)) ps) (\<lambda>_ t.
       case node_at t k of
         None \<Rightarrow> throwM (TypeError ''state of undefined'') t
       | Some n \<Rightarrow>
           retM () (t\<lparr>jt_sel := (if st_selected (nd_state n) then remove1 k (jt_sel t) else jt_sel t),
                     jt_data := odel k (jt_data t)\<rparr>))"

definition unload :: "string \<Rightarrow> tnode \<Rightarrow> (unit, 'z jst_scheme) act" where
  "unload i n =
     bindM (atM i (set_flag (\<lambda>s. s\<lparr>st_loaded := False\<rparr>))) (\<lambda>_.
     bindM (eachM (unload_one (nd_parents n)) (nd_children_d n)) (\<lambda>_.
     atM i (\<lambda>n. n\<lparr>nd_children := [], nd_children_d := []\<rparr>)))"

text \<open>The end of a load: the flags, the event, which the widget itself listens to, and the callback.\<close>

definition load_done :: "'z jst_scheme node_callback \<Rightarrow> 'z jst_scheme node_callback \<Rightarrow> 'z jst_scheme node_callback" where
  "load_done on_load callback i status =
     bindM (atM i (set_flag (\<lambda>s. s\<lparr>st_loading := False, st_loaded := status\<rparr>))) (\<lambda>_.
     bindM (on_load i status) (\<lambda>_. callback i status))"

definition load_node_with ::
  "'z jst_scheme node_callback \<Rightarrow> 'z jst_scheme jst_env \<Rightarrow> 'z jst_scheme node_callback \<Rightarrow> string \<Rightarrow> (unit, 'z jst_scheme) act" where
  "load_node_with on_load E callback i t =
     (case node_at t i of
        None \<Rightarrow> callback i False t
      | Some n \<Rightarrow>
          bindM (whenM (st_loaded (nd_state n)) (unload i n)) (\<lambda>_.
          bindM (atM i (set_flag (\<lambda>s. s\<lparr>st_loading := True\<rparr>))) (\<lambda>_ t1.
            case je_data E i t1 of
              Throw e \<Rightarrow> throwM e t1
            | Ok None \<Rightarrow> load_done on_load callback i False t1
            | Ok (Some dat) \<Rightarrow> bindM (append_json_data i dat) (\<lambda>_. load_done on_load callback i True) t1)) t)"

section \<open>Opening and closing\<close>

text \<open>Opening a loaded node that is closed: its element gets its children if it has none yet.\<close>

definition open_loaded :: "bool \<Rightarrow> 'z jst_scheme node_callback \<Rightarrow> string \<Rightarrow> (unit, 'z jst_scheme) act" where
  "open_loaded animation callback i =
     bindM (\<lambda>t. case find_li i (jt_dom t) of
              None \<Rightarrow> retM () t
            | Some l \<Rightarrow>
                bindM (whenM (with_node i (\<lambda>n. nd_children n \<noteq> []) t \<and> li_ul l = [])
                         (bindM (atM i (set_flag (\<lambda>s. s\<lparr>st_opened := True\<rparr>))) (\<lambda>_. redraw_node i True)))
                  (\<lambda>_. whenM animation (modifyM (slide_end i))) t)
       (\<lambda>_. bindM (atM i (set_flag (\<lambda>s. s\<lparr>st_opened := True\<rparr>))) (\<lambda>_. callback i True))"

definition open_again :: "bool \<Rightarrow> 'z jst_scheme node_callback \<Rightarrow> string \<Rightarrow> (unit, 'z jst_scheme) act" where
  "open_again animation callback i t =
     (if node_at t i = None \<or> i = ''#'' then retM () t
      else if \<not> is_closed t i then callback i False t
      else open_loaded animation callback i t)"

definition open_node_with ::
  "'z jst_scheme node_callback \<Rightarrow> 'z jst_scheme jst_env \<Rightarrow> bool \<Rightarrow> 'z jst_scheme node_callback \<Rightarrow> string \<Rightarrow> (unit, 'z jst_scheme) act" where
  "open_node_with on_load E animation callback i t =
     (if node_at t i = None \<or> i = ''#'' then retM () t
      else if \<not> is_closed t i then callback i False t
      else if \<not> is_loaded t i then
        (if is_loading t i then retM () (t\<lparr>jt_timers := jt_timers t @ [i]\<rparr>)
         else load_node_with on_load E (\<lambda>o' ok. if ok then open_again animation callback o' else callback o' False) i t)
      else open_loaded animation callback i t)"

text \<open>
  The widget's own reaction to a loaded node. When the first load ends the nodes around selected
  nodes are opened, and what they load does not come here again.
\<close>

definition first_load :: "string \<Rightarrow> bool \<Rightarrow> (unit, 'z jst_scheme) act" where
  "first_load i status = whenM (status \<and> i = ''#'') (modifyM (\<lambda>t. t\<lparr>jt_loaded := True\<rparr>))"

fun parents_of :: "string list \<Rightarrow> 'z jst_scheme \<Rightarrow> string list outcome" where
  "parents_of [] t = Ok []"
| "parents_of (i # is) t =
     (case node_at t i of
        None \<Rightarrow> Throw (TypeError ''parents of undefined'')
      | Some n \<Rightarrow> bind_outcome (parents_of is t) (\<lambda>ps. Ok (nd_parents n @ ps)))"

definition array_unique :: "'a list \<Rightarrow> 'a list" where
  "array_unique xs = rev (remdups (rev xs))"

definition on_load_node :: "'z jst_scheme jst_env \<Rightarrow> 'z jst_scheme node_callback" where
  "on_load_node E i status =
     bindM (first_load i status) (\<lambda>_ t.
       whenM (status \<and> \<not> jt_ready t)
         (bindM (modifyM (\<lambda>t. t\<lparr>jt_ready := True\<rparr>)) (\<lambda>_ t.
            case parents_of (jt_sel t) t of
              Throw e \<Rightarrow> throwM e t
            | Ok ps \<Rightarrow> eachM (open_node_with first_load E False no_callback) (array_unique ps) t)) t)"

definition load_node :: "'z jst_scheme jst_env \<Rightarrow> 'z jst_scheme node_callback \<Rightarrow> string \<Rightarrow> (unit, 'z jst_scheme) act" where
  "load_node E = load_node_with (on_load_node E) E"

definition open_node :: "'z jst_scheme jst_env \<Rightarrow> bool \<Rightarrow> 'z jst_scheme node_callback \<Rightarrow> string \<Rightarrow> (unit, 'z jst_scheme) act" where
  "open_node E = open_node_with (on_load_node E) E"

definition open_to :: "'z jst_scheme jst_env \<Rightarrow> string \<Rightarrow> (unit, 'z jst_scheme) act" where
  "open_to E i t =
     (case node_at t i of
        None \<Rightarrow> retM () t
      | Some n \<Rightarrow> if i = ''#'' then retM () t else eachM (open_node E False no_callback) (nd_parents n) t)"

definition close_node :: "bool \<Rightarrow> string \<Rightarrow> (unit, 'z jst_scheme) act" where
  "close_node animation i t =
     (if node_at t i = None \<or> i = ''#'' \<or> is_closed t i then retM () t
      else bindM (modifyM (\<lambda>t.
             case find_li i (jt_dom t) of
               None \<Rightarrow> t
             | Some l \<Rightarrow>
                 if \<not> animation then drop_ul i t
                 else if li_ul l = [] then t
                 else if i \<in> set (jt_sliding t) then slide_end i t
                 else t\<lparr>jt_sliding := jt_sliding t @ [i]\<rparr>))
           (\<lambda>_. atM i (set_flag (\<lambda>s. s\<lparr>st_opened := False\<rparr>))) t)"

definition toggle_node :: "'z jst_scheme jst_env \<Rightarrow> string \<Rightarrow> (unit, 'z jst_scheme) act" where
  "toggle_node E i t =
     (if is_closed t i then open_node E (je_animation E) no_callback i t
      else if is_open t i then close_node (je_animation E) i t
      else retM () t)"

section \<open>Selecting\<close>

definition select_node :: "'z jst_scheme jst_env \<Rightarrow> bool \<Rightarrow> string \<Rightarrow> (unit, 'z jst_scheme) act" where
  "select_node E prevent_open i t =
     (if i \<noteq> ''#'' \<and> with_node i (\<lambda>n. \<not> st_selected (nd_state n)) t
      then bindM (atM i (set_flag (\<lambda>s. s\<lparr>st_selected := True\<rparr>))) (\<lambda>_.
           bindM (modifyM (\<lambda>t. t\<lparr>jt_sel := jt_sel t @ [i]\<rparr>)) (\<lambda>_.
           bindM (whenM (\<not> prevent_open) (open_to E i)) (\<lambda>_. je_select E i))) t
      else retM () t)"

definition deselect_node :: "string \<Rightarrow> (unit, 'z jst_scheme) act" where
  "deselect_node i t =
     (if is_selected t i
      then bindM (atM i (set_flag (\<lambda>s. s\<lparr>st_selected := False\<rparr>))) (\<lambda>_.
           modifyM (\<lambda>t. t\<lparr>jt_sel := remove1 i (jt_sel t)\<rparr>)) t
      else retM () t)"

definition mark_selected :: "bool \<Rightarrow> string \<Rightarrow> tnode jsobj \<Rightarrow> tnode jsobj" where
  "mark_selected b i d =
     (case oget d i of None \<Rightarrow> d | Some n \<Rightarrow> oset i (set_flag (\<lambda>s. s\<lparr>st_selected := b\<rparr>) n) d)"

definition select_all :: "(unit, 'z jst_scheme) act" where
  "select_all t =
     (let sel = descendants_of t ''#''
      in redraw True (t\<lparr>jt_sel := sel, jt_data := fold (mark_selected True) sel (jt_data t)\<rparr>))"

definition deselect_all :: "'z jst_scheme \<Rightarrow> 'z jst_scheme" where
  "deselect_all t = t\<lparr>jt_data := fold (mark_selected False) (jt_sel t) (jt_data t), jt_sel := []\<rparr>"

definition get_selected :: "'z jst_scheme \<Rightarrow> string list" where
  "get_selected t = jt_sel t"

definition enable_node :: "string \<Rightarrow> (unit, 'z jst_scheme) act" where
  "enable_node i t =
     (if node_at t i = None \<or> i = ''#'' then retM () t else atM i (set_flag (\<lambda>s. s\<lparr>st_disabled := False\<rparr>)) t)"

definition disable_node :: "string \<Rightarrow> (unit, 'z jst_scheme) act" where
  "disable_node i t =
     (if node_at t i = None \<or> i = ''#'' then retM () t else atM i (set_flag (\<lambda>s. s\<lparr>st_disabled := True\<rparr>)) t)"

record click_keys =
  k_meta :: bool
  k_ctrl :: bool
  k_shift :: bool

definition no_keys :: click_keys where
  "no_keys = \<lparr>k_meta = False, k_ctrl = False, k_shift = False\<rparr>"

text \<open>The last node clicked, if it is still there and selected, and else the last selected one.\<close>

definition refresh_clicked :: "'z jst_scheme \<Rightarrow> 'z jst_scheme" where
  "refresh_clicked t =
     (let c = (case jt_clicked t of None \<Rightarrow> None | Some i \<Rightarrow> if with_node i (\<lambda>n. st_selected (nd_state n)) t then Some i else None);
          c' = (if c = None \<and> jt_sel t \<noteq> [] then (if node_at t (last (jt_sel t)) = None then None else Some (last (jt_sel t))) else c)
      in t\<lparr>jt_clicked := c'\<rparr>)"

text \<open>A click with shift selects the siblings from the last node clicked to this one, and no others.\<close>

fun select_range :: "'z jst_scheme jst_env \<Rightarrow> string \<Rightarrow> string \<Rightarrow> bool \<Rightarrow> string list \<Rightarrow> (unit, 'z jst_scheme) act" where
  "select_range E o' l c [] = retM ()"
| "select_range E o' l c (p # ps) =
     (let c1 = (if p = o' then \<not> c else c); c2 = (if p = l then \<not> c1 else c1)
      in bindM (if c2 \<or> p = o' \<or> p = l then select_node E False p else deselect_node p) (\<lambda>_. select_range E o' l c2 ps))"

definition activate_node :: "'z jst_scheme jst_env \<Rightarrow> click_keys \<Rightarrow> string \<Rightarrow> (unit, 'z jst_scheme) act" where
  "activate_node E e i t0 =
     (if is_disabled t0 i then retM () t0
      else
        let t = refresh_clicked t0;
            keys = (k_meta e \<or> k_ctrl e \<or> k_shift e);
            last_parent = (case jt_clicked t of None \<Rightarrow> None | Some l \<Rightarrow> (case node_at t l of None \<Rightarrow> None | Some n \<Rightarrow> nd_parent n))
        in if \<not> je_multiple E \<or> \<not> keys \<or>
              (k_shift e \<and> (jt_clicked t = None \<or> get_parent t i = None \<or> get_parent t i \<noteq> last_parent))
           then (if \<not> je_multiple E \<and> keys \<and> is_selected t i then deselect_node i t
                 else bindM (select_node E False i)
                        (\<lambda>_. modifyM (\<lambda>t. t\<lparr>jt_clicked := (if node_at t i = None then None else Some i)\<rparr>)) (deselect_all t))
           else if k_shift e then
             (case (jt_clicked t, last_parent) of
                (Some l, Some p) \<Rightarrow>
                  (case node_at t p of
                     None \<Rightarrow> throwM (TypeError ''children of undefined'') t
                   | Some pn \<Rightarrow> select_range E i l False (nd_children pn) t)
              | _ \<Rightarrow> throwM (TypeError ''children of undefined'') t)
           else if \<not> is_selected t i then select_node E False i t
           else deselect_node i t)"

section \<open>Saving and restoring\<close>

definition get_state :: "'z jst_scheme \<Rightarrow> restore" where
  "get_state t =
     (let ks = filter (\<lambda>k. k \<noteq> ''#'') (okeys (jt_data t))
      in \<lparr>rs_core = True, rs_open = Some (filter (is_open t) ks),
          rs_selected = Some (filter (\<lambda>k. with_node k (\<lambda>n. st_selected (nd_state n)) t) ks)\<rparr>)"

definition drop_open :: "string \<Rightarrow> 'z jst_scheme \<Rightarrow> 'z jst_scheme" where
  "drop_open i t =
     (let r = jt_restore t
      in if rs_core r then t\<lparr>jt_restore := r\<lparr>rs_open := map_option (remove1 i) (rs_open r)\<rparr>\<rparr> else t)"

text \<open>Opening one of the nodes that were open: true when nothing has to be waited for.\<close>

definition restore_open :: "'z jst_scheme jst_env \<Rightarrow> 'z jst_scheme node_callback \<Rightarrow> string \<Rightarrow> (bool, 'z jst_scheme) act" where
  "restore_open E callback i t =
     (if node_at t i = None then retM True t
      else if is_loaded t i then
        bindM (whenM (is_closed t i) (open_node E False no_callback i)) (\<lambda>_.
        bindM (modifyM (drop_open i)) (\<lambda>_. retM True)) t
      else bindM (whenM (\<not> is_loading t i) (open_node E False callback i)) (\<lambda>_. retM False) t)"

fun restore_each :: "(string \<Rightarrow> (bool, 'w) act) \<Rightarrow> string list \<Rightarrow> (bool, 'w) act" where
  "restore_each f [] = retM True"
| "restore_each f (i # is) = bindM (f i) (\<lambda>a. bindM (restore_each f is) (\<lambda>b. retM (a \<and> b)))"

definition restore_selected :: "'z jst_scheme jst_env \<Rightarrow> (unit, 'z jst_scheme) act \<Rightarrow> (unit, 'z jst_scheme) act" where
  "restore_selected E callback t =
     bindM (case rs_selected (jt_restore t) of
              None \<Rightarrow> retM ()
            | Some sel \<Rightarrow>
                bindM (modifyM deselect_all) (\<lambda>_.
                bindM (eachM (select_node E False) sel) (\<lambda>_.
                modifyM (\<lambda>t. t\<lparr>jt_restore := (jt_restore t)\<lparr>rs_selected := None\<rparr>\<rparr>))))
       (\<lambda>_. bindM (modifyM (\<lambda>t. t\<lparr>jt_restore := (jt_restore t)\<lparr>rs_core := False\<rparr>\<rparr>)) (\<lambda>_. callback)) t"

text \<open>
  What is restored is the object in the state, which the calls that are nested in each other through
  the callback share. The first argument bounds their nesting: each has loaded one more node.
\<close>

fun set_state :: "nat \<Rightarrow> 'z jst_scheme jst_env \<Rightarrow> (unit, 'z jst_scheme) act \<Rightarrow> (unit, 'z jst_scheme) act" where
  "set_state 0 E callback t = throwM (ErrorMsg ''Maximum call stack size exceeded'') t"
| "set_state (Suc d) E callback t =
     (if rs_core (jt_restore t)
      then case rs_open (jt_restore t) of
             None \<Rightarrow> restore_selected E callback t
           | Some op \<Rightarrow>
               bindM (restore_each
                   (restore_open E (\<lambda>o' s. bindM (whenM (\<not> s) (modifyM (drop_open o'))) (\<lambda>_. set_state d E callback))) op)
                 (\<lambda>res. if res
                        then bindM (modifyM (\<lambda>t. t\<lparr>jt_restore := (jt_restore t)\<lparr>rs_open := None\<rparr>\<rparr>))
                               (\<lambda>_. restore_selected E callback)
                        else retM ()) t
      else callback t)"

definition no_restore :: restore where
  "no_restore = \<lparr>rs_core = False, rs_open = None, rs_selected = None\<rparr>"

definition refresh_tree :: "'z jst_scheme jst_env \<Rightarrow> (unit, 'z jst_scheme) act" where
  "refresh_tree E t =
     (let r = get_state t
      in load_node E (\<lambda>_ s.
           whenM s (bindM (modifyM (\<lambda>t. t\<lparr>jt_restore := r\<rparr>))
             (\<lambda>_. set_state (Suc (case rs_open r of None \<Rightarrow> 0 | Some op \<Rightarrow> length op)) E (retM ())))) ''#''
         (t\<lparr>jt_cnt := 0, jt_data := [(''#'', root_node)], jt_dom := [], jt_sliding := []\<rparr>))"

section \<open>The widget\<close>

definition new_jst :: "nat \<Rightarrow> jst" where
  "new_jst inst =
     \<lparr>jt_id = inst, jt_cnt = 0, jt_data = [(''#'', root_node)], jt_changed = [], jt_full = False, jt_sel = [], jt_clicked = None,
      jt_loaded = False, jt_ready = False, jt_restore = no_restore, jt_dom = [], jt_sliding = [], jt_timers = []\<rparr>"

definition init_tree :: "'z jst_scheme jst_env \<Rightarrow> (unit, 'z jst_scheme) act" where
  "init_tree E = load_node E no_callback ''#''"

text \<open>Keys on a focused node; moving the focus is not modelled.\<close>

definition keydown :: "'z jst_scheme jst_env \<Rightarrow> click_keys \<Rightarrow> nat \<Rightarrow> string \<Rightarrow> (unit, 'z jst_scheme) act" where
  "keydown E e which i t =
     (if which = 13 \<or> which = 32 then activate_node E e i t
      else if which = 37 \<and> is_open t i then close_node (je_animation E) i t
      else if which = 39 \<and> is_closed t i then open_node E (je_animation E) no_callback i t
      else retM () t)"

text \<open>A timer that was set to open a node.\<close>

definition timer_opens :: "'z jst_scheme jst_env \<Rightarrow> (unit, 'z jst_scheme) act" where
  "timer_opens E t =
     (case jt_timers t of
        [] \<Rightarrow> retM () t
      | i # is \<Rightarrow> open_node E False no_callback i (t\<lparr>jt_timers := is\<rparr>))"

end
