(* ===== verification/Jstree_Wf.thy ===== *)
theory Jstree_Wf
  imports Jstree_Ops
begin

text \<open>
  The shape of the tree widget's table: every node but the root is a child of its parent, its list
  of ancestors is its parent's with the parent in front, and its list of descendants has exactly
  the nodes below it. Drawing, opening, closing and selecting leave the shape, the texts and what
  is loaded alone, and drawing always comes to an end: no branch is longer than the table.
\<close>

section \<open>What drawing leaves alone\<close>

definition bare :: "tnode \<Rightarrow> tnode" where
  "bare n = n\<lparr>nd_state := no_state\<lparr>st_loaded := st_loaded (nd_state n), st_disabled := st_disabled (nd_state n)\<rparr>\<rparr>"

abbreviation skel :: "'z jst_scheme \<Rightarrow> string \<Rightarrow> tnode option" where
  "skel t i \<equiv> map_option bare (node_at t i)"

text \<open>The same nodes, in the same order, up to the flags that only concern the display.\<close>

definition same :: "'z jst_scheme \<Rightarrow> 'z jst_scheme \<Rightarrow> bool" where
  "same t u \<longleftrightarrow> map fst (jt_data u) = map fst (jt_data t) \<and> (\<forall>i. skel u i = skel t i) \<and> jst.more u = jst.more t"

lemma same_refl [simp]: "same t t"
  by (simp add: same_def)

lemma same_trans: "same t u \<Longrightarrow> same u v \<Longrightarrow> same t v"
  by (simp add: same_def)

lemma map_fst_oset_known: "oget d i \<noteq> None \<Longrightarrow> map fst (oset i v d) = map fst d"
  by (induction d) (auto simp: oget_def split: if_splits)

lemma same_upd:
  assumes "node_at t i = Some n" "bare (f n) = bare n"
  shows "same t (put_data (oset i (f n) (jt_data t)) t)"
  using assms by (simp add: same_def put_data_def obj_simps map_fst_oset_known)

lemma bare_flag:
  "bare (set_flag (\<lambda>s. s\<lparr>st_opened := b\<rparr>) n) = bare n"
  "bare (set_flag (\<lambda>s. s\<lparr>st_selected := b\<rparr>) n) = bare n"
  "bare (set_flag (\<lambda>s. s\<lparr>st_loading := b\<rparr>) n) = bare n"
  by (simp_all add: bare_def)

lemma bare_simps [simp]:
  "nd_id (bare n) = nd_id n" "nd_text (bare n) = nd_text n" "nd_parent (bare n) = nd_parent n" "nd_parents (bare n) = nd_parents n"
  "nd_children (bare n) = nd_children n" "nd_children_d (bare n) = nd_children_d n" "nd_a_attr (bare n) = nd_a_attr n"
  "st_loaded (nd_state (bare n)) = st_loaded (nd_state n)" "st_disabled (nd_state (bare n)) = st_disabled (nd_state n)"
  by (simp_all add: bare_def)

lemma bare_fields:
  assumes "bare m = bare n"
  shows "nd_id m = nd_id n" "nd_text m = nd_text n" "nd_parent m = nd_parent n" "nd_parents m = nd_parents n"
    "nd_children m = nd_children n" "nd_children_d m = nd_children_d n" "nd_a_attr m = nd_a_attr n"
    "st_loaded (nd_state m) = st_loaded (nd_state n)" "st_disabled (nd_state m) = st_disabled (nd_state n)"
  using assms by (metis bare_simps)+

lemma same_other [simp]:
  "same t (u\<lparr>jt_dom := x\<rparr>) = same t u" "same t (u\<lparr>jt_sliding := y\<rparr>) = same t u" "same t (u\<lparr>jt_timers := y\<rparr>) = same t u"
  "same t (u\<lparr>jt_changed := y\<rparr>) = same t u" "same t (u\<lparr>jt_full := b\<rparr>) = same t u" "same t (u\<lparr>jt_sel := y\<rparr>) = same t u"
  "same t (u\<lparr>jt_clicked := c\<rparr>) = same t u" "same t (u\<lparr>jt_loaded := b\<rparr>) = same t u" "same t (u\<lparr>jt_ready := b\<rparr>) = same t u"
  "same t (u\<lparr>jt_restore := r\<rparr>) = same t u"
  by (simp_all add: same_def)

lemma same_node:
  assumes "same t u" "node_at t i = Some n"
  obtains m where "node_at u i = Some m" "bare m = bare n"
  using assms by (auto simp: same_def) (metis map_option_eq_Some option.simps(9))

lemma same_None: "same t u \<Longrightarrow> node_at u i = None \<longleftrightarrow> node_at t i = None"
  by (auto simp: same_def) (metis map_option_is_None)+

lemma same_sym: "same t u \<Longrightarrow> same u t"
  by (simp add: same_def)

lemma same_length: "same t u \<Longrightarrow> length (jt_data u) = length (jt_data t)"
  unfolding same_def by (metis length_map)

lemma same_dom_ops [simp]:
  "same t (forget is u) = same t u" "same t (take_li_out i u) = same t u" "same t (drop_ul i u) = same t u"
  "same t (slide_end i u) = same t u"
  by (simp_all add: forget_def take_li_out_def drop_ul_def slide_end_def split: option.split)

text \<open>An action that returns normally with the same nodes.\<close>

definition calm :: "('a, 'z jst_scheme) act \<Rightarrow> 'z jst_scheme \<Rightarrow> bool" where
  "calm m t \<longleftrightarrow> (\<exists>x u. m t = Some (Ok x, u) \<and> same t u)"

lemma calmE:
  assumes "calm m t"
  obtains x u where "m t = Some (Ok x, u)" "same t u"
  using assms by (auto simp: calm_def)

lemma calm_retM [simp]: "calm (retM x) t"
  by (simp add: calm_def)

lemma calm_modifyM: "same t (f t) \<Longrightarrow> calm (modifyM f) t"
  by (simp add: calm_def)

lemma calm_bindM:
  assumes "calm m t" "\<And>x u. m t = Some (Ok x, u) \<Longrightarrow> same t u \<Longrightarrow> calm (f x) u"
  shows "calm (bindM m f) t"
proof -
  obtain x u where u: "m t = Some (Ok x, u)" "same t u" using assms(1) by (rule calmE)
  obtain y v where "f x u = Some (Ok y, v)" "same u v" using assms(2) [OF u] by (rule calmE)
  then show ?thesis using u same_trans by (auto simp: calm_def bindM_def)
qed

lemma calm_whenM: "(b \<Longrightarrow> calm m t) \<Longrightarrow> calm (whenM b m) t"
  by (simp add: whenM_def)

lemma calm_eachM:
  "(\<And>x u. x \<in> set xs \<Longrightarrow> same t u \<Longrightarrow> calm (f x) u) \<Longrightarrow> calm (eachM f xs) t"
proof (induction xs arbitrary: t)
  case (Cons x xs)
  show ?case
  proof (simp, rule calm_bindM)
    fix y u assume u: "same t u"
    show "calm (eachM f xs) u" using Cons.IH [of u] Cons.prems same_trans [OF u] by auto
  qed (use Cons.prems [of x t] in simp)
qed simp

lemma calm_atM:
  assumes "node_at t i \<noteq> None" "\<And>n. bare (f n) = bare n"
  shows "calm (atM i f) t"
proof -
  obtain n where n: "node_at t i = Some n" using assms(1) by auto
  show ?thesis unfolding calm_def atM_def using n same_upd [of t i n f, OF n assms(2)] by simp
qed

section \<open>The shape\<close>

text \<open>The shape as a predicate on the table's entries without flags.\<close>

definition node_ok :: "(string \<Rightarrow> tnode option) \<Rightarrow> string \<Rightarrow> tnode \<Rightarrow> bool" where
  "node_ok s i n \<longleftrightarrow>
     nd_id n = i \<and>
     (if i = ''#'' then nd_parent n = None \<and> nd_parents n = []
      else \<exists>p pn. nd_parent n = Some p \<and> s p = Some pn \<and> nd_parents n = p # nd_parents pn \<and> i \<in> set (nd_children pn)) \<and>
     distinct (nd_children n) \<and>
     (\<forall>c\<in>set (nd_children n). \<exists>cn. s c = Some cn \<and> c \<noteq> ''#'' \<and> nd_parent cn = Some i) \<and>
     distinct (nd_children_d n) \<and>
     set (nd_children_d n) = {x. \<exists>xn. s x = Some xn \<and> i \<in> set (nd_parents xn)}"

definition shape :: "(string \<Rightarrow> tnode option) \<Rightarrow> bool" where
  "shape s \<longleftrightarrow> s ''#'' \<noteq> None \<and> (\<forall>i n. s i = Some n \<longrightarrow> node_ok s i n)"

definition tree_wf :: "'z jst_scheme \<Rightarrow> bool" where
  "tree_wf t \<longleftrightarrow> wf_obj (jt_data t) \<and> shape (skel t)"

lemma same_wf: "same t u \<Longrightarrow> tree_wf u = tree_wf t"
  unfolding tree_wf_def same_def wf_obj_def by presburger

lemma shape_node: "shape s \<Longrightarrow> s i = Some n \<Longrightarrow> node_ok s i n"
  by (simp add: shape_def)

lemma wf_node: "tree_wf t \<Longrightarrow> node_at t i = Some n \<Longrightarrow> node_ok (skel t) i (bare n)"
  by (auto simp: tree_wf_def intro: shape_node)

lemma wf_root: "tree_wf t \<Longrightarrow> node_at t ''#'' \<noteq> None"
  by (auto simp: tree_wf_def shape_def)

lemma wf_parent:
  assumes "tree_wf t" "node_at t i = Some n" "i \<noteq> ''#''"
  obtains p pn where "nd_parent n = Some p" "node_at t p = Some pn" "nd_parents n = p # nd_parents pn" "i \<in> set (nd_children pn)"
  using wf_node [OF assms(1,2)] assms(3) by (auto simp: node_ok_def)

lemma wf_child:
  assumes "tree_wf t" "node_at t i = Some n" "c \<in> set (nd_children n)"
  obtains cn where "node_at t c = Some cn" "c \<noteq> ''#''" "nd_parent cn = Some i" "nd_parents cn = i # nd_parents n"
proof -
  obtain cn where c: "node_at t c = Some cn" "c \<noteq> ''#''" "nd_parent cn = Some i"
    using wf_node [OF assms(1,2)] assms(3) by (auto simp: node_ok_def)
  obtain pn where "node_at t i = Some pn" "nd_parents cn = i # nd_parents pn"
    using wf_parent [OF assms(1) c(1,2)] c(3) by auto
  then show ?thesis using c assms(2) that by auto
qed

text \<open>Ancestors are nodes, nearer to the root.\<close>

lemma wf_ancestors:
  assumes "tree_wf t" "node_at t i = Some n" "a \<in> set (nd_parents n)"
  shows "\<exists>an. node_at t a = Some an \<and> length (nd_parents an) < length (nd_parents n)"
  using assms(2,3)
proof (induction "length (nd_parents n)" arbitrary: i n rule: less_induct)
  case less
  have "i \<noteq> ''#''" using wf_node [OF assms(1) less.prems(1)] less.prems(2) by (auto simp: node_ok_def)
  then obtain p pn where p: "node_at t p = Some pn" "nd_parents n = p # nd_parents pn"
    using wf_parent [OF assms(1) less.prems(1)] by metis
  show ?case
  proof (cases "a = p")
    case False
    then show ?thesis using less.hyps [of pn p] less.prems(2) p by fastforce
  qed (use p in simp)
qed

lemma wf_distinct_parents:
  assumes "tree_wf t" "node_at t i = Some n"
  shows "distinct (i # nd_parents n)"
  using assms(2)
proof (induction "length (nd_parents n)" arbitrary: i n rule: less_induct)
  case less
  have i: "i \<notin> set (nd_parents n)" using wf_ancestors [OF assms(1) less.prems] less.prems by fastforce
  show ?case
  proof (cases "i = ''#''")
    case True
    then show ?thesis using wf_node [OF assms(1) less.prems] by (auto simp: node_ok_def)
  next
    case False
    then obtain p pn where p: "node_at t p = Some pn" "nd_parents n = p # nd_parents pn"
      using wf_parent [OF assms(1) less.prems] by metis
    then show ?thesis using less.hyps [of pn p] i by simp
  qed
qed

lemma wf_depth:
  assumes "tree_wf t" "node_at t i = Some n"
  shows "length (nd_parents n) < length (jt_data t)"
proof -
  have "set (i # nd_parents n) \<subseteq> set (map fst (jt_data t))"
  proof
    fix x assume "x \<in> set (i # nd_parents n)"
    then have "node_at t x \<noteq> None" using wf_ancestors [OF assms] assms(2) by auto
    then show "x \<in> set (map fst (jt_data t))" by (simp add: oget_def map_of_eq_None_iff)
  qed
  then have "card (set (i # nd_parents n)) \<le> card (set (map fst (jt_data t)))" by (rule card_mono [rotated]) simp
  also have "\<dots> \<le> length (jt_data t)" using card_length [of "map fst (jt_data t)"] by simp
  finally show ?thesis using distinct_card [OF wf_distinct_parents [OF assms]] by simp
qed

section \<open>Drawing comes to an end\<close>

lemma mapM_li_Cons: "mapM_li f (i # is) = bindM (f i) (\<lambda>l. bindM (mapM_li f is) (\<lambda>ls. retM (l # ls)))"
  by (simp add: mapM_li_def)

text \<open>Every call gives an element, and the nodes stay the same.\<close>

definition draws :: "('z jst_scheme \<Rightarrow> bool) \<Rightarrow> (li option, 'z jst_scheme) act \<Rightarrow> 'z jst_scheme \<Rightarrow> bool" where
  "draws P m t \<longleftrightarrow> (\<exists>l u. m t = Some (Ok l, u) \<and> same t u \<and> (P t \<longrightarrow> l \<noteq> None))"

lemma mapM_li_draws:
  assumes "\<And>i u. i \<in> set is \<Longrightarrow> same t u \<Longrightarrow> draws (\<lambda>_. True) (f i) u"
  shows "\<exists>ls u. mapM_li f is t = Some (Ok ls, u) \<and> same t u \<and> None \<notin> set ls"
  using assms
proof (induction "is" arbitrary: t)
  case Nil
  then show ?case by (simp add: mapM_li_def)
next
  case (Cons i "is")
  obtain l u where u: "f i t = Some (Ok l, u)" "same t u" "l \<noteq> None"
    using Cons.prems [of i t] by (auto simp: draws_def)
  have "draws (\<lambda>_. True) (f j) v" if "j \<in> set is" "same u v" for j v
    using Cons.prems [of j v] that same_trans [OF u(2)] by auto
  from Cons.IH [of u, OF this] obtain ls v where "mapM_li f is u = Some (Ok ls, v)" "same u v" "None \<notin> set ls" by auto
  then show ?case using u same_trans by (auto simp: mapM_li_Cons bindM_def)
qed

lemma calm_opened: "node_at t i \<noteq> None \<Longrightarrow> calm (atM i (set_flag (\<lambda>s. s\<lparr>st_opened := b\<rparr>))) t"
  by (rule calm_atM) (simp_all add: bare_flag)

lemma finish_li_calm:
  assumes "node_at t i \<noteq> None"
  shows "\<exists>u. finish_li c at n i l t = Some (Ok (Some l), u) \<and> same t u"
proof -
  obtain m where "node_at t i = Some m" using assms by auto
  then show ?thesis
    by (auto simp: finish_li_def bindM_def whenM_def atM_def put_data_def same_def obj_simps map_fst_oset_known bare_flag)
qed

lemma redraw_li_draws:
  assumes "tree_wf t" "node_at t i = Some n" "length (jt_data t) < d + length (nd_parents n)"
  shows "draws (\<lambda>_. is_callback) (redraw_li d deep is_callback i) t"
  using assms
proof (induction d arbitrary: deep is_callback i t n)
  case 0
  then show ?case using wf_depth by fastforce
next
  case (Suc d)
  have u: "same t (take_li_out i t)" by simp
  have kids: "draws (\<lambda>_. True) (redraw_li d True True c) v" if c: "c \<in> set (nd_children n)" and v: "same (take_li_out i t) v" for c v
  proof -
    obtain cn where cn: "node_at t c = Some cn" "nd_parents cn = i # nd_parents n"
      using wf_child [OF Suc.prems(1,2) c] by metis
    have tv: "same t v" using same_trans [OF u v] .
    obtain m where m: "node_at v c = Some m" "bare m = bare cn" using same_node [OF tv cn(1)] .
    have "length (jt_data v) < d + length (nd_parents m)"
      using Suc.prems(3) same_length [OF tv] cn(2) bare_fields(4) [OF m(2)] by simp
    from Suc.IH [OF _ m(1) this, of True] show ?thesis using same_wf [OF tv] Suc.prems(1) by simp
  qed
  have ls: "\<exists>ls v. (if b \<and> c then mapM_li (redraw_li d b True) (nd_children n) else retM []) (take_li_out i t) = Some (Ok ls, v) \<and>
      same t v \<and> None \<notin> set ls" for b c
    using mapM_li_draws [of "nd_children n" "take_li_out i t" "redraw_li d True True", OF kids] same_trans [OF u] by auto
  have fin: "\<exists>w. finish_li c at n i l v = Some (Ok (Some l), w) \<and> same t w" if "same t v" for c at l v
    using finish_li_calm [of v i c at n l] Suc.prems(2) same_None [OF that] same_trans [OF that] by auto
  have step: "draws (\<lambda>_. is_callback) (\<lambda>_. bindM (if b \<and> c then mapM_li (redraw_li d b True) (nd_children n) else retM [])
      (\<lambda>ls. if None \<in> set ls then throwM e else finish_li is_callback at n i (f ls)) (take_li_out i t)) t" for b c e at f
  proof -
    obtain ls v where v: "(if b \<and> c then mapM_li (redraw_li d b True) (nd_children n) else retM []) (take_li_out i t) = Some (Ok ls, v)"
      "same t v" "None \<notin> set ls" using ls by blast
    show ?thesis using fin [OF v(2), of is_callback at "f ls"] v by (auto simp: draws_def bindM_def)
  qed
  show ?case
    unfolding draws_def redraw_li.simps Let_def Suc.prems(2) option.case
    using step [unfolded draws_def] by auto
qed

lemma calm_redraw_full:
  assumes "tree_wf t"
  shows "calm redraw_full t"
proof -
  obtain r where r: "node_at t ''#'' = Some r" using wf_root [OF assms] by auto
  have "draws (\<lambda>_. True) (redraw_li (table_size t) True True c) u" if c: "c \<in> set (nd_children r)" and u: "same t u" for c u
  proof -
    obtain cn where "node_at t c = Some cn" using wf_child [OF assms r c] by metis
    then obtain m where "node_at u c = Some m" using same_node [OF u] by metis
    then show ?thesis
      using redraw_li_draws [of u c m "table_size t" True True] same_wf [OF u] assms same_length [OF u] by (simp add: table_size_def)
  qed
  from mapM_li_draws [of "nd_children r" t "redraw_li (table_size t) True True", OF this] show ?thesis
    using r by (auto simp: calm_def redraw_full_def bindM_def)
qed

lemma wf_full [simp]: "tree_wf (t\<lparr>jt_full := b\<rparr>) = tree_wf t"
  by (simp add: tree_wf_def)

lemma calm_redraw_node:
  assumes "tree_wf t"
  shows "calm (redraw_node i deep) t"
proof (cases "node_at t i")
  case None
  then show ?thesis by (auto simp: calm_def redraw_node_def bindM_def table_size_def)
next
  case (Some n)
  have "calm redraw_full (t\<lparr>jt_full := True\<rparr>)" using assms by (simp add: calm_redraw_full)
  then have f: "\<exists>u. redraw_full (t\<lparr>jt_full := True\<rparr>) = Some (Ok (), u) \<and> same t u" by (auto simp: calm_def same_def)
  have "draws (\<lambda>_. False) (redraw_li (table_size t) deep False i) t"
    using redraw_li_draws [OF assms Some, of "table_size t" False deep] by (simp add: table_size_def)
  then show ?thesis using f by (auto simp: calm_def redraw_node_def bindM_def draws_def)
qed

lemma calm_redraw:
  assumes "tree_wf t"
  shows "calm (redraw full) t"
proof -
  have "calm (bindM (eachM (\<lambda>i. redraw_node i True) is) (\<lambda>_. modifyM (\<lambda>t. t\<lparr>jt_full := False, jt_changed := []\<rparr>))) t" for "is"
    by (intro calm_bindM calm_eachM calm_modifyM) (use assms same_wf in \<open>auto intro: calm_redraw_node\<close>)
  moreover have "calm redraw_full (t\<lparr>jt_full := True\<rparr>)" using assms by (simp add: calm_redraw_full)
  ultimately show ?thesis by (auto simp: calm_def redraw_def redraw_changed_def same_def)
qed

section \<open>Closing and deselecting\<close>

lemma calm_close_node: "calm (close_node animation i) t"
proof (cases "node_at t i = None \<or> i = ''#'' \<or> is_closed t i")
  case True
  then show ?thesis by (auto simp: calm_def close_node_def)
next
  case False
  let ?f = "\<lambda>t. case find_li i (jt_dom t) of None \<Rightarrow> t
      | Some l \<Rightarrow> if \<not> animation then drop_ul i t else if li_ul l = [] then t
          else if i \<in> set (jt_sliding t) then slide_end i t else t\<lparr>jt_sliding := jt_sliding t @ [i]\<rparr>"
  have f: "same t (?f t)" by (simp split: option.split)
  have "calm (bindM (modifyM ?f) (\<lambda>_. atM i (set_flag (\<lambda>s. s\<lparr>st_opened := False\<rparr>)))) t"
  proof (rule calm_bindM [OF calm_modifyM [of t ?f, OF f]])
    fix x u assume "same t u"
    then show "calm (atM i (set_flag (\<lambda>s. s\<lparr>st_opened := False\<rparr>))) u" using False same_None [of t u i] by (intro calm_opened) simp
  qed
  then show ?thesis using False by (simp add: calm_def close_node_def)
qed

lemma mark_selected_bare:
  "map fst (mark_selected b i d) = map fst d" "map_option bare (oget (mark_selected b i d) x) = map_option bare (oget d x)"
  by (simp_all add: mark_selected_def map_fst_oset_known obj_simps bare_flag split: option.split)

lemma same_mark_selected: "same t (u\<lparr>jt_data := mark_selected b i d\<rparr>) = same t (u\<lparr>jt_data := d\<rparr>)"
  by (simp add: same_def mark_selected_bare)

lemma same_mark_all: "same t (u\<lparr>jt_data := fold (mark_selected b) is d\<rparr>) = same t (u\<lparr>jt_data := d\<rparr>)"
  by (induction "is" arbitrary: d) (simp_all add: same_mark_selected)

lemma same_deselect_all [simp]: "same t (deselect_all u) = same t u"
  by (simp add: deselect_all_def same_mark_all)

lemma with_node_some: "with_node i P t \<Longrightarrow> node_at t i \<noteq> None"
  by (simp add: with_node_def split: option.splits)

lemma calm_deselect_node: "calm (deselect_node i) t"
proof (cases "is_selected t i")
  case True
  then have "node_at t i \<noteq> None" by (auto simp: is_selected_def dest: with_node_some)
  then have "calm (bindM (atM i (set_flag (\<lambda>s. s\<lparr>st_selected := False\<rparr>))) (\<lambda>_. modifyM (\<lambda>t. t\<lparr>jt_sel := remove1 i (jt_sel t)\<rparr>))) t"
    by (intro calm_bindM calm_atM calm_modifyM) (simp_all add: bare_flag)
  then show ?thesis using True by (simp add: calm_def deselect_node_def)
qed (simp add: calm_def deselect_node_def)

lemma same_refresh_clicked [simp]: "same t (refresh_clicked u) = same t u"
  by (simp add: refresh_clicked_def Let_def)

lemma same_drop_open [simp]: "same t (drop_open i u) = same t u"
  by (simp add: drop_open_def Let_def)

end
