(* ===== verification/Jstree_Rows.thy ===== *)
theory Jstree_Rows
  imports Jstree_Wf "HOL-Library.Multiset"
begin

text \<open>
  Rows become nodes: what loading adds to the tree widget's table, and that the table keeps its
  shape. The rows are plain: they have no ids of their own, no flags and no nested rows, as
  the rows the program gives; the rest of the widget is not restricted.
\<close>

section \<open>Sorting\<close>

lemma mset_sort_put [simp]: "mset (sort_put gt x xs) = add_mset x (mset xs)"
proof -
  have "mset (rev (dropWhile P ys)) + mset (rev (takeWhile P ys)) = mset ys" for P and ys :: "'a list"
    by (metis add.commute mset_append mset_rev takeWhile_dropWhile_id)
  from this [of "\<lambda>y. gt y x" "rev xs"] show ?thesis by (simp add: sort_put_def)
qed

lemma mset_array_sort [simp]: "mset (array_sort gt xs) = mset xs"
proof -
  have "mset (foldl (\<lambda>acc x. sort_put gt x acc) acc xs) = mset acc + mset xs" for acc
    by (induction xs arbitrary: acc) auto
  then show ?thesis by (simp add: array_sort_def)
qed

lemma array_sort_Nil [simp]: "array_sort gt [] = []"
  by (simp add: array_sort_def)

lemma set_array_sort [simp]: "set (array_sort gt xs) = set xs"
  by (rule mset_eq_setD) simp

lemma distinct_array_sort [simp]: "distinct (array_sort gt xs) = distinct xs"
  by (metis mset_array_sort mset_eq_imp_distinct_iff)

section \<open>Plain rows\<close>

definition row_fields :: "jdata \<Rightarrow> jfields" where
  "row_fields d = (case d of JString s \<Rightarrow> text_fields s | JObject f _ \<Rightarrow> f)"

definition row_lazy :: "jdata \<Rightarrow> bool" where
  "row_lazy d = (case d of JString s \<Rightarrow> False | JObject _ ch \<Rightarrow> ch = None)"

definition plain_row :: "jdata \<Rightarrow> bool" where
  "plain_row d \<longleftrightarrow>
     jd_id (row_fields d) = None \<and> jd_state (row_fields d) = [] \<and> oget (jd_li_attr (row_fields d)) ''id'' = None \<and>
     (case d of JString s \<Rightarrow> True | JObject _ ch \<Rightarrow> ch = None \<or> ch = Some [])"

definition row_text :: "jdata \<Rightarrow> string" where
  "row_text d = (case jd_text (row_fields d) of None \<Rightarrow> [] | Some s \<Rightarrow> s)"

definition row_attr :: "jdata \<Rightarrow> string option jsobj" where
  "row_attr d = assign_attrs (jd_a_attr (row_fields d)) [(''href'', Some ''#'')]"

definition row_node :: "jdata \<Rightarrow> string \<Rightarrow> string list \<Rightarrow> tnode" where
  "row_node d i ps =
     \<lparr>nd_id = i, nd_text = row_text d, nd_parent = Some (hd ps), nd_parents = ps, nd_children = [], nd_children_d = [],
      nd_state = default_state\<lparr>st_loaded := \<not> row_lazy d\<rparr>, nd_li_attr = row_li_attr (row_fields d) i, nd_a_attr = row_attr d\<rparr>"

lemma row_id_plain: "plain_row d \<Longrightarrow> row_id (row_fields d) tid = tid"
  by (simp add: plain_row_def row_id_def truthy_str_def)

lemma free_cnt_free: "oget d (node_name a (free_cnt d a c)) = None"
  by (induction d a c rule: free_cnt.induct) (subst free_cnt.simps, simp)

lemma parse_plain:
  assumes "plain_row d"
  shows "\<exists>c u. parse_model_from_json d p ps t = (c, u) \<and> node_at t c = None \<and>
    jt_data u = oset c (row_node d c (p # ps)) (jt_data t) \<and> jst.more u = jst.more t \<and> jt_sel u = jt_sel t"
proof -
  have "parse_model_from_json d p ps t =
      (case alloc t of (tid, t1) \<Rightarrow> (tid, put_node (row_fields d) tid (p # ps) [] [] (row_lazy d) t1))"
  proof (cases d)
    case (JObject f ch)
    then show ?thesis using assms row_id_plain [OF assms] by (auto simp: plain_row_def row_fields_def row_lazy_def split: prod.split)
  qed (simp add: row_fields_def row_lazy_def)
  then show ?thesis
    using assms
    by (auto simp: plain_row_def alloc_def Let_def put_node_def row_node_def row_text_def row_attr_def default_state_def free_cnt_free)
qed

lemma parse_rows_sel: "\<forall>d\<in>set ds. plain_row d \<Longrightarrow> parse_rows ds p ps t = (ch, dpc, u) \<Longrightarrow> jt_sel u = jt_sel t"
proof (induction ds arbitrary: t ch dpc)
  case (Cons d ds)
  then show ?case using parse_plain [of d p ps t] by (auto split: prod.splits)
qed simp

lemma parse_rows_plain:
  assumes "\<forall>d\<in>set ds. plain_row d" "parse_rows ds p ps t = (ch, dpc, u)"
  shows "dpc = ch \<and> distinct ch \<and> (\<forall>c\<in>set ch. node_at t c = None) \<and>
    list_all2 (\<lambda>d c. node_at u c = Some (row_node d c (p # ps))) ds ch \<and>
    (\<forall>x. x \<notin> set ch \<longrightarrow> node_at u x = node_at t x) \<and> (wf_obj (jt_data t) \<longrightarrow> wf_obj (jt_data u)) \<and> jst.more u = jst.more t"
  using assms
proof (induction ds arbitrary: t ch dpc u)
  case (Cons d ds)
  obtain c t1 where c: "parse_model_from_json d p ps t = (c, t1)" "node_at t c = None"
    "jt_data t1 = oset c (row_node d c (p # ps)) (jt_data t)" "jst.more t1 = jst.more t"
    using parse_plain [of d p ps t] Cons.prems(1) by auto
  obtain ch1 dp1 where r: "parse_rows ds p ps t1 = (ch1, dp1, u)" "ch = c # ch1" "dpc = c # descendants_of t1 c @ dp1"
    using Cons.prems(2) c(1) by (auto split: prod.splits)
  have ih: "dp1 = ch1 \<and> distinct ch1 \<and> (\<forall>c\<in>set ch1. node_at t1 c = None) \<and>
      list_all2 (\<lambda>d c. node_at u c = Some (row_node d c (p # ps))) ds ch1 \<and>
      (\<forall>x. x \<notin> set ch1 \<longrightarrow> node_at u x = node_at t1 x) \<and> (wf_obj (jt_data t1) \<longrightarrow> wf_obj (jt_data u)) \<and> jst.more u = jst.more t1"
    using Cons.IH [OF _ r(1)] Cons.prems(1) by simp
  have "descendants_of t1 c = []" by (simp add: descendants_of_def c(3) obj_simps row_node_def)
  moreover have "c \<notin> set ch1" using ih c(3) by (force simp: obj_simps)
  ultimately show ?case using ih r(2,3) c by (auto simp: obj_simps split: if_splits)
qed simp

section \<open>Nodes that have got rows\<close>

text \<open>The table after rows were appended to a node that had none: new nodes for the rows, the node with
  these as its children, in some order, and its ancestors with more descendants.\<close>

definition grown :: "'z jst_scheme \<Rightarrow> string \<Rightarrow> jdata list \<Rightarrow> string list \<Rightarrow> 'z jst_scheme \<Rightarrow> bool" where
  "grown t i ds ch u \<longleftrightarrow>
     wf_obj (jt_data u) \<and> jst.more u = jst.more t \<and> distinct ch \<and> (\<forall>c\<in>set ch. node_at t c = None) \<and>
     (\<exists>n ch'. node_at t i = Some n \<and> mset ch' = mset ch \<and> skel u i = Some (bare (n\<lparr>nd_children := ch', nd_children_d := ch\<rparr>)) \<and>
       list_all2 (\<lambda>d c. skel u c = Some (bare (row_node d c (i # nd_parents n)))) ds ch \<and>
       (\<forall>x. x \<notin> set ch \<longrightarrow> x \<noteq> i \<longrightarrow>
         skel u x = map_option (\<lambda>m. if x \<in> set (nd_parents n) then m\<lparr>nd_children_d := nd_children_d m @ ch\<rparr> else m) (skel t x)))"

lemma grown_same: "grown t i ds ch u \<Longrightarrow> same u v \<Longrightarrow> grown t i ds ch v"
  unfolding grown_def same_def wf_obj_def by presburger

text \<open>Writing the descendants of the ancestors.\<close>

lemma extend_ancestors:
  assumes "distinct ps" "\<forall>q\<in>set ps. node_at t q \<noteq> None"
  shows "\<exists>u. eachM (\<lambda>q. atM q (\<lambda>n. n\<lparr>nd_children_d := nd_children_d n @ dpc\<rparr>)) ps t = Some (Ok (), u) \<and>
    map fst (jt_data u) = map fst (jt_data t) \<and> jst.more u = jst.more t \<and>
    (\<forall>x. node_at u x = map_option (\<lambda>m. if x \<in> set ps then m\<lparr>nd_children_d := nd_children_d m @ dpc\<rparr> else m) (node_at t x))"
  using assms
proof (induction ps arbitrary: t)
  case Nil
  show ?case by (simp add: option.map_id [unfolded id_def])
next
  case (Cons q ps)
  obtain m where m: "node_at t q = Some m" using Cons.prems(2) by auto
  let ?t = "put_data (oset q (m\<lparr>nd_children_d := nd_children_d m @ dpc\<rparr>) (jt_data t)) t"
  have "\<forall>q\<in>set ps. node_at ?t q \<noteq> None" using Cons.prems(2) by (simp add: put_data_def obj_simps)
  from Cons.IH [OF _ this] Cons.prems(1) obtain u where
    u: "eachM (\<lambda>q. atM q (\<lambda>n. n\<lparr>nd_children_d := nd_children_d n @ dpc\<rparr>)) ps ?t = Some (Ok (), u)"
      "map fst (jt_data u) = map fst (jt_data ?t)" "jst.more u = jst.more ?t"
      "\<And>x. node_at u x = map_option (\<lambda>m. if x \<in> set ps then m\<lparr>nd_children_d := nd_children_d m @ dpc\<rparr> else m) (node_at ?t x)"
    by auto
  have "eachM (\<lambda>q. atM q (\<lambda>n. n\<lparr>nd_children_d := nd_children_d n @ dpc\<rparr>)) (q # ps) t = Some (Ok (), u)"
    using u(1) m by (simp add: bindM_def atM_def)
  moreover have "map fst (jt_data u) = map fst (jt_data t)" "jst.more u = jst.more t"
    using u(2,3) m by (simp_all add: put_data_def map_fst_oset_known)
  moreover have "node_at u x = map_option (\<lambda>m. if x \<in> set (q # ps) then m\<lparr>nd_children_d := nd_children_d m @ dpc\<rparr> else m) (node_at t x)" for x
    using u(4) [of x] m Cons.prems(1) by (auto simp: put_data_def obj_simps)
  ultimately show ?case by blast
qed

lemma sort_children_grown:
  assumes "grown t i ds ch u"
  shows "grown t i ds ch (sort_children i u)"
proof -
  obtain n ch' where n: "node_at t i = Some n" "mset ch' = mset ch" "skel u i = Some (bare (n\<lparr>nd_children := ch', nd_children_d := ch\<rparr>))"
    using assms by (auto simp: grown_def)
  then obtain m where m: "node_at u i = Some m" "bare m = bare (n\<lparr>nd_children := ch', nd_children_d := ch\<rparr>)" by auto
  have c: "nd_children m = ch'" using bare_fields(5) [OF m(2)] by simp
  let ?ch = "array_sort (text_gt u) ch'"
  have "bare (m\<lparr>nd_children := ?ch\<rparr>) = (bare m)\<lparr>nd_children := ?ch\<rparr>" by (simp add: bare_def)
  also have "\<dots> = bare (n\<lparr>nd_children := ?ch, nd_children_d := ch\<rparr>)" by (simp add: m(2)) (simp add: bare_def)
  finally have b: "bare (m\<lparr>nd_children := ?ch\<rparr>) = bare (n\<lparr>nd_children := ?ch, nd_children_d := ch\<rparr>)" .
  have s: "skel (sort_children i u) x = (if x = i then Some (bare (n\<lparr>nd_children := ?ch, nd_children_d := ch\<rparr>)) else skel u x)" for x
    using m(1) b c by (simp add: sort_children_def put_data_def obj_simps)
  have i: "i \<notin> set ch" using assms n(1) by (auto simp: grown_def)
  have w: "wf_obj (jt_data (sort_children i u))" "jst.more (sort_children i u) = jst.more u"
    using m(1) assms by (simp_all add: sort_children_def put_data_def grown_def)
  have l: "list_all2 (\<lambda>d c. skel (sort_children i u) c = Some (bare (row_node d c (i # nd_parents n)))) ds ch"
    using assms n(1) i by (auto simp: grown_def s elim!: list.rel_mono_strong)
  have "mset ?ch = mset ch" using n(2) by simp
  then show ?thesis
    using assms n(1) w l unfolding grown_def by (intro conjI exI [of _ n] exI [of _ ?ch]) (auto simp: s)
qed

lemma sort_children_childless:
  assumes "node_at u x = Some n" "nd_children n = []"
  shows "same u (sort_children x u)"
proof -
  have "bare (n\<lparr>nd_children := []\<rparr>) = bare n" using assms(2) by (simp add: bare_def)
  then show ?thesis using assms same_upd [of u x n "\<lambda>n. n\<lparr>nd_children := []\<rparr>"] by (simp add: sort_children_def)
qed

lemma sort_rows_grown:
  assumes "grown t i ds ch u" "set xs \<subseteq> set ch"
  shows "grown t i ds ch (fold sort_children xs u)"
  using assms
proof (induction xs arbitrary: u)
  case (Cons x xs)
  then have x: "x \<in> set ch" by simp
  obtain d ps where "skel u x = Some (bare (row_node d x ps))"
    using Cons.prems(1) x by (auto simp: grown_def list_all2_conv_all_nth in_set_conv_nth)
  then obtain m where m: "node_at u x = Some m" "bare m = bare (row_node d x ps)" by auto
  have "nd_children m = []" using bare_fields(5) [OF m(2)] by (simp add: row_node_def)
  from grown_same [OF Cons.prems(1) sort_children_childless [OF m(1) this]]
  show ?case using Cons.IH Cons.prems(2) by simp
qed simp

lemma sort_node_grown:
  assumes "grown t i ds ch u"
  shows "grown t i ds ch (sort_node i True u)"
proof -
  obtain n ch' where "skel u i = Some (bare (n\<lparr>nd_children := ch', nd_children_d := ch\<rparr>))" using assms by (auto simp: grown_def)
  then obtain m where m: "node_at u i = Some m" "bare m = bare (n\<lparr>nd_children := ch', nd_children_d := ch\<rparr>)" by auto
  have "nd_children_d m = ch" using bare_fields(6) [OF m(2)] by simp
  then show ?thesis
    using m(1) assms sort_rows_grown [OF sort_children_grown [OF assms]] by (simp add: sort_node_def Let_def)
qed

text \<open>The table that has grown has the shape again.\<close>

lemma grown_parents:
  assumes "grown t i ds ch u" "node_at t i = Some n" "skel u x = Some xn"
  shows "(x \<in> set ch \<and> nd_parents xn = i # nd_parents n \<and> nd_parent xn = Some i \<and> nd_id xn = x \<and> nd_children xn = [] \<and> nd_children_d xn = []) \<or>
    (x \<notin> set ch \<and> (\<exists>m. node_at t x = Some m \<and> nd_parents xn = nd_parents m \<and> nd_parent xn = nd_parent m \<and> nd_id xn = nd_id m \<and>
      (if x = i then mset (nd_children xn) = mset ch \<and> nd_children_d xn = ch
       else nd_children xn = nd_children m \<and> nd_children_d xn = nd_children_d m @ (if x \<in> set (nd_parents n) then ch else []))))"
proof (cases "x \<in> set ch")
  case True
  then obtain d where "skel u x = Some (bare (row_node d x (i # nd_parents n)))"
    using assms(1,2) by (auto simp: grown_def list_all2_conv_all_nth in_set_conv_nth)
  then show ?thesis using True assms(3) by (auto simp: row_node_def)
next
  case False
  show ?thesis
  proof (cases "x = i")
    case True
    then show ?thesis using False assms by (auto simp: grown_def)
  next
    case ni: False
    have "skel u x = map_option (\<lambda>m. if x \<in> set (nd_parents n) then m\<lparr>nd_children_d := nd_children_d m @ ch\<rparr> else m) (skel t x)"
      using assms(1,2) ni False by (auto simp only: grown_def option.inject)
    then obtain m where m: "node_at t x = Some m" "xn = (if x \<in> set (nd_parents n) then (bare m)\<lparr>nd_children_d := nd_children_d m @ ch\<rparr> else bare m)"
      using assms(3) by (cases "node_at t x") auto
    show ?thesis using m False ni by (auto simp: m(2))
  qed
qed

lemma grown_dom:
  assumes "grown t i ds ch u" "node_at t i = Some n" "node_at t x = Some m"
  obtains xn where "skel u x = Some xn" "nd_parents xn = nd_parents m" "nd_parent xn = nd_parent m"
    "x \<noteq> i \<Longrightarrow> nd_children xn = nd_children m"
proof -
  have x: "x \<notin> set ch" using assms(1,3) by (auto simp: grown_def)
  have "skel u x \<noteq> None"
  proof (cases "x = i")
    case True
    then show ?thesis using assms(1,2) by (auto simp: grown_def)
  next
    case False
    then have "skel u x = map_option (\<lambda>m. if x \<in> set (nd_parents n) then m\<lparr>nd_children_d := nd_children_d m @ ch\<rparr> else m) (skel t x)"
      using assms(1,2) x by (auto simp only: grown_def option.inject)
    then show ?thesis using assms(3) by auto
  qed
  then obtain xn where xn: "skel u x = Some xn" by blast
  show ?thesis using that [OF xn] grown_parents [OF assms(1,2) xn] x assms(3) by (auto split: if_splits)
qed

lemma grown_below:
  assumes wf: "tree_wf t" and g: "grown t i ds ch u" and n: "node_at t i = Some n"
  shows "{y. \<exists>yn. skel u y = Some yn \<and> x \<in> set (nd_parents yn)} =
    {y. \<exists>yn. skel t y = Some yn \<and> x \<in> set (nd_parents yn)} \<union> (if x \<in> set (i # nd_parents n) then set ch else {})" (is "?L = ?R")
proof (intro set_eqI iffI)
  fix y assume "y \<in> ?L"
  then obtain yn where "skel u y = Some yn" "x \<in> set (nd_parents yn)" by blast
  then show "y \<in> ?R" using grown_parents [OF g n, of y yn] by auto
next
  fix y assume y: "y \<in> ?R"
  show "y \<in> ?L"
  proof (cases "y \<in> set ch")
    case True
    have "x \<in> set (i # nd_parents n)" using y True g by (auto simp: grown_def split: if_splits)
    moreover obtain yn where yn: "skel u y = Some yn" using True g n by (auto simp: grown_def list_all2_conv_all_nth in_set_conv_nth)
    ultimately show ?thesis using grown_parents [OF g n yn] True by auto
  next
    case False
    then obtain m where "node_at t y = Some m" "x \<in> set (nd_parents m)" using y by (auto split: if_splits)
    then show ?thesis using grown_dom [OF g n] by (metis (mono_tags, lifting) mem_Collect_eq)
  qed
qed

text \<open>A new node.\<close>

lemma grown_new_ok:
  assumes wf: "tree_wf t" and g: "grown t i ds ch u" and n: "node_at t i = Some n" and xn: "skel u x = Some xn" and new: "x \<in> set ch"
  shows "node_ok (skel u) x xn"
proof -
  have x: "nd_parents xn = i # nd_parents n" "nd_parent xn = Some i" "nd_id xn = x" "nd_children xn = []" "nd_children_d xn = []"
    using grown_parents [OF g n xn] new by auto
  have fresh: "node_at t x = None" using new g by (simp add: grown_def)
  then have r: "x \<noteq> ''#''" using wf_root [OF wf] by metis
  obtain m where m: "skel u i = Some m" "nd_parents m = nd_parents n" using grown_dom [OF g n n] by metis
  have c: "x \<in> set (nd_children m)" using grown_parents [OF g n m(1)] new n g by (auto simp: grown_def dest: mset_eq_setD)
  have none: "x \<notin> set (nd_parents m)" if "node_at t y = Some m" for y m using wf_ancestors [OF wf that, of x] fresh by auto
  have "{y. \<exists>yn. skel u y = Some yn \<and> x \<in> set (nd_parents yn)} = {}"
    unfolding grown_below [OF wf g n] using none fresh n by auto
  then show ?thesis using x r m c by (auto simp: node_ok_def)
qed

text \<open>A node that was there before: its fields, the nodes around it, and the nodes below it.\<close>

lemma grown_old:
  assumes "grown t i ds ch u" "node_at t i = Some n" "skel u x = Some xn" "x \<notin> set ch"
  obtains m where "node_at t x = Some m" "nd_parents xn = nd_parents m" "nd_parent xn = nd_parent m" "nd_id xn = nd_id m"
    "x = i \<Longrightarrow> mset (nd_children xn) = mset ch \<and> nd_children_d xn = ch"
    "x \<noteq> i \<Longrightarrow> nd_children xn = nd_children m \<and> nd_children_d xn = nd_children_d m @ (if x \<in> set (nd_parents n) then ch else [])"
  using grown_parents [OF assms(1-3)] assms(4) by (auto split: if_splits)

lemma grown_up:
  assumes wf: "tree_wf t" and g: "grown t i ds ch u" and n: "node_at t i = Some n" "nd_children n = []"
    and m: "node_at t x = Some m" "x \<noteq> ''#''"
  shows "\<exists>p pn. nd_parent m = Some p \<and> skel u p = Some pn \<and> nd_parents m = p # nd_parents pn \<and> x \<in> set (nd_children pn)"
proof -
  obtain p pn where p: "nd_parent m = Some p" "node_at t p = Some pn" "nd_parents m = p # nd_parents pn" "x \<in> set (nd_children pn)"
    using wf_parent [OF wf m] by blast
  then have "p \<noteq> i" using n by auto
  then show ?thesis using grown_dom [OF g n(1) p(2)] p by metis
qed

lemma grown_kids:
  assumes wf: "tree_wf t" and g: "grown t i ds ch u" and n: "node_at t i = Some n" and xn: "skel u x = Some xn" "x \<notin> set ch"
    and c: "c \<in> set (nd_children xn)"
  shows "\<exists>cn. skel u c = Some cn \<and> c \<noteq> ''#'' \<and> nd_parent cn = Some x"
proof -
  obtain m where m: "node_at t x = Some m" "x = i \<Longrightarrow> mset (nd_children xn) = mset ch" "x \<noteq> i \<Longrightarrow> nd_children xn = nd_children m"
    using grown_old [OF g n xn] by metis
  show ?thesis
  proof (cases "x = i")
    case True
    then have cc: "c \<in> set ch" using m(2) c by (auto dest: mset_eq_setD)
    then obtain cn where cn: "skel u c = Some cn" using g n by (auto simp: grown_def list_all2_conv_all_nth in_set_conv_nth)
    have "node_at t c = None" using cc g by (simp add: grown_def)
    then show ?thesis using grown_parents [OF g n cn] cc cn True wf_root [OF wf] by metis
  next
    case False
    then obtain cn where "node_at t c = Some cn" "c \<noteq> ''#''" "nd_parent cn = Some x" using wf_child [OF wf m(1)] m(3) c by metis
    then show ?thesis using grown_dom [OF g n] by metis
  qed
qed

lemma grown_lists:
  assumes wf: "tree_wf t" and g: "grown t i ds ch u" and n: "node_at t i = Some n" "nd_children_d n = []"
    and xn: "skel u x = Some xn" "x \<notin> set ch"
  shows "distinct (nd_children xn)" "distinct (nd_children_d xn)"
    "set (nd_children_d xn) = {y. \<exists>yn. skel u y = Some yn \<and> x \<in> set (nd_parents yn)}"
proof -
  obtain m where m: "node_at t x = Some m" and here: "x = i \<Longrightarrow> mset (nd_children xn) = mset ch \<and> nd_children_d xn = ch"
    and there: "x \<noteq> i \<Longrightarrow> nd_children xn = nd_children m \<and> nd_children_d xn = nd_children_d m @ (if x \<in> set (nd_parents n) then ch else [])"
    using grown_old [OF g n(1) xn] by metis
  have d: "distinct ch" and fresh: "c \<in> set ch \<Longrightarrow> node_at t c = None" for c using g by (simp_all add: grown_def)
  have ok: "node_ok (skel t) x (bare m)" by (rule wf_node [OF wf m])
  have b: "set (nd_children_d m) = {y. \<exists>yn. skel t y = Some yn \<and> x \<in> set (nd_parents yn)}"
    using ok by (simp only: node_ok_def bare_simps)
  have old: "distinct (nd_children m)" "distinct (nd_children_d m)" "set (nd_children_d m) \<inter> set ch = {}"
    using ok fresh by (auto simp only: node_ok_def bare_simps)
  have "distinct (nd_children xn) \<and> distinct (nd_children_d xn) \<and>
      set (nd_children_d xn) = {y. \<exists>yn. skel u y = Some yn \<and> x \<in> set (nd_parents yn)}"
  proof (cases "x = i")
    case True
    then have "{y. \<exists>yn. skel t y = Some yn \<and> x \<in> set (nd_parents yn)} = {}" using b m n by simp
    then show ?thesis unfolding grown_below [OF wf g n(1)] using here [OF True] True d mset_eq_imp_distinct_iff [of "nd_children xn" ch] by auto
  next
    case False
    show ?thesis unfolding grown_below [OF wf g n(1)] b [symmetric]
      using there [OF False] False old d by (cases "x \<in> set (nd_parents n)") simp_all
  qed
  then show "distinct (nd_children xn)" "distinct (nd_children_d xn)"
    "set (nd_children_d xn) = {y. \<exists>yn. skel u y = Some yn \<and> x \<in> set (nd_parents yn)}" by simp_all
qed

lemma grown_node_ok:
  assumes wf: "tree_wf t" and g: "grown t i ds ch u" and n: "node_at t i = Some n" "nd_children n = []" "nd_children_d n = []"
    and xn: "skel u x = Some xn"
  shows "node_ok (skel u) x xn"
proof (cases "x \<in> set ch")
  case True
  show ?thesis by (rule grown_new_ok [OF wf g n(1) xn True])
next
  case False
  obtain m where m: "node_at t x = Some m" "nd_parents xn = nd_parents m" "nd_parent xn = nd_parent m" "nd_id xn = nd_id m"
    using grown_old [OF g n(1) xn False] by metis
  have ok: "nd_id m = x" "x = ''#'' \<Longrightarrow> nd_parent m = None \<and> nd_parents m = []"
    using wf_node [OF wf m(1)] by (simp_all add: node_ok_def)
  show ?thesis
    using ok m grown_up [OF wf g n(1,2) m(1)] grown_kids [OF wf g n(1) xn False] grown_lists [OF wf g n(1,3) xn False]
    by (simp add: node_ok_def)
qed

lemma grown_wf:
  assumes "tree_wf t" "grown t i ds ch u" "node_at t i = Some n" "nd_children n = []" "nd_children_d n = []"
  shows "tree_wf u"
  unfolding tree_wf_def shape_def
proof (intro conjI allI impI)
  obtain r where "node_at t ''#'' = Some r" using wf_root [OF assms(1)] by auto
  then show "skel u ''#'' \<noteq> None" using grown_dom [OF assms(2,3)] by (metis option.distinct(1))
qed (use assms in \<open>auto simp: grown_def intro: grown_node_ok [OF assms]\<close>)

lemma rows_written:
  assumes wf: "tree_wf t" and n: "node_at t i = Some n" "nd_children n = []" "nd_children_d n = []"
    and pl: "\<forall>d\<in>set ds. plain_row d" and s: "\<And>x. node_at t0 x = node_at t x" "wf_obj (jt_data t0)" "jst.more t0 = jst.more t"
    and p: "parse_rows ds i (nd_parents n) t0 = (ch, dpc, t1)"
  shows "\<exists>u. bindM (atM i (\<lambda>n. n\<lparr>nd_children := ch, nd_children_d := dpc\<rparr>))
      (\<lambda>_. eachM (\<lambda>q. atM q (\<lambda>n. n\<lparr>nd_children_d := nd_children_d n @ dpc\<rparr>)) (nd_parents n)) t1 = Some (Ok (), u) \<and> grown t i ds ch u"
proof -
  have c: "dpc = ch" "distinct ch" "\<forall>c\<in>set ch. node_at t c = None" "wf_obj (jt_data t1)" "jst.more t1 = jst.more t"
    and rows: "list_all2 (\<lambda>d c. node_at t1 c = Some (row_node d c (i # nd_parents n))) ds ch"
    and old: "x \<notin> set ch \<Longrightarrow> node_at t1 x = node_at t x" for x
    using parse_rows_plain [OF pl p] s by auto
  have i: "i \<notin> set ch" using c(3) n(1) by auto
  let ?n = "n\<lparr>nd_children := ch, nd_children_d := ch\<rparr>" and ?t = "put_data (oset i (n\<lparr>nd_children := ch, nd_children_d := ch\<rparr>) (jt_data t1)) t1"
  have a: "atM i (\<lambda>n. n\<lparr>nd_children := ch, nd_children_d := ch\<rparr>) t1 = Some (Ok (), ?t)" using old [OF i] n(1) by (simp add: atM_def)
  have anc: "q \<notin> set ch \<and> q \<noteq> i \<and> node_at t q \<noteq> None" if "q \<in> set (nd_parents n)" for q
    using wf_ancestors [OF wf n(1) that] c(3) n(1) by auto
  have "\<forall>q\<in>set (nd_parents n). node_at ?t q \<noteq> None" using anc old by (simp add: put_data_def obj_simps)
  moreover have "distinct (nd_parents n)" using wf_distinct_parents [OF wf n(1)] by simp
  ultimately obtain u where u: "eachM (\<lambda>q. atM q (\<lambda>n. n\<lparr>nd_children_d := nd_children_d n @ ch\<rparr>)) (nd_parents n) ?t = Some (Ok (), u)"
      "map fst (jt_data u) = map fst (jt_data ?t)" "jst.more u = jst.more ?t"
      "\<And>x. node_at u x = map_option (\<lambda>m. if x \<in> set (nd_parents n) then m\<lparr>nd_children_d := nd_children_d m @ ch\<rparr> else m) (node_at ?t x)"
    using extend_ancestors [of "nd_parents n" ?t ch] by auto
  have b: "bare (m\<lparr>nd_children_d := nd_children_d m @ ch\<rparr>) = (bare m)\<lparr>nd_children_d := nd_children_d (bare m) @ ch\<rparr>" for m
    by (simp add: bare_def)
  have new: "node_at u x = node_at t1 x" if "x \<in> set ch" for x
    using that anc [of x] i u(4) [of x] by (cases "node_at t1 x") (auto simp: put_data_def obj_simps)
  have rows': "list_all2 (\<lambda>d c. skel u c = Some (bare (row_node d c (i # nd_parents n)))) ds ch"
    using rows new by (auto elim!: list.rel_mono_strong)
  have self: "skel u i = Some (bare ?n)" using u(4) [of i] anc [of i] by (auto simp: put_data_def obj_simps)
  have rest: "skel u x = map_option (\<lambda>m. if x \<in> set (nd_parents n) then m\<lparr>nd_children_d := nd_children_d m @ ch\<rparr> else m) (skel t x)"
    if "x \<notin> set ch" "x \<noteq> i" for x
    using u(4) [of x] old [OF that(1)] that(2) b by (auto simp: put_data_def obj_simps option.map_comp intro!: option.map_cong0)
  have "wf_obj (jt_data u)" using u(2) c(4) wf_obj_oset [of "jt_data t1" i ?n] by (simp add: wf_obj_def put_data_def)
  moreover have "jst.more u = jst.more t" using u(3) c(5) by (simp add: put_data_def)
  ultimately have "grown t i ds ch u"
    using c(2,3) n(1) self rows' rest unfolding grown_def by (intro conjI exI [of _ n] exI [of _ ch]) simp_all
  then show ?thesis using a u(1) c(1) by (simp add: bindM_def)
qed

lemma calm_redraw_changed:
  assumes "tree_wf t"
  shows "calm (if i \<noteq> ''#'' then bindM (modifyM (node_changed i)) (\<lambda>_. redraw False) else redraw True) t"
proof (cases "i = ''#''")
  case False
  have "calm (modifyM (node_changed i)) t" by (rule calm_modifyM) (simp add: node_changed_def)
  then have "calm (bindM (modifyM (node_changed i)) (\<lambda>_. redraw False)) t"
    by (rule calm_bindM) (use assms same_wf in \<open>blast intro: calm_redraw\<close>)
  then show ?thesis using False by simp
qed (simp add: calm_redraw assms)

lemma append_grows:
  assumes wf: "tree_wf t" and n: "node_at t i = Some n" "nd_children n = []" "nd_children_d n = []" and pl: "\<forall>d\<in>set ds. plain_row d"
  shows "\<exists>ch u. append_json_data i ds t = Some (Ok (), u) \<and> grown t i ds ch u"
proof -
  let ?t = "put_data (oset i n (jt_data t)) t"
  have e: "n\<lparr>nd_children := [], nd_children_d := []\<rparr> = n" using n(2,3) by (cases n) simp
  have a: "atM i (\<lambda>n. n\<lparr>nd_children := [], nd_children_d := []\<rparr>) t = Some (Ok (), ?t)" using n(1) e by (simp add: atM_def)
  have s: "node_at ?t x = node_at t x" "wf_obj (jt_data ?t)" "jst.more ?t = jst.more t" for x
    using n(1) wf by (auto simp: put_data_def obj_simps tree_wf_def)
  obtain ch dpc t1 where p: "parse_rows ds i (nd_parents n) ?t = (ch, dpc, t1)" by (cases "parse_rows ds i (nd_parents n) ?t") auto
  obtain u where u: "bindM (atM i (\<lambda>n. n\<lparr>nd_children := ch, nd_children_d := dpc\<rparr>))
      (\<lambda>_. eachM (\<lambda>q. atM q (\<lambda>n. n\<lparr>nd_children_d := nd_children_d n @ dpc\<rparr>)) (nd_parents n)) t1 = Some (Ok (), u)" "grown t i ds ch u"
    using rows_written [OF wf n pl s p] by blast
  have g: "grown t i ds ch (sort_node i True u)" by (rule sort_node_grown [OF u(2)])
  have "calm (if i \<noteq> ''#'' then bindM (modifyM (node_changed i)) (\<lambda>_. redraw False) else redraw True) (sort_node i True u)"
    by (rule calm_redraw_changed [OF grown_wf [OF wf g n]])
  then obtain v where v: "(if i \<noteq> ''#'' then bindM (modifyM (node_changed i)) (\<lambda>_. redraw False) else redraw True) (sort_node i True u) = Some (Ok (), v)"
    "same (sort_node i True u) v" by (auto simp: calm_def)
  obtain t2 where t2: "atM i (\<lambda>n. n\<lparr>nd_children := ch, nd_children_d := dpc\<rparr>) t1 = Some (Ok (), t2)"
    "eachM (\<lambda>q. atM q (\<lambda>n. n\<lparr>nd_children_d := nd_children_d n @ dpc\<rparr>)) (nd_parents n) t2 = Some (Ok (), u)"
    using u(1) by (rule bindM_OkE) auto
  have v': "i \<noteq> ''#'' \<Longrightarrow> redraw False (node_changed i (sort_node i True u)) = Some (Ok (), v)"
    "i = ''#'' \<Longrightarrow> redraw True (sort_node ''#'' True u) = Some (Ok (), v)"
    using v(1) by (simp_all add: bindM_Ok [of "modifyM f" for f, OF modifyM_eq])
  have "append_json_data i ds t = Some (Ok (), v)"
    unfolding append_json_data_def
    by (simp add: v' bindM_Ok [of "atM i g" for g, OF a] s(1) n(1) p bindM_Ok [of "atM i g" for g, OF t2(1)]
        bindM_Ok [of "eachM f xs" for f xs, OF t2(2)] bindM_Ok [of "modifyM f" for f, OF modifyM_eq])
  then show ?thesis using grown_same [OF g v(2)] by blast
qed

end
