(* ===== verification/Jstree_Invariants.thy ===== *)
theory Jstree_Invariants
  imports Jstree_Ops
begin

text \<open>
  Invariants of the tree widget. A property that the steps keep out of which the operations of
  src/files/jstree.js are made is kept by the operations, by restoring and by refreshing, also when
  something throws. The steps are the laws of locales: for drawing, the flag of open nodes, the
  elements of the document and the fields about them; for loading, writes to a node and rows that
  become nodes; for opening, the load of a node that is not loaded; for the whole widget, the other
  fields, marking a node as selected, and what the program does when a node is selected.
\<close>

section \<open>Drawing\<close>

lemma keeps_mapM_li: "(\<And>i. keeps P (f i)) \<Longrightarrow> keeps P (mapM_li f is)"
  by (induction "is") (auto simp: mapM_li_def)

locale draw_invariant =
  fixes P :: "'z jst_scheme \<Rightarrow> bool"
  assumes opened: "keeps P (atM i (set_flag (\<lambda>s. s\<lparr>st_opened := b\<rparr>)))"
    and drawn: "P t \<Longrightarrow> P (t\<lparr>jt_dom := ls\<rparr>)" "P t \<Longrightarrow> P (t\<lparr>jt_sliding := xs\<rparr>)" "P t \<Longrightarrow> P (t\<lparr>jt_timers := xs\<rparr>)"
      "P t \<Longrightarrow> P (t\<lparr>jt_full := b\<rparr>)" "P t \<Longrightarrow> P (t\<lparr>jt_changed := xs\<rparr>)"
begin

lemma dom_ops: "P t \<Longrightarrow> P (take_li_out i t)" "P t \<Longrightarrow> P (drop_ul i t)" "P t \<Longrightarrow> P (slide_end i t)"
  by (simp_all add: forget_def take_li_out_def drop_ul_def slide_end_def drawn split: option.split)

lemma finish_li_keeps: "keeps P (finish_li c at n i l)"
  unfolding finish_li_def by (intro keeps_bindM keeps_whenM keeps_modifyM opened keeps_retM) (simp_all add: drawn)

lemma redraw_li_keeps: "keeps P (redraw_li d deep is_callback i)"
proof (induction d arbitrary: deep is_callback i)
  case 0
  show ?case by (rule keepsI) simp
next
  case (Suc d)
  have m: "keeps P (mapM_li (redraw_li d b True) cs)" for b cs by (rule keeps_mapM_li) (rule Suc)
  have k: "keeps P (bindM (if x then mapM_li (redraw_li d b True) cs else retM [])
      (\<lambda>ls. if None \<in> set ls then throwM e else finish_li c at n i (f ls)))" for x b cs e c at n f
    by (rule keeps_bindM) (auto intro: m finish_li_keeps)
  show ?case
  proof (rule keepsI)
    fix t r u assume t: "P t" "redraw_li (Suc d) deep is_callback i t = Some (r, u)"
    from keepsD [OF k dom_ops(1) [OF t(1)]] show "P u" using t by (auto simp: Let_def split: option.splits if_splits)
  qed
qed

lemma redraw_full_keeps: "keeps P redraw_full"
proof (rule keepsI)
  fix t r u assume t: "P t" "redraw_full t = Some (r, u)"
  have k: "keeps P (bindM (mapM_li (redraw_li k True True) cs) (\<lambda>ls. modifyM (\<lambda>t. t\<lparr>jt_dom := f ls, jt_sliding := [], jt_full := False, jt_changed := []\<rparr>)))"
    for k cs f by (intro keeps_bindM keeps_mapM_li redraw_li_keeps keeps_modifyM) (simp add: drawn)
  show "P u" using t(2) unfolding redraw_full_def by (rule keepsD [OF k t(1)])
qed

lemma redraw_node_keeps: "keeps P (redraw_node i deep)"
proof (rule keepsI)
  fix t r u assume t: "P t" "redraw_node i deep t = Some (r, u)"
  have k: "keeps P (bindM (redraw_li k deep False i) (\<lambda>_. retM ()))" for k by (intro keeps_bindM redraw_li_keeps keeps_retM)
  from keepsD [OF redraw_full_keeps drawn(4) [OF t(1)]] keepsD [OF k t(1)] show "P u" using t(2) by (auto simp: redraw_node_def split: if_splits)
qed

lemma redraw_keeps: "keeps P (redraw full)"
proof (rule keepsI)
  fix t r u assume t: "P t" "redraw full t = Some (r, u)"
  have k: "keeps P (bindM (eachM (\<lambda>i. redraw_node i True) is) (\<lambda>_. modifyM (\<lambda>t. t\<lparr>jt_full := False, jt_changed := []\<rparr>)))" for "is"
    by (intro keeps_bindM keeps_eachM redraw_node_keeps keeps_modifyM) (simp add: drawn)
  from keepsD [OF redraw_full_keeps drawn(4) [OF t(1)]] keepsD [OF k t(1)] show "P u"
    using t(2) by (auto simp: redraw_def redraw_changed_def split: if_splits)
qed

end

section \<open>Loading\<close>

locale load_invariant = draw_invariant P for P :: "'z jst_scheme \<Rightarrow> bool" +
  assumes writes: "(\<And>n. st_selected (nd_state (f n)) = st_selected (nd_state n)) \<Longrightarrow> keeps P (atM i f)"
    and counts: "P t \<Longrightarrow> P (t\<lparr>jt_cnt := c\<rparr>)"
    and puts: "P t \<Longrightarrow> P (put_node d i ps ch cd lazy t)"
    and drops: "P t \<Longrightarrow> node_at t i = Some n \<Longrightarrow>
      P (t\<lparr>jt_sel := (if st_selected (nd_state n) then remove1 i (jt_sel t) else jt_sel t), jt_data := odel i (jt_data t)\<rparr>)"
begin

lemma parse_keeps:
  shows "parse_model_from_json d p ps t = (c, u) \<Longrightarrow> P t \<Longrightarrow> P u"
    and "parse_list ds p ps t = (ch, cd, v) \<Longrightarrow> P t \<Longrightarrow> P v"
proof (induction d p ps t and ds p ps t arbitrary: c u and ch cd v rule: parse_model_from_json_parse_list.induct)
  case (5 d ds p ps t)
  then show ?case by (auto split: prod.splits)
qed (auto simp: alloc_def Let_def puts counts split: prod.splits)

lemma parse_rows_keeps: "parse_rows ds p ps t = (ch, dpc, u) \<Longrightarrow> P t \<Longrightarrow> P u"
  by (induction ds arbitrary: t ch dpc) (auto split: prod.splits dest: parse_keeps(1))

lemma sort_node_keeps: "P t \<Longrightarrow> P (sort_node i deep t)"
proof -
  have c: "P (sort_children i t)" if "P t" for i t
  proof (cases "node_at t i")
    case (Some n)
    have "keeps P (atM i (\<lambda>n. n\<lparr>nd_children := array_sort (text_gt t) (nd_children n)\<rparr>))" by (rule writes) simp
    from keepsD [OF this that] show ?thesis using Some by (simp add: sort_children_def atM_def)
  qed (simp add: sort_children_def that)
  then have "P t \<Longrightarrow> P (fold sort_children xs t)" for xs t by (induction xs arbitrary: t) simp_all
  then show "P t \<Longrightarrow> ?thesis" by (simp add: sort_node_def Let_def c split: option.split)
qed

lemma append_keeps: "keeps P (append_json_data i ds)"
proof -
  have k: "keeps P (bindM (atM i (\<lambda>n. n\<lparr>nd_children := chd, nd_children_d := dpc\<rparr>)) (\<lambda>_.
      bindM (eachM (\<lambda>q. atM q (\<lambda>n. n\<lparr>nd_children_d := nd_children_d n @ dpc\<rparr>)) ps) (\<lambda>_.
      bindM (modifyM (sort_node i True)) (\<lambda>_.
      if i \<noteq> ''#'' then bindM (modifyM (node_changed i)) (\<lambda>_. redraw False) else redraw True))))" for chd dpc ps
    by (auto intro!: keeps_bindM keeps_eachM writes keeps_modifyM sort_node_keeps redraw_keeps drawn(5) simp: node_changed_def)
  show ?thesis
    unfolding append_json_data_def
  proof (intro keeps_bindM writes)
    fix x
    let ?rest = "\<lambda>t. let ps = (case node_at t i of None \<Rightarrow> [] | Some p \<Rightarrow> nd_parents p)
       in case parse_rows ds i ps t of (chd, dpc, t1) \<Rightarrow>
            bindM (atM i (\<lambda>n. n\<lparr>nd_children := chd, nd_children_d := dpc\<rparr>)) (\<lambda>_.
            bindM (eachM (\<lambda>q. atM q (\<lambda>n. n\<lparr>nd_children_d := nd_children_d n @ dpc\<rparr>)) ps) (\<lambda>_.
            bindM (modifyM (sort_node i True)) (\<lambda>_.
            if i \<noteq> ''#'' then bindM (modifyM (node_changed i)) (\<lambda>_. redraw False) else redraw True))) t1"
    show "keeps P ?rest"
    proof (rule keepsI)
      fix t r u assume t: "P t" "?rest t = Some (r, u)"
      obtain chd dpc t1 where p: "parse_rows ds i (case node_at t i of None \<Rightarrow> [] | Some p \<Rightarrow> nd_parents p) t = (chd, dpc, t1)"
        by (cases "parse_rows ds i (case node_at t i of None \<Rightarrow> [] | Some p \<Rightarrow> nd_parents p) t") auto
      show "P u" using t(2) p keepsD [OF k parse_rows_keeps [OF p t(1)]] by (simp add: Let_def)
    qed
  qed simp
qed

lemma unload_keeps: "keeps P (unload i n)"
proof -
  have "keeps P (unload_one ps k)" for ps k
    unfolding unload_one_def
  proof (intro keeps_bindM keeps_eachM writes keepsI)
    fix t r u
    assume t: "P t" and m: "(case node_at t k of None \<Rightarrow> throwM (TypeError ''state of undefined'') t
        | Some n \<Rightarrow> retM () (t\<lparr>jt_sel := (if st_selected (nd_state n) then remove1 k (jt_sel t) else jt_sel t), jt_data := odel k (jt_data t)\<rparr>)) = Some (r, u)"
    show "P u" using t m drops [OF t] by (cases "node_at t k") auto
  qed simp
  then show ?thesis unfolding unload_def by (intro keeps_bindM keeps_eachM writes) simp_all
qed

lemma load_with_keeps:
  assumes "\<And>b. keeps P (on_load i b)" "\<And>b. keeps P (callback i b)"
  shows "keeps P (load_node_with on_load E callback i)"
proof -
  have d: "keeps P (load_done on_load callback i b)" for b
    unfolding load_done_def by (intro keeps_bindM writes assms) simp
  let ?ask = "\<lambda>t1. case je_data E i t1 of Throw e \<Rightarrow> throwM e t1 | Ok None \<Rightarrow> load_done on_load callback i False t1
            | Ok (Some dat) \<Rightarrow> bindM (append_json_data i dat) (\<lambda>_. load_done on_load callback i True) t1"
  have ask: "keeps P ?ask"
  proof (rule keepsI)
    fix t r u assume t: "P t" "?ask t = Some (r, u)"
    have "keeps P (bindM (append_json_data i dat) (\<lambda>_. load_done on_load callback i True))" for dat
      by (intro keeps_bindM append_keeps d)
    from keepsD [OF this t(1)] keepsD [OF d t(1)] show "P u" using t by (auto split: outcome.splits option.splits)
  qed
  have k: "keeps P (bindM (whenM x (unload i n)) (\<lambda>_. bindM (atM i (set_flag (\<lambda>s. s\<lparr>st_loading := True\<rparr>))) (\<lambda>_. ?ask)))" for x n
    by (intro keeps_bindM keeps_whenM unload_keeps writes ask) simp
  show ?thesis
  proof (rule keepsI)
    fix t r u assume t: "P t" "load_node_with on_load E callback i t = Some (r, u)"
    show "P u"
    proof (cases "node_at t i")
      case None
      then show ?thesis using t keepsD [OF assms(2) t(1)] by (simp add: load_node_with_def)
    next
      case (Some n)
      then show ?thesis using t(2) keepsD [OF k t(1)] by (simp add: load_node_with_def)
    qed
  qed
qed

end

locale open_invariant = draw_invariant P for P :: "'z jst_scheme \<Rightarrow> bool" +
  fixes E :: "'z jst_scheme jst_env"
  assumes started: "P t \<Longrightarrow> P (t\<lparr>jt_loaded := True\<rparr>)" "P t \<Longrightarrow> P (t\<lparr>jt_ready := True\<rparr>)"
    and loads: "P t \<Longrightarrow> \<not> is_loaded t i \<Longrightarrow> (\<And>b. keeps P (on_load i b)) \<Longrightarrow> (\<And>b. keeps P (callback i b)) \<Longrightarrow>
      load_node_with on_load E callback i t = Some (r, u) \<Longrightarrow> P u"
begin

section \<open>Opening and closing\<close>

lemma close_node_keeps: "keeps P (close_node animation i)"
proof (rule keepsI)
  fix t r u assume t: "P t" "close_node animation i t = Some (r, u)"
  let ?f = "\<lambda>t. case find_li i (jt_dom t) of None \<Rightarrow> t
      | Some l \<Rightarrow> if \<not> animation then drop_ul i t else if li_ul l = [] then t
          else if i \<in> set (jt_sliding t) then slide_end i t else t\<lparr>jt_sliding := jt_sliding t @ [i]\<rparr>"
  have "P (?f w)" if "P w" for w using that by (simp add: dom_ops drawn split: option.split)
  then have "keeps P (bindM (modifyM ?f) (\<lambda>_. atM i (set_flag (\<lambda>s. s\<lparr>st_opened := False\<rparr>))))"
    by (intro keeps_bindM keeps_modifyM opened)
  from keepsD [OF this t(1)] show "P u" using t by (auto simp: close_node_def split: if_splits)
qed

lemma open_loaded_keeps:
  assumes "keeps P (callback i True)"
  shows "keeps P (open_loaded animation callback i)"
proof -
  have a: "keeps P (bindM (whenM b (bindM (atM i (set_flag (\<lambda>s. s\<lparr>st_opened := True\<rparr>))) (\<lambda>_. redraw_node i True)))
      (\<lambda>_. whenM animation (modifyM (slide_end i))))" for b
    by (intro keeps_bindM keeps_whenM opened redraw_node_keeps keeps_modifyM dom_ops(3))
  let ?show = "\<lambda>t. case find_li i (jt_dom t) of
          None \<Rightarrow> retM () t
        | Some l \<Rightarrow>
            bindM (whenM (with_node i (\<lambda>n. nd_children n \<noteq> []) t \<and> li_ul l = [])
                     (bindM (atM i (set_flag (\<lambda>s. s\<lparr>st_opened := True\<rparr>))) (\<lambda>_. redraw_node i True)))
              (\<lambda>_. whenM animation (modifyM (slide_end i))) t"
  have "keeps P ?show"
  proof (rule keepsI)
    fix t r u assume "P t" "?show t = Some (r, u)"
    then show "P u" using keepsD [OF a] by (cases "find_li i (jt_dom t)") auto
  qed
  then show ?thesis unfolding open_loaded_def using assms by (intro keeps_bindM opened)
qed

lemma open_again_keeps:
  assumes "\<And>b. keeps P (callback i b)"
  shows "keeps P (open_again animation callback i)"
proof (rule keepsI)
  fix t r u assume t: "P t" "open_again animation callback i t = Some (r, u)"
  have o: "keeps P (open_loaded animation callback i)" by (rule open_loaded_keeps) (rule assms)
  show "P u" using t keepsD [OF assms t(1)] keepsD [OF o t(1)] by (auto simp: open_again_def split: if_splits)
qed

lemma open_node_with_keeps:
  assumes "\<And>b. keeps P (on_load i b)" "\<And>b. keeps P (callback i b)"
  shows "keeps P (open_node_with on_load E animation callback i)"
proof (rule keepsI)
  fix t r u assume t: "P t" "open_node_with on_load E animation callback i t = Some (r, u)"
  let ?cb = "\<lambda>o' ok. if ok then open_again animation callback o' else callback o' False"
  have cb: "keeps P (?cb i b)" for b using open_again_keeps [of callback i animation] assms(2) by simp
  have o: "keeps P (open_loaded animation callback i)" by (rule open_loaded_keeps) (rule assms(2))
  show "P u"
  proof (cases "node_at t i = None \<or> i = ''#'' \<or> \<not> is_closed t i \<or> is_loaded t i")
    case True
    then show ?thesis
      using t keepsD [OF assms(2) t(1)] keepsD [OF o t(1)] by (simp add: open_node_with_def split: if_splits)
  next
    case False
    then show ?thesis
      using t drawn(3) [OF t(1)] loads [of t i on_load ?cb r u] assms(1) cb by (simp add: open_node_with_def split: if_splits) blast
  qed
qed

lemma first_load_keeps: "keeps P (first_load i b)"
  unfolding first_load_def by (intro keeps_whenM keeps_modifyM started(1))

lemma on_load_keeps: "keeps P (on_load_node E i b)"
proof -
  have "keeps P (open_node_with first_load E False no_callback j)" for j
    by (rule open_node_with_keeps) (auto intro: first_load_keeps)
  then have o: "keeps P (eachM (open_node_with first_load E False no_callback) js)" for js by blast
  let ?all = "\<lambda>t. case parents_of (jt_sel t) t of
      Throw e \<Rightarrow> throwM e t | Ok ps \<Rightarrow> eachM (open_node_with first_load E False no_callback) (array_unique ps) t"
  have "keeps P ?all"
  proof (rule keepsI)
    fix t r u assume "P t" "?all t = Some (r, u)"
    then show "P u" using keepsD [OF o] by (cases "parents_of (jt_sel t) t") auto
  qed
  then have "keeps P (bindM (modifyM (\<lambda>t. t\<lparr>jt_ready := True\<rparr>)) (\<lambda>_. ?all))"
    by (intro keeps_bindM keeps_modifyM started(2))
  then have k: "keeps P (whenM c (bindM (modifyM (\<lambda>t. t\<lparr>jt_ready := True\<rparr>)) (\<lambda>_. ?all)))" for c by (rule keeps_whenM)
  have "keeps P (\<lambda>t. whenM (b \<and> \<not> jt_ready t) (bindM (modifyM (\<lambda>t. t\<lparr>jt_ready := True\<rparr>)) (\<lambda>_. ?all)) t)"
    by (rule keeps_read) (rule k)
  then show ?thesis unfolding on_load_node_def by (intro keeps_bindM first_load_keeps)
qed

lemma open_node_keeps:
  assumes "\<And>b. keeps P (callback i b)"
  shows "keeps P (open_node E animation callback i)"
  unfolding open_node_def by (rule open_node_with_keeps) (simp_all add: assms on_load_keeps)

lemma open_silently_keeps: "keeps P (open_node E animation no_callback i)"
  by (rule open_node_keeps) auto

lemma open_to_keeps: "keeps P (open_to E i)"
proof (rule keepsI)
  fix t r u assume t: "P t" "open_to E i t = Some (r, u)"
  have "keeps P (eachM (open_node E False no_callback) js)" for js using open_silently_keeps by blast
  from keepsD [OF this t(1)] show "P u" using t by (auto simp: open_to_def split: option.splits if_splits)
qed

lemma toggle_node_keeps: "keeps P (toggle_node E i)"
proof (rule keepsI)
  fix t r u assume t: "P t" "toggle_node E i t = Some (r, u)"
  from keepsD [OF open_silently_keeps t(1)] keepsD [OF close_node_keeps t(1)] show "P u" using t by (auto simp: toggle_node_def split: if_splits)
qed

lemma timer_keeps: "keeps P (timer_opens E)"
proof (rule keepsI)
  fix t r u assume t: "P t" "timer_opens E t = Some (r, u)"
  show "P u" using t keepsD [OF open_silently_keeps drawn(3) [OF t(1)]] by (auto simp: timer_opens_def split: list.splits)
qed

end

section \<open>Selecting\<close>

locale widget_invariant = open_invariant P E for P :: "'z jst_scheme \<Rightarrow> bool" and E :: "'z jst_scheme jst_env" +
  assumes field: "P t \<Longrightarrow> P (t\<lparr>jt_clicked := c\<rparr>)" "P t \<Longrightarrow> P (t\<lparr>jt_restore := rs\<rparr>)"
    and marks: "P t \<Longrightarrow> node_at t i = Some n \<Longrightarrow>
      P (put_data (oset i (set_flag (\<lambda>s. s\<lparr>st_selected := True\<rparr>) n) (jt_data t)) t\<lparr>jt_sel := jt_sel t @ [i]\<rparr>)"
    and unmarks: "keeps P (deselect_node i)" "P t \<Longrightarrow> P (deselect_all t)"
    and restarts: "P t \<Longrightarrow> P (t\<lparr>jt_cnt := 0, jt_data := [(''#'', root_node)], jt_dom := [], jt_sliding := []\<rparr>)"
    and selects: "keeps P (je_select E i)"
begin

lemma select_node_keeps: "keeps P (select_node E prevent_open i)"
proof (rule keepsI)
  fix t r u assume t: "P t" "select_node E prevent_open i t = Some (r, u)"
  have k: "keeps P (bindM (whenM (\<not> prevent_open) (open_to E i)) (\<lambda>_. je_select E i))"
    by (intro keeps_bindM keeps_whenM open_to_keeps selects)
  show "P u"
  proof (cases "i \<noteq> ''#'' \<and> with_node i (\<lambda>n. \<not> st_selected (nd_state n)) t")
    case True
    then obtain n where n: "node_at t i = Some n" by (cases "node_at t i") (auto simp: with_node_def)
    have "bindM (whenM (\<not> prevent_open) (open_to E i)) (\<lambda>_. je_select E i)
        (put_data (oset i (set_flag (\<lambda>s. s\<lparr>st_selected := True\<rparr>) n) (jt_data t)) t\<lparr>jt_sel := jt_sel t @ [i]\<rparr>) = Some (r, u)"
      using t(2) True n by (simp add: select_node_def atM_def bindM_def put_data_def)
    then show ?thesis by (rule keepsD [OF k marks [OF t(1) n]])
  next
    case False
    then show ?thesis using t by (simp add: select_node_def split: if_splits)
  qed
qed

lemma select_range_keeps: "keeps P (select_range E o' l c ps)"
proof (induction ps arbitrary: c)
  case (Cons p ps)
  then show ?case using select_node_keeps [of False p] unmarks(1) [of p] by (auto simp: Let_def)
qed auto

lemma activate_node_keeps: "keeps P (activate_node E e i)"
proof (rule keepsI)
  fix t r u assume t: "P t" "activate_node E e i t = Some (r, u)"
  have c: "P (refresh_clicked t)" by (simp add: refresh_clicked_def Let_def field(1) t(1))
  have s: "keeps P (bindM (select_node E False i) (\<lambda>_. modifyM (\<lambda>t. t\<lparr>jt_clicked := (if node_at t i = None then None else Some i)\<rparr>)))"
    by (intro keeps_bindM select_node_keeps keeps_modifyM field(1))
  note keepsD [OF s unmarks(2) [OF c]] keepsD [OF select_node_keeps c] keepsD [OF unmarks(1) c] keepsD [OF select_range_keeps c]
  then show "P u" using t c by (auto simp: activate_node_def Let_def split: if_splits option.splits prod.splits)
qed

lemma keydown_keeps: "keeps P (keydown E e which i)"
proof (rule keepsI)
  fix t r u assume t: "P t" "keydown E e which i t = Some (r, u)"
  from keepsD [OF open_silently_keeps t(1)] keepsD [OF close_node_keeps t(1)] keepsD [OF activate_node_keeps t(1)]
  show "P u" using t by (auto simp: keydown_def split: if_splits)
qed

section \<open>Restoring\<close>

lemma drop_open_keeps: "keeps P (modifyM (drop_open i))"
  by (rule keeps_modifyM) (simp add: drop_open_def Let_def field(2))

lemma restore_open_keeps:
  assumes "\<And>b. keeps P (callback i b)"
  shows "keeps P (restore_open E callback i)"
proof (rule keepsI)
  fix t r u assume t: "P t" "restore_open E callback i t = Some (r, u)"
  have c: "keeps P (bindM (whenM x (open_node E False no_callback i)) (\<lambda>_. bindM (modifyM (drop_open i)) (\<lambda>_. retM True)))" for x
    by (intro keeps_bindM keeps_whenM open_silently_keeps drop_open_keeps keeps_retM)
  have d: "keeps P (bindM (whenM x (open_node E False callback i)) (\<lambda>_. retM False))" for x
    by (intro keeps_bindM keeps_whenM open_node_keeps assms keeps_retM)
  show "P u" using t keepsD [OF c t(1)] keepsD [OF d t(1)] by (auto simp: restore_open_def split: if_splits)
qed

lemma restore_each_keeps: "(\<And>i. keeps Q (f i)) \<Longrightarrow> keeps Q (restore_each f is)"
  by (induction "is") auto

lemma restore_selected_keeps:
  assumes "keeps P callback"
  shows "keeps P (restore_selected E callback)"
proof (rule keepsI)
  fix t r u assume t: "P t" "restore_selected E callback t = Some (r, u)"
  have s: "keeps P (eachM (select_node E False) sel)" for sel using select_node_keeps by blast
  have "keeps P (bindM (case x of None \<Rightarrow> retM () | Some sel \<Rightarrow>
      bindM (modifyM deselect_all) (\<lambda>_. bindM (eachM (select_node E False) sel) (\<lambda>_.
        modifyM (\<lambda>t. t\<lparr>jt_restore := (jt_restore t)\<lparr>rs_selected := None\<rparr>\<rparr>))))
      (\<lambda>_. bindM (modifyM (\<lambda>t. t\<lparr>jt_restore := (jt_restore t)\<lparr>rs_core := False\<rparr>\<rparr>)) (\<lambda>_. callback)))" for x
    by (cases x) (auto intro!: keeps_bindM s keeps_modifyM unmarks(2) field(2) assms)
  from keepsD [OF this t(1)] show "P u" using t(2) unfolding restore_selected_def .
qed

lemma set_state_keeps:
  assumes "keeps P callback"
  shows "keeps P (set_state d E callback)"
proof (induction d)
  case 0
  show ?case by (rule keepsI) simp
next
  case (Suc d)
  let ?cb = "\<lambda>o' s. bindM (whenM (\<not> s) (modifyM (drop_open o'))) (\<lambda>_. set_state d E callback)"
  have rs: "keeps P (restore_selected E callback)" by (rule restore_selected_keeps [OF assms])
  have "keeps P (?cb i b)" for i b by (intro keeps_bindM keeps_whenM drop_open_keeps Suc)
  then have "keeps P (restore_each (restore_open E ?cb) op)" for op by (intro restore_each_keeps restore_open_keeps)
  then have o: "keeps P (bindM (restore_each (restore_open E ?cb) op)
      (\<lambda>res. if res then bindM (modifyM (\<lambda>t. t\<lparr>jt_restore := (jt_restore t)\<lparr>rs_open := None\<rparr>\<rparr>)) (\<lambda>_. restore_selected E callback) else retM ()))" for op
    by (rule keeps_bindM) (auto intro!: keeps_bindM keeps_modifyM field(2) rs)
  show ?case
  proof (rule keepsI)
    fix t r u assume t: "P t" "set_state (Suc d) E callback t = Some (r, u)"
    show "P u" using t keepsD [OF o t(1)] keepsD [OF rs t(1)] keepsD [OF assms t(1)]
      by (auto simp: bindM_def split: if_splits option.splits)
  qed
qed

lemma load_root_keeps:
  assumes "\<And>b. keeps P (callback ''#'' b)" "jt_data t = [(''#'', root_node)]" "P t" "load_node E callback ''#'' t = Some (r, u)"
  shows "P u"
proof -
  have "\<not> is_loaded t ''#''" using assms(2) by (simp add: is_loaded_def with_node_def oget_def root_node_def no_state_def)
  then show ?thesis using loads [of t "''#''" "on_load_node E" callback r u] on_load_keeps assms by (simp add: load_node_def)
qed

lemma refresh_keeps: "keeps P (refresh_tree E)"
proof (rule keepsI)
  fix t r u assume t: "P t" "refresh_tree E t = Some (r, u)"
  have "keeps P (whenM s (bindM (modifyM (\<lambda>t. t\<lparr>jt_restore := x\<rparr>)) (\<lambda>_. set_state d E (retM ()))))" for s x d
    by (intro keeps_whenM keeps_bindM keeps_modifyM field(2) set_state_keeps keeps_retM)
  then show "P u" using t restarts [OF t(1)] unfolding refresh_tree_def Let_def by (elim load_root_keeps [rotated 3]) simp_all
qed

lemma init_keeps: "jt_data t = [(''#'', root_node)] \<Longrightarrow> P t \<Longrightarrow> init_tree E t = Some (r, u) \<Longrightarrow> P u"
  using load_root_keeps [of no_callback] by (auto simp: init_tree_def)

end

end
