(* ===== verification/Jstree_Props.thy ===== *)
theory Jstree_Props
  imports Jstree_Rows Jstree_Invariants
begin

text \<open>
  The tree widget and the function that gives it its rows. The contract of that function is a
  locale: for every path of texts from the root that it knows it gives rows, always the same.
  Then whatever is loaded, opened, closed, selected and refreshed, the table keeps its shape, and
  the children of a loaded node are the rows of its path.
\<close>

section \<open>Paths of texts\<close>

definition id_path :: "'z jst_scheme \<Rightarrow> string \<Rightarrow> string list" where
  "id_path t i = (case node_at t i of None \<Rightarrow> [] | Some n \<Rightarrow> drop 1 (rev (nd_parents n) @ [i]))"

definition text_at :: "'z jst_scheme \<Rightarrow> string \<Rightarrow> string" where
  "text_at t i = (case node_at t i of None \<Rightarrow> [] | Some n \<Rightarrow> nd_text n)"

definition text_path :: "'z jst_scheme \<Rightarrow> string \<Rightarrow> string list" where
  "text_path t i = map (text_at t) (id_path t i)"

definition node_row :: "'z jst_scheme \<Rightarrow> string \<Rightarrow> string \<times> string option jsobj" where
  "node_row t i = (case node_at t i of None \<Rightarrow> ([], []) | Some n \<Rightarrow> (nd_text n, nd_a_attr n))"

definition data_row :: "jdata \<Rightarrow> string \<times> string option jsobj" where
  "data_row d = (row_text d, row_attr d)"

lemma text_path_root: "tree_wf t \<Longrightarrow> text_path t ''#'' = []"
  using wf_root [of t] wf_node [of t "''#''"] by (auto simp: text_path_def id_path_def node_ok_def)

lemma text_path_child:
  assumes "node_at t i = Some n" "node_at t c = Some cn" "nd_parents cn = i # nd_parents n"
  shows "text_path t c = text_path t i @ [nd_text cn]"
proof -
  have "drop 1 (xs @ [c]) = drop 1 xs @ [c]" if "xs \<noteq> []" for xs :: "string list" using that by (cases xs) simp_all
  from this [of "rev (nd_parents n) @ [i]"] show ?thesis using assms by (simp add: text_path_def id_path_def text_at_def)
qed

lemma id_path_nodes:
  assumes "tree_wf t" "x \<in> set (id_path t i)"
  shows "node_at t x \<noteq> None"
proof -
  obtain n where n: "node_at t i = Some n" using assms(2) by (cases "node_at t i") (auto simp: id_path_def)
  then have "x \<in> set (i # nd_parents n)" using assms(2) set_drop_subset [of 1 "rev (nd_parents n) @ [i]"] by (auto simp: id_path_def)
  then show ?thesis using wf_ancestors [OF assms(1) n] n by auto
qed

text \<open>Two tables agree on the nodes of the first.\<close>

definition grows_to :: "'z jst_scheme \<Rightarrow> 'z jst_scheme \<Rightarrow> bool" where
  "grows_to t u \<longleftrightarrow>
     (\<forall>i n. node_at t i = Some n \<longrightarrow>
       (\<exists>m. node_at u i = Some m \<and> nd_text m = nd_text n \<and> nd_parents m = nd_parents n \<and> nd_a_attr m = nd_a_attr n))"

lemma extendsD:
  assumes "grows_to t u" "node_at t i = Some n"
  obtains m where "node_at u i = Some m" "nd_text m = nd_text n" "nd_parents m = nd_parents n" "nd_a_attr m = nd_a_attr n"
  using assms by (auto simp: grows_to_def)

lemma extends_path:
  assumes "tree_wf t" "grows_to t u" "node_at t i \<noteq> None"
  shows "text_path u i = text_path t i"
proof -
  have "text_at u x = text_at t x" if x: "x \<in> set (id_path t i)" for x
  proof -
    obtain n where n: "node_at t x = Some n" using id_path_nodes [OF assms(1) x] by auto
    obtain m where "node_at u x = Some m" "nd_text m = nd_text n" using extendsD [OF assms(2) n] .
    then show ?thesis using n by (simp add: text_at_def)
  qed
  moreover have "id_path u i = id_path t i" using assms(2,3) by (auto simp: id_path_def elim!: extendsD)
  ultimately show ?thesis by (simp add: text_path_def)
qed

lemma extends_row: "grows_to t u \<Longrightarrow> node_at t i \<noteq> None \<Longrightarrow> node_row u i = node_row t i"
  by (auto simp: node_row_def elim!: extendsD)

lemma same_extends: "same t u \<Longrightarrow> grows_to t u"
  unfolding grows_to_def by (metis same_node bare_fields(2,4,7))

lemma grows_trans: "grows_to t u \<Longrightarrow> grows_to u v \<Longrightarrow> grows_to t v"
  unfolding grows_to_def by metis

lemma grows_refl [simp]: "grows_to t t"
  by (simp add: grows_to_def)

section \<open>A load\<close>

text \<open>Setting flags of a node changes neither the shape nor the paths.\<close>

lemma shape_cong:
  assumes "\<And>x. map_option (\<lambda>n. (nd_id n, nd_parent n, nd_parents n, nd_children n, nd_children_d n)) (s' x) =
      map_option (\<lambda>n. (nd_id n, nd_parent n, nd_parents n, nd_children n, nd_children_d n)) (s x)" "shape s"
  shows "shape s'"
proof -
  have fwd: "\<exists>m. s x = Some m \<and> nd_id m = nd_id n \<and> nd_parent m = nd_parent n \<and> nd_parents m = nd_parents n \<and>
      nd_children m = nd_children n \<and> nd_children_d m = nd_children_d n" if "s' x = Some n" for x n
    using assms(1) [of x] that by (cases "s x") auto
  have bwd: "\<exists>m. s' x = Some m \<and> nd_id m = nd_id n \<and> nd_parent m = nd_parent n \<and> nd_parents m = nd_parents n \<and>
      nd_children m = nd_children n \<and> nd_children_d m = nd_children_d n" if "s x = Some n" for x n
    using assms(1) [of x] that by (cases "s' x") auto
  have below: "{y. \<exists>yn. s' y = Some yn \<and> a \<in> set (nd_parents yn)} = {y. \<exists>yn. s y = Some yn \<and> a \<in> set (nd_parents yn)}" for a
    using fwd bwd by (metis (no_types, opaque_lifting))
  have "node_ok s' x n" if n: "s' x = Some n" for x n
  proof -
    obtain m where m: "s x = Some m" "nd_id m = nd_id n" "nd_parent m = nd_parent n" "nd_parents m = nd_parents n"
      "nd_children m = nd_children n" "nd_children_d m = nd_children_d n" using fwd [OF n] by blast
    have ok: "node_ok s x m" using assms(2) m(1) by (rule shape_node)
    have up: "if x = ''#'' then nd_parent n = None \<and> nd_parents n = []
        else \<exists>p pn. nd_parent n = Some p \<and> s' p = Some pn \<and> nd_parents n = p # nd_parents pn \<and> x \<in> set (nd_children pn)"
      using ok m bwd unfolding node_ok_def by (metis (no_types, opaque_lifting))
    have "\<forall>c\<in>set (nd_children n). \<exists>cn. s' c = Some cn \<and> c \<noteq> ''#'' \<and> nd_parent cn = Some x"
      using ok m bwd unfolding node_ok_def by (metis (no_types, opaque_lifting))
    then show ?thesis using ok m up unfolding node_ok_def below by simp
  qed
  moreover have "s' ''#'' \<noteq> None" using assms(2) bwd unfolding shape_def by (metis option.distinct(1) not_None_eq)
  ultimately show ?thesis by (simp add: shape_def)
qed

lemma flag_wf:
  assumes "tree_wf t" "node_at t i = Some n"
  shows "tree_wf (put_data (oset i (set_flag f n) (jt_data t)) t)"
proof -
  have "shape (\<lambda>x. map_option bare (oget (oset i (set_flag f n) (jt_data t)) x))"
    by (rule shape_cong [of _ "skel t"]) (use assms in \<open>auto simp: tree_wf_def obj_simps option.map_comp comp_def\<close>)
  then show ?thesis using assms by (simp add: tree_wf_def put_data_def)
qed

lemma flag_extends:
  assumes "node_at t i = Some n"
  shows "grows_to t (put_data (oset i (set_flag f n) (jt_data t)) t)"
  using assms by (simp add: grows_to_def put_data_def obj_simps)

lemma grown_extends:
  assumes "grown t i ds ch u"
  shows "grows_to t u"
  unfolding grows_to_def
proof (intro allI impI)
  fix x m assume m: "node_at t x = Some m"
  obtain n ch' where n: "node_at t i = Some n" "skel u i = Some (bare (n\<lparr>nd_children := ch', nd_children_d := ch\<rparr>))"
    using assms by (auto simp: grown_def)
  have x: "x \<notin> set ch" using assms m by (auto simp: grown_def)
  show "\<exists>k. node_at u x = Some k \<and> nd_text k = nd_text m \<and> nd_parents k = nd_parents m \<and> nd_a_attr k = nd_a_attr m"
  proof (cases "x = i")
    case True
    then obtain k where k: "node_at u x = Some k" "bare k = bare (n\<lparr>nd_children := ch', nd_children_d := ch\<rparr>)" using n(2) by auto
    then show ?thesis using bare_fields(2,4,7) [OF k(2)] True n(1) m by simp
  next
    case False
    then have "skel u x = map_option (\<lambda>m. if x \<in> set (nd_parents n) then m\<lparr>nd_children_d := nd_children_d m @ ch\<rparr> else m) (skel t x)"
      using assms n(1) x by (auto simp only: grown_def option.inject)
    then obtain k where k: "node_at u x = Some k" "bare k = (if x \<in> set (nd_parents n) then (bare m)\<lparr>nd_children_d := nd_children_d (bare m) @ ch\<rparr> else bare m)"
      using m by auto
    have "nd_text (bare k) = nd_text m \<and> nd_parents (bare k) = nd_parents m \<and> nd_a_attr (bare k) = nd_a_attr m" by (simp add: k(2))
    then show ?thesis using k(1) by simp
  qed
qed

lemma grown_loaded:
  assumes "grown t i ds ch u" "node_at t i = Some n" "node_at t x = Some m" "x \<noteq> i" "node_at u x = Some k"
  shows "st_loaded (nd_state k) = st_loaded (nd_state m) \<and> st_disabled (nd_state k) = st_disabled (nd_state m) \<and> nd_children k = nd_children m \<and> (nd_children_d m = [] \<longrightarrow> x \<notin> set (nd_parents n) \<longrightarrow> nd_children_d k = [])"
proof -
  have x: "x \<notin> set ch" using assms(1,3) by (auto simp: grown_def)
  have "skel u x = map_option (\<lambda>m. if x \<in> set (nd_parents n) then m\<lparr>nd_children_d := nd_children_d m @ ch\<rparr> else m) (skel t x)"
    using assms(1,2,4) x by (auto simp only: grown_def option.inject)
  then have k: "bare k = (if x \<in> set (nd_parents n) then (bare m)\<lparr>nd_children_d := nd_children_d (bare m) @ ch\<rparr> else bare m)"
    using assms(3,5) by auto
  have "st_loaded (nd_state (bare k)) = st_loaded (nd_state m) \<and> st_disabled (nd_state (bare k)) = st_disabled (nd_state m) \<and> nd_children (bare k) = nd_children m \<and>
      (nd_children_d m = [] \<longrightarrow> x \<notin> set (nd_parents n) \<longrightarrow> nd_children_d (bare k) = [])" by (simp add: k)
  then show ?thesis by simp
qed

lemma grown_enabled:
  assumes "grown t i ds ch u" "node_at t i = Some n" "node_at u i = Some k"
  shows "st_disabled (nd_state k) = st_disabled (nd_state n)"
proof -
  obtain ch' where "bare k = bare (n\<lparr>nd_children := ch', nd_children_d := ch\<rparr>)" using assms by (auto simp: grown_def)
  from bare_fields(9) [OF this] show ?thesis by simp
qed

lemma grown_row:
  assumes "grown t i ds ch u" "node_at t i = Some n" "c \<in> set ch"
  obtains d k where "d \<in> set ds" "node_at u c = Some k" "bare k = bare (row_node d c (i # nd_parents n))"
proof -
  have l: "list_all2 (\<lambda>d c. skel u c = Some (bare (row_node d c (i # nd_parents n)))) ds ch"
    using assms(1,2) by (auto simp only: grown_def option.inject)
  obtain k where k: "k < length ch" "ch ! k = c" using assms(3) by (auto simp: in_set_conv_nth)
  have d: "ds ! k \<in> set ds" using k(1) list_all2_lengthD [OF l] by simp
  have "skel u c = Some (bare (row_node (ds ! k) c (i # nd_parents n)))" using list_all2_nthD2 [OF l k(1)] k(2) by simp
  then obtain m where "node_at u c = Some m" "bare m = bare (row_node (ds ! k) c (i # nd_parents n))" by auto
  with d show ?thesis by (rule that)
qed

lemma grown_rows:
  assumes "grown t i ds ch u" "node_at t i = Some n" "node_at u i = Some k"
  shows "image_mset (node_row u) (mset (nd_children k)) = mset (map data_row ds)"
proof -
  obtain ch' where c: "mset ch' = mset ch" "bare k = bare (n\<lparr>nd_children := ch', nd_children_d := ch\<rparr>)"
    and l: "list_all2 (\<lambda>d c. skel u c = Some (bare (row_node d c (i # nd_parents n)))) ds ch"
    using assms by (auto simp: grown_def)
  have "nd_children k = ch'" using bare_fields(5) [OF c(2)] by simp
  moreover have "map (node_row u) ch = map data_row ds"
    using l
  proof (induction rule: list_all2_induct)
    case (Cons d ds c cs)
    then obtain m where m: "node_at u c = Some m" "bare m = bare (row_node d c (i # nd_parents n))" by auto
    then show ?case using Cons bare_fields(2,7) [OF m(2)] by (simp add: node_row_def data_row_def row_node_def)
  qed simp
  ultimately show ?thesis using c(1) by (metis mset_map)
qed

text \<open>Plain rows leave the list of selected nodes alone.\<close>

interpretation sel_drawn: draw_invariant "\<lambda>t. jt_sel t = xs" for xs
  by unfold_locales (auto simp: keeps_def atM_def put_data_def split: option.splits)

lemma sel_atM: "keeps (\<lambda>t. jt_sel t = xs) (atM i f)"
  by (auto simp: keeps_def atM_def put_data_def split: option.splits)

lemma sel_sort: "jt_sel (sort_node i deep t) = jt_sel t"
proof -
  have c: "jt_sel (sort_children i t) = jt_sel t" for i and t :: "'a jst_scheme"
    by (simp add: sort_children_def put_data_def split: option.split)
  then have "jt_sel (fold sort_children xs t) = jt_sel t" for xs and t :: "'a jst_scheme" by (induction xs arbitrary: t) simp_all
  then show ?thesis by (simp add: sort_node_def Let_def c split: option.split)
qed

lemma append_sel:
  assumes "\<forall>d\<in>set ds. plain_row d" "append_json_data i ds t = Some (r, u)"
  shows "jt_sel u = jt_sel t"
proof -
  let ?P = "\<lambda>u. jt_sel u = jt_sel t"
  have k: "keeps ?P (bindM (atM i (\<lambda>n. n\<lparr>nd_children := chd, nd_children_d := dpc\<rparr>)) (\<lambda>_.
      bindM (eachM (\<lambda>q. atM q (\<lambda>n. n\<lparr>nd_children_d := nd_children_d n @ dpc\<rparr>)) ps) (\<lambda>_.
      bindM (modifyM (sort_node i True)) (\<lambda>_.
      if i \<noteq> ''#'' then bindM (modifyM (node_changed i)) (\<lambda>_. redraw False) else redraw True))))" for chd dpc ps
    by (auto intro!: keeps_bindM keeps_eachM sel_atM keeps_modifyM sel_drawn.redraw_keeps simp: node_changed_def sel_sort)
  show ?thesis
  proof (cases "node_at t i")
    case None
    then show ?thesis using assms(2) by (simp add: append_json_data_def bindM_def atM_def)
  next
    case (Some n)
    define n' where "n' = n\<lparr>nd_children := [], nd_children_d := []\<rparr>"
    define t' where "t' = put_data (oset i n' (jt_data t)) t"
    have a: "atM i (\<lambda>n. n\<lparr>nd_children := [], nd_children_d := []\<rparr>) t = Some (Ok (), t')" using Some by (simp add: atM_def t'_def n'_def)
    obtain ch dpc t1 where p: "parse_rows ds i (nd_parents n) t' = (ch, dpc, t1)" by (cases "parse_rows ds i (nd_parents n) t'") auto
    have t': "node_at t' i = Some n'" "nd_parents n' = nd_parents n" "jt_sel t' = jt_sel t" by (simp_all add: t'_def n'_def put_data_def obj_simps)
    have "?P t1" using parse_rows_sel [OF assms(1) p] t'(3) by simp
    from keepsD [OF k this] show ?thesis
      using assms(2) p t' unfolding append_json_data_def bindM_Ok [of "atM i g" for g, OF a] by (simp add: Let_def)
  qed
qed

section \<open>The contract of the rows\<close>

text \<open>The table shows the rows: every path is known, no node is disabled, and the children of a loaded node are its rows.\<close>

definition rows_ok :: "(string list \<Rightarrow> jdata list) \<Rightarrow> (string list \<Rightarrow> bool) \<Rightarrow> 'z jst_scheme \<Rightarrow> bool" where
  "rows_ok src known t \<longleftrightarrow>
     tree_wf t \<and>
     (\<forall>i n. node_at t i = Some n \<longrightarrow>
       known (text_path t i) \<and> \<not> st_disabled (nd_state n) \<and>
       (if st_loaded (nd_state n) then image_mset (node_row t) (mset (nd_children n)) = mset (map data_row (src (text_path t i)))
        else nd_children n = [] \<and> nd_children_d n = []))"

lemma rows_okD:
  assumes "rows_ok src known t" "node_at t i = Some n"
  shows "known (text_path t i)"
    "st_loaded (nd_state n) \<Longrightarrow> image_mset (node_row t) (mset (nd_children n)) = mset (map data_row (src (text_path t i)))"
    "\<not> st_loaded (nd_state n) \<Longrightarrow> nd_children n = [] \<and> nd_children_d n = []"
    "\<not> st_disabled (nd_state n)"
  using assms by (auto simp: rows_ok_def)

lemma rows_ok_wf: "rows_ok src known t \<Longrightarrow> tree_wf t"
  by (simp add: rows_ok_def)

lemma image_mset_rows:
  assumes "tree_wf t" "grows_to t u" "node_at t i = Some n"
  shows "image_mset (node_row u) (mset (nd_children n)) = image_mset (node_row t) (mset (nd_children n))"
proof (rule image_mset_cong)
  fix c assume "c \<in># mset (nd_children n)"
  then have c: "c \<in> set (nd_children n)" by simp
  obtain cn where "node_at t c = Some cn" using wf_child [OF assms(1,3) c] .
  then show "node_row u c = node_row t c" using extends_row [OF assms(2)] by simp
qed

lemma rows_ok_same:
  assumes "rows_ok src known t" "same t u"
  shows "rows_ok src known u"
proof -
  have wf: "tree_wf t" using assms(1) by (rule rows_ok_wf)
  have e: "grows_to t u" using assms(2) by (rule same_extends)
  have "known (text_path u i) \<and> \<not> st_disabled (nd_state m) \<and>
      (if st_loaded (nd_state m) then image_mset (node_row u) (mset (nd_children m)) = mset (map data_row (src (text_path u i)))
       else nd_children m = [] \<and> nd_children_d m = [])" if m: "node_at u i = Some m" for i m
  proof -
    obtain n where n: "node_at t i = Some n" "bare n = bare m" using same_node [OF same_sym [OF assms(2)] m] .
    have "text_path u i = text_path t i" using extends_path [OF wf e] n(1) by simp
    then show ?thesis using rows_okD [OF assms(1) n(1)] bare_fields [OF n(2)] image_mset_rows [OF wf e n(1)] by auto
  qed
  then show ?thesis using wf same_wf [OF assms(2)] by (simp add: rows_ok_def)
qed

lemma calm_keeps:
  assumes "\<And>t. rows_ok src known t \<Longrightarrow> calm m t"
  shows "keeps (rows_ok src known) m"
proof (rule keepsI)
  fix t r u assume t: "rows_ok src known t" "m t = Some (r, u)"
  then have "same t u" using assms [OF t(1)] by (auto simp: calm_def)
  then show "rows_ok src known u" by (rule rows_ok_same [OF t(1)])
qed

locale row_source =
  fixes answer :: "string \<Rightarrow> 'z jst_scheme \<Rightarrow> jdata list option outcome"
    and src :: "string list \<Rightarrow> jdata list"
    and known :: "string list \<Rightarrow> bool"
  assumes answers: "tree_wf t \<Longrightarrow> node_at t i \<noteq> None \<Longrightarrow> known (text_path t i) \<Longrightarrow> answer i t = Ok (Some (src (text_path t i)))"
    and known_root: "known []"
    and known_row: "known p \<Longrightarrow> d \<in> set (src p) \<Longrightarrow> known (p @ [row_text d])"
    and plain: "known p \<Longrightarrow> d \<in> set (src p) \<Longrightarrow> plain_row d"
    and leaf: "known p \<Longrightarrow> d \<in> set (src p) \<Longrightarrow> \<not> row_lazy d \<Longrightarrow> src (p @ [row_text d]) = []"
begin

abbreviation "ok \<equiv> rows_ok src known"

text \<open>A node that gets its rows and is then marked as loaded.\<close>

lemma grown_new_row:
  assumes t: "ok t" and n: "node_at t i = Some n" and g: "grown t i (src (text_path t i)) ch u"
    and tv: "grows_to t v" and x: "node_at t x = None" "node_at u x = Some m" "node_at v x = Some m"
  shows "known (text_path v x) \<and> \<not> st_disabled (nd_state m) \<and> nd_children m = [] \<and> nd_children_d m = [] \<and>
    (st_loaded (nd_state m) \<longrightarrow> src (text_path v x) = [])"
proof -
  have kn: "known (text_path t i)" by (rule rows_okD(1) [OF t n])
  have "x \<in> set ch" using x grown_parents [OF g n, of x "bare m"] by auto
  then obtain d m1 where d: "d \<in> set (src (text_path t i))" "node_at u x = Some m1" "bare m1 = bare (row_node d x (i # nd_parents n))"
    using grown_row [OF g n] by blast
  then have f: "nd_text m = row_text d" "nd_parents m = i # nd_parents n" "nd_children m = []" "nd_children_d m = []"
      "st_loaded (nd_state m) = (\<not> row_lazy d)" "\<not> st_disabled (nd_state m)"
    using bare_fields [OF d(3)] x(2) by (simp_all add: row_node_def default_state_def)
  obtain i' where i': "node_at v i = Some i'" "nd_parents i' = nd_parents n" using extendsD [OF tv n] .
  have "text_path v i = text_path t i" using extends_path [OF rows_ok_wf [OF t] tv] n by simp
  then have p: "text_path v x = text_path t i @ [row_text d]"
    using text_path_child [OF i'(1) x(3)] f i'(2) by simp
  then show ?thesis using f known_row [OF kn d(1)] leaf [OF kn d(1)] by auto
qed

lemma grown_other_row:
  assumes t: "ok t" and n: "node_at t i = Some n" and g: "grown t i (src (text_path t i)) ch u"
    and tv: "grows_to t v" and x: "x \<noteq> i" "node_at t x = Some m0" "node_at u x = Some m"
  shows "known (text_path v x) \<and> \<not> st_disabled (nd_state m) \<and>
    (if st_loaded (nd_state m) then image_mset (node_row v) (mset (nd_children m)) = mset (map data_row (src (text_path v x)))
     else nd_children m = [] \<and> nd_children_d m = [])"
proof -
  have wf: "tree_wf t" by (rule rows_ok_wf [OF t])
  have p: "text_path v x = text_path t x" using extends_path [OF wf tv] x(2) by simp
  have l: "st_loaded (nd_state m) = st_loaded (nd_state m0)" "st_disabled (nd_state m) = st_disabled (nd_state m0)" "nd_children m = nd_children m0"
    "nd_children_d m0 = [] \<Longrightarrow> x \<notin> set (nd_parents n) \<Longrightarrow> nd_children_d m = []"
    using grown_loaded [OF g n x(2,1,3)] by auto
  have "x \<notin> set (nd_parents n)" if "\<not> st_loaded (nd_state m0)"
  proof
    assume "x \<in> set (nd_parents n)"
    then have "i \<in> set (nd_children_d m0)" using wf_node [OF wf x(2)] n by (auto simp: node_ok_def)
    then show False using rows_okD(3) [OF t x(2) that] by simp
  qed
  then show ?thesis using rows_okD [OF t x(2)] l p image_mset_rows [OF wf tv x(2)] by auto
qed

lemma grown_ok:
  assumes t: "ok t" and n: "node_at t i = Some n" "\<not> st_loaded (nd_state n)" and g: "grown t i (src (text_path t i)) ch u"
    and k: "node_at u i = Some k"
  defines "v \<equiv> put_data (oset i (set_flag (\<lambda>s. s\<lparr>st_loading := False, st_loaded := True\<rparr>) k) (jt_data u)) u"
  shows "ok v \<and> grows_to t v"
proof -
  have wf: "tree_wf t" and e0: "nd_children n = []" "nd_children_d n = []" using rows_ok_wf [OF t] rows_okD(3) [OF t n] by auto
  have wu: "tree_wf u" by (rule grown_wf [OF wf g n(1) e0])
  have wv: "tree_wf v" unfolding v_def by (rule flag_wf [OF wu k])
  have uv: "grows_to u v" unfolding v_def by (rule flag_extends [OF k])
  have tv: "grows_to t v" by (rule grows_trans [OF grown_extends [OF g] uv])
  have "known (text_path v x) \<and> \<not> st_disabled (nd_state m) \<and>
      (if st_loaded (nd_state m) then image_mset (node_row v) (mset (nd_children m)) = mset (map data_row (src (text_path v x)))
       else nd_children m = [] \<and> nd_children_d m = [])" if m: "node_at v x = Some m" for x m
  proof (cases "node_at t x")
    case None
    have "node_at u x = Some m" using m None n(1) by (auto simp: v_def put_data_def obj_simps split: if_splits)
    then show ?thesis using grown_new_row [OF t n(1) g tv None _ m] by auto
  next
    case (Some m0)
    show ?thesis
    proof (cases "x = i")
      case True
      have "image_mset (node_row u) (mset (nd_children k)) = mset (map data_row (src (text_path t i)))" by (rule grown_rows [OF g n(1) k])
      moreover have "image_mset (node_row v) (mset (nd_children k)) = image_mset (node_row u) (mset (nd_children k))"
        by (rule image_mset_rows [OF wu uv k])
      moreover have "m = set_flag (\<lambda>s. s\<lparr>st_loading := False, st_loaded := True\<rparr>) k" using m True by (simp add: v_def put_data_def obj_simps)
      moreover have "\<not> st_disabled (nd_state k)" using grown_enabled [OF g n(1) k] rows_okD(4) [OF t n(1)] by simp
      ultimately show ?thesis using extends_path [OF wf tv, of i] rows_okD(1) [OF t n(1)] n(1) True by simp
    next
      case False
      have "node_at u x = Some m" using m False by (simp add: v_def put_data_def obj_simps)
      then show ?thesis by (rule grown_other_row [OF t n(1) g tv False Some])
    qed
  qed
  then show ?thesis using wv tv by (simp add: rows_ok_def)
qed

lemma load_step:
  assumes t: "ok t" and n: "node_at t i = Some n" "\<not> st_loaded (nd_state n)" and E: "je_data E = answer"
  shows "\<exists>v. (\<forall>on_load callback. load_node_with on_load E callback i t = bindM (on_load i True) (\<lambda>_. callback i True) v) \<and>
    ok v \<and> grows_to t v \<and> is_loaded v i \<and> (\<forall>x. is_loaded t x \<longrightarrow> is_loaded v x) \<and> jst.more v = jst.more t \<and> jt_sel v = jt_sel t"
proof -
  let ?n = "set_flag (\<lambda>s. s\<lparr>st_loading := True\<rparr>) n"
  let ?t = "put_data (oset i ?n (jt_data t)) t"
  have s: "same t ?t" by (rule same_upd [OF n(1), of "set_flag (\<lambda>s. s\<lparr>st_loading := True\<rparr>)", OF bare_flag(3)])
  have t1: "ok ?t" by (rule rows_ok_same [OF t s])
  have n1: "node_at ?t i = Some ?n" by (simp add: put_data_def obj_simps)
  have l1: "\<not> st_loaded (nd_state ?n)" using n(2) by simp
  have a: "answer i ?t = Ok (Some (src (text_path ?t i)))" using answers rows_ok_wf [OF t1] rows_okD(1) [OF t1 n1] n1 by simp
  have pl: "\<forall>d\<in>set (src (text_path ?t i)). plain_row d" using plain [OF rows_okD(1) [OF t1 n1]] by simp
  obtain ch u where u: "append_json_data i (src (text_path ?t i)) ?t = Some (Ok (), u)" "grown ?t i (src (text_path ?t i)) ch u"
    using append_grows [OF rows_ok_wf [OF t1] n1 _ _ pl] rows_okD(3) [OF t1 n1 l1] by blast
  obtain k where k: "node_at u i = Some k" using u(2) by (auto simp: grown_def)
  let ?v = "put_data (oset i (set_flag (\<lambda>s. s\<lparr>st_loading := False, st_loaded := True\<rparr>) k) (jt_data u)) u"
  have v: "ok ?v" "grows_to ?t ?v" using grown_ok [OF t1 n1 l1 u(2) k] by auto
  have "load_node_with on_load E callback i t = bindM (on_load i True) (\<lambda>_. callback i True) ?v" for on_load callback
    using n u(1) k a E by (simp add: load_node_with_def whenM_def bindM_def atM_def load_done_def)
  moreover have l: "is_loaded ?v i" by (simp add: is_loaded_def with_node_def put_data_def obj_simps)
  moreover have "is_loaded ?v x" if lx: "is_loaded t x" for x
  proof (cases "x = i")
    case False
    obtain m where m: "node_at ?t x = Some m" "st_loaded (nd_state m)"
      using lx False by (cases "node_at t x") (auto simp: is_loaded_def with_node_def put_data_def obj_simps)
    obtain m' where "node_at ?v x = Some m'" using extendsD [OF v(2) m(1)] .
    then have m': "node_at u x = Some m'" "node_at ?v x = Some m'" using False by (simp_all add: put_data_def obj_simps)
    have "st_loaded (nd_state m')" using grown_loaded [OF u(2) n1 m(1) False m'(1)] m(2) by simp
    then show ?thesis using m'(2) by (simp add: is_loaded_def with_node_def)
  qed (use l in simp)
  moreover have "jst.more ?v = jst.more t" using u(2) by (simp add: grown_def put_data_def)
  moreover have "jt_sel ?v = jt_sel t" using append_sel [OF pl u(1)] by (simp add: put_data_def)
  ultimately show ?thesis using v grows_trans [OF same_extends [OF s]] by blast
qed

end

section \<open>What the steps keep\<close>

lemma keeps_atM:
  assumes "\<And>n. bare (f n) = bare n"
  shows "keeps (rows_ok src known) (atM i f)"
proof (rule keepsI)
  fix t r u assume t: "rows_ok src known t" "atM i f t = Some (r, u)"
  show "rows_ok src known u"
  proof (cases "node_at t i")
    case (Some n)
    then show ?thesis using t rows_ok_same [OF t(1) same_upd [OF Some, of f, OF assms]] by (simp add: atM_def)
  qed (use t in \<open>simp add: atM_def\<close>)
qed

lemmas keeps_flag [intro] =
  keeps_atM [OF bare_flag(1)] keeps_atM [OF bare_flag(2)] keeps_atM [OF bare_flag(3)]

lemma keeps_same: "(\<And>t. same t (f t)) \<Longrightarrow> keeps (rows_ok src known) (modifyM f)"
  by (rule keeps_modifyM) (metis rows_ok_same)

lemma keeps_redraw_node [intro]: "keeps (rows_ok src known) (redraw_node i deep)"
  by (rule calm_keeps) (simp add: calm_redraw_node rows_ok_wf)

lemma keeps_close_node [intro]: "keeps (rows_ok src known) (close_node animation i)"
  by (rule calm_keeps) (rule calm_close_node)

lemma keeps_deselect_node [intro]: "keeps (rows_ok src known) (deselect_node i)"
  by (rule calm_keeps) (rule calm_deselect_node)

lemma keeps_deselect_all [intro]: "keeps (rows_ok src known) (modifyM deselect_all)"
  by (rule keeps_same) simp

context row_source
begin

lemma load_keeps:
  assumes "je_data E = answer" "keeps ok (on_load i True)" "\<And>b. keeps ok (callback i b)"
    and "ok t" "\<not> is_loaded t i" "load_node_with on_load E callback i t = Some (r, u)"
  shows "ok u"
proof (cases "node_at t i")
  case None
  then show ?thesis using assms(6) keepsD [OF assms(3,4)] by (simp add: load_node_with_def)
next
  case (Some n)
  have "\<not> st_loaded (nd_state n)" using assms(5) Some by (simp add: is_loaded_def with_node_def)
  from load_step [OF assms(4) Some this assms(1)]
  obtain v where v: "load_node_with on_load E callback i t = bindM (on_load i True) (\<lambda>_. callback i True) v" "ok v" by blast
  have "keeps ok (bindM (on_load i True) (\<lambda>_. callback i True))" using assms(2,3) by (rule keeps_bindM)
  from keepsD [OF this v(2)] show ?thesis using v(1) assms(6) by metis
qed

text \<open>A table with nothing but the root.\<close>

lemma root_ok: "jt_data t = [(''#'', root_node)] \<Longrightarrow> ok t"
  by (auto simp: rows_ok_def tree_wf_def wf_obj_def shape_def node_ok_def oget_def root_node_def bare_def no_state_def text_path_def
      id_path_def known_root)

text \<open>A new widget shows the rows of the root.\<close>

lemma init_works:
  assumes "je_data E = answer" "jt_data t = [(''#'', root_node)]" "jt_sel t = []"
  shows "\<exists>u. init_tree E t = Some (Ok (), u) \<and> ok u \<and> is_loaded u ''#'' \<and> jt_ready u \<and> jst.more u = jst.more t"
proof -
  have n: "node_at t ''#'' = Some root_node" "\<not> st_loaded (nd_state root_node)"
    using assms(2) by (simp_all add: oget_def root_node_def no_state_def)
  obtain v where v: "load_node_with (on_load_node E) E no_callback ''#'' t = bindM (on_load_node E ''#'' True) (\<lambda>_. no_callback ''#'' True) v"
    "ok v" "is_loaded v ''#''" "jst.more v = jst.more t" "jt_sel v = []"
    using load_step [OF root_ok [OF assms(2)] n assms(1)] assms(3) by metis
  let ?u = "v\<lparr>jt_loaded := True, jt_ready := True\<rparr>"
  have "same v ?u" by simp
  then have "ok ?u" by (rule rows_ok_same [OF v(2)])
  moreover have "is_loaded ?u ''#''" using v(3) by (simp add: is_loaded_def with_node_def)
  moreover have "init_tree E t = Some (Ok (), ?u)"
    unfolding init_tree_def load_node_def v(1)
    using v(5) by (cases "jt_ready v") (simp_all add: on_load_node_def first_load_def bindM_def whenM_def array_unique_def)
  ultimately show ?thesis using v(4) by auto
qed

end

text \<open>The widget with such rows, and a program that keeps the invariant when a node is selected.\<close>

locale row_widget = row_source answer src known
  for answer :: "string \<Rightarrow> 'z jst_scheme \<Rightarrow> jdata list option outcome" and src known +
  fixes E :: "'z jst_scheme jst_env"
  assumes rows: "je_data E = answer" and handler: "keeps ok (je_select E i)"

sublocale row_widget \<subseteq> shown: widget_invariant ok E
proof
  show "keeps ok (atM i (set_flag (\<lambda>s. s\<lparr>st_opened := b\<rparr>)))" for i b by (rule keeps_flag)
  show "keeps ok (deselect_node i)" for i by (rule keeps_deselect_node)
  show "ok u" if "ok t" "\<not> is_loaded t i" "\<And>b. keeps ok (on_load i b)" "\<And>b. keeps ok (callback i b)"
    "load_node_with on_load E callback i t = Some (r, u)" for t i on_load callback r u
    using load_keeps [OF rows] that by blast
  show "ok (put_data (oset i (set_flag (\<lambda>s. s\<lparr>st_selected := True\<rparr>) n) (jt_data t)) t\<lparr>jt_sel := jt_sel t @ [i]\<rparr>)"
    if "ok t" "node_at t i = Some n" for t i n
    using rows_ok_same [OF that(1), of "put_data (oset i (set_flag (\<lambda>s. s\<lparr>st_selected := True\<rparr>) n) (jt_data t)) t\<lparr>jt_sel := jt_sel t @ [i]\<rparr>"]
      same_upd [of t i n "set_flag (\<lambda>s. s\<lparr>st_selected := True\<rparr>)", OF that(2) bare_flag(2)] by simp
qed (auto intro: handler root_ok elim: rows_ok_same)

end
