(* ===== verification/Jstree_Select.thy ===== *)
theory Jstree_Select
  imports Jstree_Invariants Jstree_Wf
begin

text \<open>
  The list of selected nodes of the tree widget: whatever rows arrive, with or without ids of their
  own, and whatever is opened, closed, selected and refreshed, a node that is marked as selected is
  in the list.
\<close>

definition sel_covers :: "'z jst_scheme \<Rightarrow> bool" where
  "sel_covers t \<longleftrightarrow> (\<forall>i n. node_at t i = Some n \<longrightarrow> st_selected (nd_state n) \<longrightarrow> i \<in> set (jt_sel t))"

lemma coversD: "sel_covers t \<Longrightarrow> node_at t i = Some n \<Longrightarrow> st_selected (nd_state n) \<Longrightarrow> i \<in> set (jt_sel t)"
  by (simp add: sel_covers_def)

lemma covers_fields [simp]:
  "sel_covers (t\<lparr>jt_clicked := c\<rparr>) = sel_covers t" "sel_covers (t\<lparr>jt_loaded := b\<rparr>) = sel_covers t" "sel_covers (t\<lparr>jt_ready := b\<rparr>) = sel_covers t"
  "sel_covers (t\<lparr>jt_restore := r\<rparr>) = sel_covers t" "sel_covers (t\<lparr>jt_timers := xs\<rparr>) = sel_covers t" "sel_covers (t\<lparr>jt_sliding := xs\<rparr>) = sel_covers t"
  "sel_covers (t\<lparr>jt_dom := ls\<rparr>) = sel_covers t" "sel_covers (t\<lparr>jt_full := b\<rparr>) = sel_covers t" "sel_covers (t\<lparr>jt_changed := xs\<rparr>) = sel_covers t"
  "sel_covers (t\<lparr>jt_cnt := k\<rparr>) = sel_covers t"
  by (simp_all add: sel_covers_def)

lemma covers_dom_ops [simp]:
  "sel_covers (forget is t) = sel_covers t" "sel_covers (take_li_out i t) = sel_covers t" "sel_covers (drop_ul i t) = sel_covers t" "sel_covers (slide_end i t) = sel_covers t"
  by (simp_all add: forget_def take_li_out_def drop_ul_def slide_end_def split: option.split)

lemma covers_upd:
  assumes "sel_covers t" "node_at t i = Some n" "st_selected (nd_state m) \<Longrightarrow> st_selected (nd_state n)"
  shows "sel_covers (put_data (oset i m (jt_data t)) t)"
  using assms by (auto simp: sel_covers_def put_data_def obj_simps)

lemma covers_atM:
  assumes "\<And>n. st_selected (nd_state (f n)) \<Longrightarrow> st_selected (nd_state n)"
  shows "keeps sel_covers (atM i f)"
proof (rule keepsI)
  fix t r u assume t: "sel_covers t" "atM i f t = Some (r, u)"
  then show "sel_covers u" using covers_upd [OF t(1), of i _ "f n" for n] assms by (cases "node_at t i") (auto simp: atM_def)
qed

interpretation covers_drawn: draw_invariant sel_covers
  by unfold_locales (auto intro: covers_atM)

section \<open>Loading\<close>

interpretation covers_loads: load_invariant sel_covers
proof
  show "keeps sel_covers (atM i f)" if "\<And>n. st_selected (nd_state (f n)) = st_selected (nd_state n)" for i f
    by (rule covers_atM) (simp add: that)
  show "sel_covers (put_node f i ps ch cd lazy t)" if "sel_covers t" for f i ps ch cd lazy and t :: "'a jst_scheme"
    using that by (auto simp: sel_covers_def put_node_def Let_def obj_simps split: if_splits)
  show "sel_covers (t\<lparr>jt_sel := (if st_selected (nd_state n) then remove1 i (jt_sel t) else jt_sel t), jt_data := odel i (jt_data t)\<rparr>)"
    if "sel_covers t" "node_at t i = Some n" for t :: "'a jst_scheme" and i n
    using that by (auto simp: sel_covers_def obj_simps split: if_splits)
qed simp

section \<open>The invariant\<close>

lemma covers_selected: "sel_covers t \<Longrightarrow> is_selected t i \<Longrightarrow> i \<in> set (jt_sel t)"
  by (cases "node_at t i") (auto simp: is_selected_def with_node_def sel_covers_def)

lemma covers_deselect_node: "keeps sel_covers (deselect_node i)"
proof (rule keepsI)
  fix t r u assume t: "sel_covers t" "deselect_node i t = Some (r, u)"
  show "sel_covers u"
    using t by (cases "node_at t i") (auto simp: deselect_node_def atM_def bindM_def put_data_def sel_covers_def obj_simps split: if_splits)
qed

lemma mark_all:
  "oget (fold (mark_selected False) xs d) i = map_option (\<lambda>n. if i \<in> set xs then set_flag (\<lambda>s. s\<lparr>st_selected := False\<rparr>) n else n) (oget d i)"
proof (induction xs arbitrary: d)
  case (Cons a xs)
  then show ?case by (cases "oget d a"; cases "i = a") (simp_all add: mark_selected_def obj_simps)
qed (simp add: option.map_id [unfolded id_def])

lemma covers_deselect_all:
  assumes "sel_covers t"
  shows "sel_covers (deselect_all t)" "\<not> is_selected (deselect_all t) i"
proof -
  have "\<not> st_selected (nd_state n)" if n: "node_at (deselect_all t) i = Some n" for i n
  proof -
    obtain m where m: "node_at t i = Some m" "n = (if i \<in> set (jt_sel t) then set_flag (\<lambda>s. s\<lparr>st_selected := False\<rparr>) m else m)"
      using n by (auto simp: deselect_all_def mark_all)
    then show ?thesis using coversD [OF assms m(1)] by auto
  qed
  then show "sel_covers (deselect_all t)" "\<not> is_selected (deselect_all t) i"
    by (auto simp: sel_covers_def is_selected_def with_node_def split: option.splits)
qed

lemma covers_widget:
  assumes "\<And>i. keeps sel_covers (je_select E i)"
  shows "widget_invariant sel_covers E"
proof
  show "sel_covers u" if "sel_covers t" "\<And>b. keeps sel_covers (on_load i b)" "\<And>b. keeps sel_covers (callback i b)"
    "load_node_with on_load E callback i t = Some (r, u)" for t i on_load callback r u
    using keepsD [OF covers_loads.load_with_keeps [of on_load i callback E] that(1,4)] that(2,3) by blast
  show "sel_covers (put_data (oset i (set_flag (\<lambda>s. s\<lparr>st_selected := True\<rparr>) n) (jt_data t)) t\<lparr>jt_sel := jt_sel t @ [i]\<rparr>)"
    if "sel_covers t" "node_at t i = Some n" for t i n
    using that by (auto simp: sel_covers_def put_data_def obj_simps)
  show "sel_covers (t\<lparr>jt_cnt := 0, jt_data := [(''#'', root_node)], jt_dom := [], jt_sliding := []\<rparr>)" for t
    by (auto simp: sel_covers_def oget_def root_node_def no_state_def split: if_splits)
qed (simp_all add: covers_deselect_node covers_deselect_all assms)

end
