(* ===== verification/Jstree_Click.thy ===== *)
theory Jstree_Click
  imports Jstree_Props Jstree_Select
begin

text \<open>
  A click on a node of the tree widget without a modifier key: the nodes around it are opened, which
  loads nothing, and the program is told exactly once that the node is selected.
\<close>

lemma calm_slide_end: "calm (modifyM (slide_end i)) t"
  by (rule calm_modifyM) simp

lemma open_loaded_runs:
  assumes "tree_wf t" "node_at t i \<noteq> None"
  shows "\<exists>u. (\<forall>callback. open_loaded animation callback i t = callback i True u) \<and> same t u"
proof -
  have o: "calm (atM i (set_flag (\<lambda>s. s\<lparr>st_opened := True\<rparr>))) u" if "same t u" for u
    by (rule calm_opened) (use assms(2) same_None [OF that] in simp)
  have "calm (bindM (whenM b (bindM (atM i (set_flag (\<lambda>s. s\<lparr>st_opened := True\<rparr>))) (\<lambda>_. redraw_node i True)))
      (\<lambda>_. whenM animation (modifyM (slide_end i)))) t" for b
    by (intro calm_bindM calm_whenM calm_slide_end o calm_redraw_node) (use assms(1) same_wf in auto)
  then have "calm (\<lambda>t. case find_li i (jt_dom t) of
              None \<Rightarrow> retM () t
            | Some l \<Rightarrow>
                bindM (whenM (with_node i (\<lambda>n. nd_children n \<noteq> []) t \<and> li_ul l = [])
                         (bindM (atM i (set_flag (\<lambda>s. s\<lparr>st_opened := True\<rparr>))) (\<lambda>_. redraw_node i True)))
                  (\<lambda>_. whenM animation (modifyM (slide_end i))) t) t"
    by (cases "find_li i (jt_dom t)") (simp_all add: calm_def)
  then obtain x u where u: "(\<lambda>t. case find_li i (jt_dom t) of
              None \<Rightarrow> retM () t
            | Some l \<Rightarrow>
                bindM (whenM (with_node i (\<lambda>n. nd_children n \<noteq> []) t \<and> li_ul l = [])
                         (bindM (atM i (set_flag (\<lambda>s. s\<lparr>st_opened := True\<rparr>))) (\<lambda>_. redraw_node i True)))
                  (\<lambda>_. whenM animation (modifyM (slide_end i))) t) t = Some (Ok x, u)" "same t u" by (rule calmE)
  obtain v where v: "atM i (set_flag (\<lambda>s. s\<lparr>st_opened := True\<rparr>)) u = Some (Ok (), v)" "same u v" using o [OF u(2)] by (auto elim!: calmE)
  have "open_loaded animation callback i t = callback i True v" for callback
    using u(1) v(1) unfolding open_loaded_def by (simp add: bindM_def)
  then show ?thesis using same_trans [OF u(2) v(2)] by blast
qed

lemma calm_open_loaded:
  assumes "tree_wf t" "node_at t i \<noteq> None"
  shows "calm (open_loaded animation no_callback i) t"
  using open_loaded_runs [OF assms, of animation] by (auto simp: calm_def)

text \<open>Opening a node with children: it is loaded already.\<close>

lemma calm_open_parent:
  assumes "rows_ok src known t" "node_at t i = Some n" "nd_children n \<noteq> []"
  shows "calm (open_node E animation no_callback i) t"
proof -
  have "st_loaded (nd_state n)" using rows_okD(3) [OF assms(1,2)] assms(3) by blast
  then have "is_loaded t i" using assms(2) by (simp add: is_loaded_def with_node_def)
  moreover have "calm (open_loaded animation no_callback i) t" using calm_open_loaded [OF rows_ok_wf [OF assms(1)]] assms(2) by simp
  ultimately show ?thesis by (simp add: calm_def open_node_def open_node_with_def)
qed

lemma parents_have_children:
  assumes "tree_wf t" "node_at t i = Some n" "a \<in> set (nd_parents n)"
  shows "\<exists>an. node_at t a = Some an \<and> nd_children an \<noteq> []"
  using assms(2,3)
proof (induction "length (nd_parents n)" arbitrary: i n rule: less_induct)
  case less
  have "i \<noteq> ''#''" using wf_node [OF assms(1) less.prems(1)] less.prems(2) by (auto simp: node_ok_def)
  then obtain p pn where p: "node_at t p = Some pn" "nd_parents n = p # nd_parents pn" "i \<in> set (nd_children pn)"
    using wf_parent [OF assms(1) less.prems(1)] by metis
  show ?case
  proof (cases "a = p")
    case True
    then show ?thesis using p by auto
  next
    case False
    then show ?thesis using less.hyps [of pn p] less.prems(2) p by auto
  qed
qed

lemma calm_open_to:
  assumes "rows_ok src known t"
  shows "calm (open_to E i) t"
proof (cases "node_at t i = None \<or> i = ''#''")
  case True
  then show ?thesis by (auto simp: calm_def open_to_def split: option.split)
next
  case False
  then obtain n where n: "node_at t i = Some n" by auto
  have "calm (eachM (open_node E False no_callback) (nd_parents n)) t"
  proof (rule calm_eachM)
    fix a u assume a: "a \<in> set (nd_parents n)" and u: "same t u"
    obtain an where an: "node_at t a = Some an" "nd_children an \<noteq> []" using parents_have_children [OF rows_ok_wf [OF assms] n a] by blast
    obtain m where m: "node_at u a = Some m" "bare m = bare an" using same_node [OF u an(1)] .
    show "calm (open_node E False no_callback a) u"
      by (rule calm_open_parent [OF rows_ok_same [OF assms u] m(1)]) (use an(2) bare_fields(5) [OF m(2)] in simp)
  qed
  then show ?thesis using False n by (simp add: calm_def open_to_def)
qed

lemma select_runs:
  assumes "rows_ok src known t" "node_at t i = Some n" "i \<noteq> ''#''" "\<not> st_selected (nd_state n)"
  shows "\<exists>u. select_node E False i t = je_select E i u \<and> same t u"
proof -
  let ?t = "put_data (oset i (set_flag (\<lambda>s. s\<lparr>st_selected := True\<rparr>) n) (jt_data t)) t\<lparr>jt_sel := jt_sel t @ [i]\<rparr>"
  have s: "same t ?t" using same_upd [of t i n "set_flag (\<lambda>s. s\<lparr>st_selected := True\<rparr>)", OF assms(2) bare_flag(2)] by simp
  have "calm (open_to E i) ?t" by (rule calm_open_to [OF rows_ok_same [OF assms(1) s]])
  then obtain u where u: "open_to E i ?t = Some (Ok (), u)" "same ?t u" by (auto simp: calm_def)
  have "select_node E False i t = je_select E i u"
    using assms(2,3,4) u(1) by (simp add: select_node_def with_node_def atM_def bindM_def whenM_def put_data_def)
  then show ?thesis using same_trans [OF s u(2)] by blast
qed

lemma click_selects:
  assumes "rows_ok src known t" "sel_covers t" "node_at t i = Some n" "i \<noteq> ''#''"
  shows "\<exists>u. activate_node E no_keys i t =
      bindM (je_select E i) (\<lambda>_. modifyM (\<lambda>t. t\<lparr>jt_clicked := (if node_at t i = None then None else Some i)\<rparr>)) u \<and> same t u"
proof -
  let ?t = "deselect_all (refresh_clicked t)"
  have s: "same t ?t" by simp
  obtain m where m: "node_at ?t i = Some m" using same_node [OF s assms(3)] .
  have "sel_covers (refresh_clicked t)" using assms(2) by (simp add: refresh_clicked_def Let_def)
  then have "\<not> st_selected (nd_state m)"
    using covers_deselect_all(2) [of "refresh_clicked t" i] m assms(4) by (simp add: is_selected_def with_node_def)
  from select_runs [OF rows_ok_same [OF assms(1) s] m assms(4) this, of E]
  obtain u where u: "select_node E False i ?t = je_select E i u" "same ?t u" by blast
  have "activate_node E no_keys i t =
      bindM (je_select E i) (\<lambda>_. modifyM (\<lambda>t. t\<lparr>jt_clicked := (if node_at t i = None then None else Some i)\<rparr>)) u"
    using rows_okD(4) [OF assms(1,3)] assms(3) u(1) by (simp add: is_disabled_def with_node_def activate_node_def Let_def no_keys_def bindM_def)
  then show ?thesis using same_trans [OF s u(2)] by blast
qed

end
