(* ===== verification/Jstree_Restore.thy ===== *)
theory Jstree_Restore
  imports Jstree_Click
begin

text \<open>
  Refreshing the tree widget comes to an end. Restoring what was open and selected calls itself
  from the callbacks of the nodes it opens; each of these calls has one node less to load, so
  there are never more of them than nodes that were open. Nothing but the handler of a selected row
  touches the rest of the world, and it runs only for the nodes that were selected.
\<close>

section \<open>What opening leaves alone\<close>

definition stays :: "restore \<Rightarrow> 'z \<Rightarrow> 'z jst_scheme \<Rightarrow> bool" where
  "stays r m t \<longleftrightarrow> jt_restore t = r \<and> jt_ready t \<and> jst.more t = m"

lemma stays_atM: "keeps (stays r m) (atM i f)"
  by (rule keepsI) (auto simp: stays_def atM_def put_data_def split: option.splits)

interpretation stays_loads: load_invariant "stays r m" for r m
  by unfold_locales (auto intro: stays_atM simp: stays_def put_node_def Let_def)

interpretation stays_opens: open_invariant "stays r m" E for r m E
proof
  show "stays r m u" if "stays r m t" "\<And>b. keeps (stays r m) (on_load i b)" "\<And>b. keeps (stays r m) (callback i b)"
    "load_node_with on_load E callback i t = Some (q, u)" for t i on_load callback q u
    using keepsD [OF stays_loads.load_with_keeps [of r m on_load i callback E] that(1,4)] that(2,3) by blast
qed (simp_all add: stays_def)

text \<open>A widget that is ready stays so.\<close>

interpretation ready_loads: load_invariant jt_ready
  by unfold_locales (auto simp: keeps_def atM_def put_data_def put_node_def Let_def split: option.splits)

lemma ready_widget:
  assumes "\<And>i. keeps jt_ready (je_select E i)"
  shows "widget_invariant jt_ready E"
proof
  show "jt_ready u" if "jt_ready t" "\<And>b. keeps jt_ready (on_load i b)" "\<And>b. keeps jt_ready (callback i b)"
    "load_node_with on_load E callback i t = Some (q, u)" for t i on_load callback q u
    using keepsD [OF ready_loads.load_with_keeps [of on_load i callback E] that(1,4)] that(2,3) by blast
  show "keeps jt_ready (deselect_node i)" for i
    by (rule keepsI) (auto simp: deselect_node_def bindM_def atM_def put_data_def split: if_splits option.splits)
qed (simp_all add: put_data_def deselect_all_def assms)

section \<open>Opening\<close>

text \<open>Nothing that was loaded is unloaded.\<close>

definition keeps_loaded :: "'z jst_scheme \<Rightarrow> 'z jst_scheme \<Rightarrow> bool" where
  "keeps_loaded t u \<longleftrightarrow> (\<forall>x. is_loaded t x \<longrightarrow> is_loaded u x)"

lemma keeps_loaded_refl [simp]: "keeps_loaded t t"
  by (simp add: keeps_loaded_def)

lemma keeps_loaded_trans: "keeps_loaded t u \<Longrightarrow> keeps_loaded u v \<Longrightarrow> keeps_loaded t v"
  by (simp add: keeps_loaded_def)

lemma same_loaded:
  assumes "same t u"
  shows "is_loaded u x = is_loaded t x"
proof (cases "node_at t x")
  case None
  then show ?thesis using same_None [OF assms, of x] by (simp add: is_loaded_def with_node_def)
next
  case (Some n)
  obtain m where m: "node_at u x = Some m" "bare m = bare n" using same_node [OF assms Some] .
  then show ?thesis using Some bare_fields(8) [OF m(2)] by (simp add: is_loaded_def with_node_def)
qed

lemma same_keeps_loaded: "same t u \<Longrightarrow> keeps_loaded t u"
  by (simp add: keeps_loaded_def same_loaded)

lemma loaded_fields [simp]:
  "is_loaded (t\<lparr>jt_restore := r\<rparr>) x = is_loaded t x" "is_loaded (t\<lparr>jt_timers := ts\<rparr>) x = is_loaded t x"
  "is_loaded (t\<lparr>jt_loaded := b\<rparr>) x = is_loaded t x"
  by (simp_all add: is_loaded_def with_node_def)

context row_source
begin

definition after :: "'z jst_scheme \<Rightarrow> 'z jst_scheme \<Rightarrow> bool" where
  "after t u \<longleftrightarrow> ok u \<and> keeps_loaded t u \<and> stays (jt_restore t) (jst.more t) u"

text \<open>A node that is loaded and opened; a node that is not loaded, whose rows are loaded first.\<close>

lemma opens_loaded:
  assumes "ok s" "node_at s i \<noteq> None"
  shows "\<exists>u. (\<forall>callback. open_loaded animation callback i s = callback i True u) \<and> ok u \<and> keeps_loaded s u"
  using open_loaded_runs [OF rows_ok_wf [OF assms(1)] assms(2), of animation] rows_ok_same [OF assms(1)] same_keeps_loaded by blast

lemma loads_and_opens:
  assumes t: "ok t" "jt_ready t" and E: "je_data E = answer" and n: "node_at t i = Some n" "i \<noteq> ''#''" "\<not> is_loading t i"
    and closed: "is_closed t i" "\<not> is_loaded t i"
  obtains v where "\<And>callback. open_node E animation callback i t = open_again animation callback i v" "ok v" "is_loaded v i" "keeps_loaded t v"
proof -
  have "\<not> st_loaded (nd_state n)" using closed(2) n(1) by (simp add: is_loaded_def with_node_def)
  from load_step [OF t(1) n(1) this E]
  obtain v where v: "\<forall>on_load callback. load_node_with on_load E callback i t = bindM (on_load i True) (\<lambda>_. callback i True) v"
    "ok v" "is_loaded v i" "keeps_loaded t v" unfolding keeps_loaded_def by blast
  have "keeps (stays (jt_restore t) (jst.more t)) (load_node_with no_callback E no_callback i)"
    by (rule stays_loads.load_with_keeps) auto
  from keepsD [OF this, of t "Ok ()" v] have "jt_ready v" using v(1) t(2) by (simp add: stays_def bindM_def)
  then have "on_load_node E i True v = Some (Ok (), v)" using n(2) by (simp add: on_load_node_def first_load_def bindM_def whenM_def)
  then have "open_node E animation callback i t = open_again animation callback i v" for callback
    using closed n v(1) by (simp add: open_node_def open_node_with_def bindM_def)
  then show ?thesis by (rule that) (fact v(2-4))+
qed

text \<open>A node that is opened: the callback runs once, with a node that is loaded if it is told so.\<close>

lemma open_steps:
  assumes t: "ok t" "jt_ready t" and E: "je_data E = answer" and n: "node_at t i = Some n" "i \<noteq> ''#''" "\<not> is_loading t i"
  shows "\<exists>b u. (\<forall>callback. open_node E animation callback i t = callback i b u) \<and> ok u \<and> keeps_loaded t u \<and> (b \<longrightarrow> is_loaded u i)"
proof -
  have result: ?thesis
    if "\<And>callback. open_node E animation callback i t = callback i b u" "ok u" "keeps_loaded t u" "b \<Longrightarrow> is_loaded u i" for b u
    using that by (intro exI [of _ b] exI [of _ u]) simp
  consider "\<not> is_closed t i" | "is_closed t i" "is_loaded t i" | "is_closed t i" "\<not> is_loaded t i" by blast
  then show ?thesis
  proof cases
    case 1
    show ?thesis by (rule result [of False t]) (use 1 n t in \<open>simp_all add: open_node_def open_node_with_def\<close>)
  next
    case 2
    obtain u where u: "\<forall>callback. open_loaded animation callback i t = callback i True u" "ok u" "keeps_loaded t u"
      using opens_loaded [OF t(1), of i animation] n(1) by auto
    show ?thesis by (rule result [of True u]) (use 2 n u in \<open>simp_all add: open_node_def open_node_with_def keeps_loaded_def\<close>)
  next
    case 3
    obtain v where v: "\<And>callback. open_node E animation callback i t = open_again animation callback i v" "ok v" "is_loaded v i" "keeps_loaded t v"
      using loads_and_opens [OF assms 3] by metis
    have vi: "node_at v i \<noteq> None" using v(3) by (auto simp: is_loaded_def with_node_def split: option.splits)
    show ?thesis
    proof (cases "is_closed v i")
      case True
      obtain u where u: "\<forall>callback. open_loaded animation callback i v = callback i True u" "ok u" "keeps_loaded v u"
        using opens_loaded [OF v(2) vi, of animation] by auto
      show ?thesis by (rule result [of True u]) (use u v True vi n(2) in \<open>simp_all add: open_again_def keeps_loaded_def\<close>)
    next
      case False
      show ?thesis by (rule result [of False v]) (use v False vi n(2) in \<open>simp_all add: open_again_def\<close>)
    qed
  qed
qed

lemma open_runs:
  assumes "ok t" "jt_ready t" "je_data E = answer" "node_at t i = Some n" "i \<noteq> ''#''" "\<not> is_loading t i"
  shows "\<exists>b u. (\<forall>callback. open_node E animation callback i t = callback i b u) \<and> after t u \<and> (b \<longrightarrow> is_loaded u i)"
proof -
  obtain b u where u: "\<forall>callback. open_node E animation callback i t = callback i b u" "ok u" "keeps_loaded t u" "b \<longrightarrow> is_loaded u i"
    using open_steps [OF assms, of animation] by blast
  have "stays (jt_restore t) (jst.more t) u"
    using keepsD [OF stays_opens.open_silently_keeps [of "jt_restore t" "jst.more t" E animation i], of t "Ok ()" u] u(1) assms(2)
    by (simp add: stays_def)
  then show ?thesis using u by (intro exI [of _ b] exI [of _ u]) (simp add: after_def)
qed

lemma open_silently_runs:
  assumes "ok t" "jt_ready t" "je_data E = answer"
  shows "\<exists>u. open_node E animation no_callback i t = Some (Ok (), u) \<and> after t u"
proof (cases "node_at t i = None \<or> i = ''#'' \<or> is_loading t i")
  case True
  have "same t (t\<lparr>jt_timers := jt_timers t @ [i]\<rparr>)" by simp
  then have k: "ok (t\<lparr>jt_timers := jt_timers t @ [i]\<rparr>)" by (rule rows_ok_same [OF assms(1)])
  have c: "calm (open_loaded animation no_callback i) t" if "node_at t i \<noteq> None"
    using calm_open_loaded [OF rows_ok_wf [OF assms(1)] that] .
  obtain u where u: "open_node E animation no_callback i t = Some (Ok (), u)" "ok u" "keeps_loaded t u"
    using True k c assms(1) unfolding calm_def
    by (cases "node_at t i = None"; cases "i = ''#''"; cases "is_closed t i"; cases "is_loaded t i")
      (auto simp: open_node_def open_node_with_def keeps_loaded_def intro: rows_ok_same [OF assms(1)] dest: same_loaded)
  have "stays (jt_restore t) (jst.more t) u"
    using keepsD [OF stays_opens.open_silently_keeps, of "jt_restore t" "jst.more t" t] u(1) assms(2) by (simp add: stays_def)
  then show ?thesis using u unfolding after_def by blast
next
  case False
  then obtain n where "node_at t i = Some n" by auto
  from open_runs [OF assms this, of animation] show ?thesis using False by auto
qed

end

section \<open>What is left to restore\<close>

definition todo :: "'z jst_scheme \<Rightarrow> string set" where
  "todo t = (if rs_core (jt_restore t) then (case rs_open (jt_restore t) of None \<Rightarrow> {} | Some op \<Rightarrow> set op) else {})"

definition todo_once :: "'z jst_scheme \<Rightarrow> bool" where
  "todo_once t \<longleftrightarrow> (case rs_open (jt_restore t) of None \<Rightarrow> True | Some op \<Rightarrow> distinct op)"

definition unloaded :: "'z jst_scheme \<Rightarrow> string set" where
  "unloaded t = {x \<in> todo t. \<not> is_loaded t x}"

lemma finite_unloaded: "finite (unloaded t)"
  by (simp add: unloaded_def todo_def split: option.split)

definition nothing_selected :: "'z jst_scheme \<Rightarrow> bool" where
  "nothing_selected t \<longleftrightarrow> rs_selected (jt_restore t) = None \<or> rs_selected (jt_restore t) = Some []"

lemma restore_fields:
  assumes "jt_restore u = jt_restore t"
  shows "todo u = todo t" "todo_once u = todo_once t" "nothing_selected u = nothing_selected t"
  by (simp_all add: todo_def todo_once_def nothing_selected_def assms)

lemma drop_open_todo:
  shows "todo (drop_open i t) \<subseteq> todo t" "todo_once t \<Longrightarrow> todo_once (drop_open i t)"
    "nothing_selected (drop_open i t) = nothing_selected t" "todo_once t \<Longrightarrow> i \<notin> todo (drop_open i t)"
    "is_loaded (drop_open i t) x = is_loaded t x" "jt_ready (drop_open i t) = jt_ready t" "same t (drop_open i t)"
  by (auto simp: drop_open_def Let_def todo_def todo_once_def nothing_selected_def dest: notin_set_remove1 set_remove1_subset [THEN subsetD]
      split: option.splits)

lemma fewer_unloaded:
  assumes "keeps_loaded t u" "todo u \<subseteq> todo t" "x \<in> todo t" "\<not> is_loaded t x" "x \<in> todo u \<Longrightarrow> is_loaded u x"
  shows "card (unloaded u) < card (unloaded t)"
proof (rule psubset_card_mono [OF finite_unloaded])
  have "unloaded u \<subseteq> unloaded t" using assms(1,2) by (auto simp: unloaded_def keeps_loaded_def)
  moreover have "x \<in> unloaded t" "x \<notin> unloaded u" using assms(3-5) by (auto simp: unloaded_def)
  ultimately show "unloaded u \<subset> unloaded t" by blast
qed

section \<open>Restoring\<close>

text \<open>The handler of a selected row returns, and leaves loaded nodes loaded and the restoring alone.\<close>

locale row_handler = row_widget answer src known E
  for answer :: "string \<Rightarrow> 'z jst_scheme \<Rightarrow> jdata list option outcome" and src known and E :: "'z jst_scheme jst_env" +
  assumes handles: "ok t \<Longrightarrow> jt_ready t \<Longrightarrow>
    \<exists>u. je_select E i t = Some (Ok (), u) \<and> ok u \<and> keeps_loaded t u \<and> jt_ready u \<and> jt_restore u = jt_restore t"
begin

definition onward :: "'z jst_scheme \<Rightarrow> 'z jst_scheme \<Rightarrow> bool" where
  "onward t u \<longleftrightarrow> ok u \<and> jt_ready u \<and> todo_once u \<and> keeps_loaded t u \<and> todo u \<subseteq> todo t \<and>
     (nothing_selected t \<longrightarrow> nothing_selected u \<and> jst.more u = jst.more t)"

lemma onward_trans: "onward t u \<Longrightarrow> onward u v \<Longrightarrow> onward t v"
  by (auto simp: onward_def intro: keeps_loaded_trans)

lemma onward_refl: "ok t \<Longrightarrow> jt_ready t \<Longrightarrow> todo_once t \<Longrightarrow> onward t t"
  by (simp add: onward_def)

lemma onward_after: "after t u \<Longrightarrow> todo_once t \<Longrightarrow> onward t u"
  using restore_fields [of u t] by (auto simp: after_def onward_def stays_def)

lemma onward_drop:
  assumes "ok t" "jt_ready t" "todo_once t"
  shows "onward t (drop_open i t)"
proof -
  have "ok (drop_open i t)" "jst.more (drop_open i t) = jst.more t"
    using rows_ok_same [OF assms(1) drop_open_todo(7)] drop_open_todo(7) [of t i] by (simp_all add: same_def)
  then show ?thesis using assms drop_open_todo(2) [OF assms(3)] by (simp add: onward_def keeps_loaded_def drop_open_todo(1,3,5,6))
qed

lemma select_ends:
  assumes "ok t" "jt_ready t"
  shows "\<exists>u. select_node E False i t = Some (Ok (), u) \<and> ok u \<and> keeps_loaded t u \<and> jt_ready u \<and> jt_restore u = jt_restore t"
proof (cases "i \<noteq> ''#'' \<and> with_node i (\<lambda>n. \<not> st_selected (nd_state n)) t")
  case False
  then have "select_node E False i t = retM () t" by (auto simp: select_node_def)
  then show ?thesis using assms by simp
next
  case True
  then obtain n where n: "node_at t i = Some n" by (auto simp: with_node_def split: option.splits)
  let ?t = "put_data (oset i (set_flag (\<lambda>s. s\<lparr>st_selected := True\<rparr>) n) (jt_data t)) t\<lparr>jt_sel := jt_sel t @ [i]\<rparr>"
  have s: "same t ?t" using same_upd [of t i n "set_flag (\<lambda>s. s\<lparr>st_selected := True\<rparr>)", OF n bare_flag(2)] by simp
  obtain u where u: "open_to E i ?t = Some (Ok (), u)" "same ?t u"
    using calm_open_to [OF rows_ok_same [OF assms(1) s], of E i] by (auto simp: calm_def)
  have "stays (jt_restore t) (jst.more t) u"
    using keepsD [OF stays_opens.open_to_keeps _ u(1)] assms(2) by (simp add: stays_def put_data_def)
  then have r: "jt_ready u" "jt_restore u = jt_restore t" by (simp_all add: stays_def)
  have tu: "same t u" using same_trans [OF s u(2)] .
  obtain v where v: "je_select E i u = Some (Ok (), v)" "ok v" "keeps_loaded u v" "jt_ready v" "jt_restore v = jt_restore u"
    using handles [OF rows_ok_same [OF assms(1) tu] r(1)] by blast
  have "select_node E False i t = Some (Ok (), v)"
    using True n u(1) v(1) by (simp add: select_node_def atM_def bindM_def whenM_def put_data_def)
  then show ?thesis using v r(2) keeps_loaded_trans [OF same_keeps_loaded [OF tu] v(3)] by auto
qed

lemma select_each_ends:
  assumes "ok t" "jt_ready t"
  shows "\<exists>u. eachM (select_node E False) is t = Some (Ok (), u) \<and> ok u \<and> keeps_loaded t u \<and> jt_ready u \<and> jt_restore u = jt_restore t \<and>
    (is = [] \<longrightarrow> u = t)"
  using assms
proof (induction "is" arbitrary: t)
  case (Cons i "is")
  obtain u where u: "select_node E False i t = Some (Ok (), u)" "ok u" "keeps_loaded t u" "jt_ready u" "jt_restore u = jt_restore t"
    using select_ends [OF Cons.prems] by blast
  show ?case using Cons.IH [OF u(2,4)] u keeps_loaded_trans [OF u(3)] by (auto simp: bindM_def)
qed simp

text \<open>The end of restoring, when nothing is left to open.\<close>

lemma restore_selected_ends:
  assumes "ok t" "jt_ready t" "rs_open (jt_restore t) = None"
  shows "\<exists>u. restore_selected E (retM ()) t = Some (Ok (), u) \<and> onward t u"
proof (cases "rs_selected (jt_restore t)")
  case None
  let ?u = "t\<lparr>jt_restore := (jt_restore t)\<lparr>rs_core := False\<rparr>\<rparr>"
  have "ok ?u" by (rule rows_ok_same [OF assms(1)]) simp
  then have "onward t ?u" using assms None by (simp add: onward_def todo_def todo_once_def nothing_selected_def keeps_loaded_def)
  then show ?thesis using None by (simp add: restore_selected_def bindM_def)
next
  case (Some sel)
  have "same t (deselect_all t)" by simp
  then have d: "same t (deselect_all t)" "jt_ready (deselect_all t)" "jt_restore (deselect_all t) = jt_restore t" "jst.more (deselect_all t) = jst.more t"
    using assms(2) by (simp_all add: deselect_all_def)
  obtain u where u: "eachM (select_node E False) sel (deselect_all t) = Some (Ok (), u)" "ok u" "keeps_loaded (deselect_all t) u" "jt_ready u"
      "jt_restore u = jt_restore t" "sel = [] \<longrightarrow> u = deselect_all t"
    using select_each_ends [OF rows_ok_same [OF assms(1) d(1)] d(2), of sel] d(3) by auto
  let ?v = "u\<lparr>jt_restore := (jt_restore t)\<lparr>rs_selected := None, rs_core := False\<rparr>\<rparr>"
  have "ok ?v" by (rule rows_ok_same [OF u(2)]) simp
  moreover have "keeps_loaded t ?v" using keeps_loaded_trans [OF same_keeps_loaded [OF d(1)] u(3)] by (simp add: keeps_loaded_def)
  ultimately have "onward t ?v" using u(4,6) assms(3) Some d(4) by (auto simp: onward_def todo_def todo_once_def nothing_selected_def)
  moreover have "restore_selected E (retM ()) t = Some (Ok (), ?v)" using Some u(1,5) by (simp add: restore_selected_def bindM_def)
  ultimately show ?thesis by blast
qed

text \<open>One node of those that were open, when every further call with less to load ends.\<close>

lemma restore_unloaded_ends:
  assumes IH: "\<And>s. ok s \<Longrightarrow> jt_ready s \<Longrightarrow> todo_once s \<Longrightarrow> card (unloaded s) < card (unloaded t) \<Longrightarrow>
      \<exists>u. set_state d E (retM ()) s = Some (Ok (), u) \<and> onward s u"
    and s: "onward t s" and i: "i \<in> todo t" "i \<noteq> ''#''" "node_at s i = Some n" "\<not> is_loaded s i" "\<not> is_loading s i"
  shows "\<exists>u. open_node E False (\<lambda>o' q. bindM (whenM (\<not> q) (modifyM (drop_open o'))) (\<lambda>_. set_state d E (retM ()))) i s = Some (Ok (), u) \<and> onward t u"
proof -
  have k: "ok s" "jt_ready s" "todo_once s" "keeps_loaded t s" using s by (simp_all add: onward_def)
  from open_runs [OF k(1,2) rows i(3,2,5), of False]
  obtain b u where u: "\<forall>callback. open_node E False callback i s = callback i b u" "after s u" "b \<longrightarrow> is_loaded u i" by metis
  define w where "w = (if b then u else drop_open i u)"
  have su: "onward s u" by (rule onward_after [OF u(2) k(3)])
  have sw: "onward s w" using onward_trans [OF su onward_drop, of i] su by (simp add: w_def onward_def)
  have w: "ok w" "jt_ready w" "todo_once w" "keeps_loaded t w" "todo w \<subseteq> todo t"
    using onward_trans [OF s sw] by (simp_all add: onward_def)
  have "card (unloaded w) < card (unloaded t)"
  proof (rule fewer_unloaded [OF w(4,5) i(1)])
    show "\<not> is_loaded t i" using i(4) k(4) by (auto simp: keeps_loaded_def)
    show "is_loaded w i" if "i \<in> todo w" using that u(3) drop_open_todo(4) [of u i] su by (auto simp: w_def onward_def split: if_splits)
  qed
  then obtain v where v: "set_state d E (retM ()) w = Some (Ok (), v)" "onward w v" using IH [OF w(1-3)] by blast
  have "open_node E False (\<lambda>o' q. bindM (whenM (\<not> q) (modifyM (drop_open o'))) (\<lambda>_. set_state d E (retM ()))) i s = Some (Ok (), v)"
    using u(1) v(1) by (cases b) (simp_all add: bindM_def whenM_def w_def)
  then show ?thesis using onward_trans [OF s onward_trans [OF sw v(2)]] by blast
qed

lemma restore_open_ends:
  assumes IH: "\<And>s. ok s \<Longrightarrow> jt_ready s \<Longrightarrow> todo_once s \<Longrightarrow> card (unloaded s) < card (unloaded t) \<Longrightarrow>
      \<exists>u. set_state d E (retM ()) s = Some (Ok (), u) \<and> onward s u"
    and s: "onward t s" and i: "i \<in> todo t"
  shows "\<exists>b u. restore_open E (\<lambda>o' q. bindM (whenM (\<not> q) (modifyM (drop_open o'))) (\<lambda>_. set_state d E (retM ()))) i s = Some (Ok b, u) \<and> onward t u"
proof -
  have k: "ok s" "jt_ready s" "todo_once s" using s by (simp_all add: onward_def)
  consider "node_at s i = None" | "node_at s i \<noteq> None" "is_loaded s i" | "node_at s i \<noteq> None" "\<not> is_loaded s i" "is_loading s i \<or> i = ''#''"
    | n where "node_at s i = Some n" "\<not> is_loaded s i" "\<not> is_loading s i" "i \<noteq> ''#''" by blast
  then show ?thesis
  proof cases
    case 1
    then show ?thesis using s by (auto simp: restore_open_def)
  next
    case 2
    obtain u where u: "whenM (is_closed s i) (open_node E False no_callback i) s = Some (Ok (), u)" "onward s u"
      using open_silently_runs [OF k(1,2) rows, of False i] onward_after [OF _ k(3)] onward_refl [OF k(1-3)]
      by (cases "is_closed s i") (auto simp: whenM_def)
    have "onward u (drop_open i u)" by (rule onward_drop) (use u(2) in \<open>simp_all add: onward_def\<close>)
    then show ?thesis using 2 u onward_trans [OF s onward_trans [OF u(2)]] by (auto simp: restore_open_def bindM_def)
  next
    case 3
    then show ?thesis using s by (auto simp: restore_open_def bindM_def whenM_def open_node_def open_node_with_def)
  next
    case 4
    from restore_unloaded_ends [OF IH s i 4(4,1,2,3)] show ?thesis using 4 by (auto simp: restore_open_def bindM_def whenM_def)
  qed
qed

lemma restore_each_ends:
  assumes "\<And>i s. i \<in> set xs \<Longrightarrow> onward t s \<Longrightarrow> \<exists>b u. f i s = Some (Ok b, u) \<and> onward t u" "onward t s"
  shows "\<exists>b u. restore_each f xs s = Some (Ok b, u) \<and> onward t u"
  using assms
proof (induction xs arbitrary: s)
  case (Cons i xs)
  obtain b u where u: "f i s = Some (Ok b, u)" "onward t u" using Cons.prems(1) [of i s] Cons.prems(2) by auto
  obtain c v where "restore_each f xs u = Some (Ok c, v)" "onward t v" using Cons.IH [OF _ u(2)] Cons.prems(1) by auto
  then show ?case using u(1) by (auto simp: bindM_def)
qed auto

lemma set_state_ends:
  "ok t \<Longrightarrow> jt_ready t \<Longrightarrow> todo_once t \<Longrightarrow> card (unloaded t) < d \<Longrightarrow> \<exists>u. set_state d E (retM ()) t = Some (Ok (), u) \<and> onward t u"
proof (induction d arbitrary: t)
  case (Suc d)
  let ?cb = "\<lambda>o' q. bindM (whenM (\<not> q) (modifyM (drop_open o'))) (\<lambda>_. set_state d E (retM ()))"
  have tt: "onward t t" by (rule onward_refl [OF Suc.prems(1-3)])
  show ?case
  proof (cases "rs_core (jt_restore t)")
    case True
    show ?thesis
    proof (cases "rs_open (jt_restore t)")
      case None
      then show ?thesis using restore_selected_ends [OF Suc.prems(1,2)] True by (simp del: retM_eq)
    next
      case (Some op)
      have "\<exists>b u. restore_each (restore_open E ?cb) op t = Some (Ok b, u) \<and> onward t u"
      proof (rule restore_each_ends [OF restore_open_ends tt])
        show "\<exists>u. set_state d E (retM ()) s = Some (Ok (), u) \<and> onward s u"
          if "ok s" "jt_ready s" "todo_once s" "card (unloaded s) < card (unloaded t)" for s
          by (rule Suc.IH [OF that(1-3)]) (use that(4) Suc.prems(4) in simp)
        show "i \<in> todo t" if "i \<in> set op" for i using that True Some by (simp add: todo_def)
      qed
      then obtain b u where u: "restore_each (restore_open E ?cb) op t = Some (Ok b, u)" "onward t u" by blast
      let ?u = "u\<lparr>jt_restore := (jt_restore u)\<lparr>rs_open := None\<rparr>\<rparr>"
      have "ok ?u" by (rule rows_ok_same [of _ _ u]) (use u(2) in \<open>simp_all add: onward_def\<close>)
      then have ou: "onward u ?u" using u(2) by (simp add: onward_def todo_def todo_once_def nothing_selected_def keeps_loaded_def)
      obtain v where v: "restore_selected E (retM ()) ?u = Some (Ok (), v)" "onward ?u v"
        using restore_selected_ends [of ?u] ou by (auto simp: onward_def)
      have "set_state (Suc d) E (retM ()) t = (if b then restore_selected E (retM ()) ?u else Some (Ok (), u))"
        unfolding set_state.simps if_P [OF True] Some option.case bindM_Ok [of "restore_each (restore_open E ?cb) op", OF u(1)]
        by (simp add: bindM_def retM_def [of _ u] del: retM_eq)
      then show ?thesis using v(1) u(2) onward_trans [OF u(2) onward_trans [OF ou v(2)]] by (cases b) (auto simp del: retM_eq)
    qed
  qed (use tt in simp)
qed simp

text \<open>A refresh returns, and touches nothing but the widget when nothing is selected.\<close>

lemma refresh_ends:
  assumes "ok t" "jt_ready t"
  shows "\<exists>u. refresh_tree E t = Some (Ok (), u) \<and> ((\<forall>i. \<not> is_selected t i) \<longrightarrow> jst.more u = jst.more t)"
proof -
  define t0 where "t0 = t\<lparr>jt_cnt := 0, jt_data := [(''#'', root_node)], jt_dom := [], jt_sliding := []\<rparr>"
  obtain op sel where r: "get_state t = \<lparr>rs_core = True, rs_open = Some op, rs_selected = Some sel\<rparr>" "distinct op"
      "set sel \<subseteq> {i. is_selected t i}"
    using rows_ok_wf [OF assms(1)] by (auto simp: tree_wf_def get_state_def Let_def is_selected_def distinct_okeys)
  have n: "node_at t0 ''#'' = Some root_node" "\<not> st_loaded (nd_state root_node)" by (simp_all add: t0_def oget_def root_node_def no_state_def)
  have k0: "ok t0" by (rule root_ok) (simp add: t0_def)
  from load_step [OF k0 n rows]
  obtain v where v: "\<forall>on_load callback. load_node_with on_load E callback ''#'' t0 = bindM (on_load ''#'' True) (\<lambda>_. callback ''#'' True) v"
    "ok v" "jst.more v = jst.more t0" by blast
  have "keeps (stays (jt_restore t0) (jst.more t0)) (load_node_with no_callback E no_callback ''#'')"
    by (rule stays_loads.load_with_keeps) auto
  from keepsD [OF this, of t0 "Ok ()" v] have rv: "jt_ready v" using v(1) assms(2) by (simp add: stays_def bindM_def t0_def)
  let ?w = "v\<lparr>jt_loaded := True, jt_restore := get_state t\<rparr>"
  have w: "ok ?w" "jt_ready ?w" "todo_once ?w" using rows_ok_same [OF v(2), of ?w] rv r by (simp_all add: todo_once_def)
  have "unloaded ?w \<subseteq> set op" using r(1) by (auto simp: unloaded_def todo_def)
  then have "card (unloaded ?w) < Suc (length op)" using card_mono [of "set op" "unloaded ?w"] card_length [of op] by simp
  then obtain u where u: "set_state (Suc (length op)) E (retM ()) ?w = Some (Ok (), u)" "onward ?w u" using set_state_ends [OF w] by blast
  have "refresh_tree E t = Some (Ok (), u)"
    using v(1) rv u(1) r(1) unfolding refresh_tree_def t0_def [symmetric] load_node_def
    by (simp add: on_load_node_def first_load_def bindM_def whenM_def del: set_state.simps)
  moreover have "jst.more u = jst.more t" if "\<forall>i. \<not> is_selected t i"
    using that r(1,3) u(2) v(3) by (auto simp: onward_def nothing_selected_def t0_def)
  ultimately show ?thesis by blast
qed

end

end
