(* ===== verification/Counter_Rows.thy ===== *)
theory Counter_Rows
  imports Counter_Tree_Props Jstree_Restore
begin

text \<open>
  What src/files/graph.js gives the tree widget: the rows of the counter tree and the reaction to a
  selected row. The rest of the page is a parameter, with what a resize of the document and toggling
  a counter do to it. The rows satisfy the contract of the widget, so a row that stands for a counter
  always carries that counter's name.
\<close>

section \<open>Rows\<close>

definition counter_rows :: "node \<Rightarrow> jdata list" where
  "counter_rows n =
     map (\<lambda>r. JObject \<lparr>jd_id = None, jd_text = Some (r_text r), jd_state = [], jd_li_attr = [],
                        jd_a_attr = (if r_branch r then [] else [(''class'', r_class r)])\<rparr>
               (if r_branch r then None else Some []))
       (formatTreeLevel n)"

text \<open>A node that the widget does not have has no text: as a key that is the word undefined.\<close>

definition key_text :: "'z jst_scheme \<Rightarrow> string \<Rightarrow> string" where
  "key_text t i = (case node_at t i of None \<Rightarrow> ''undefined'' | Some n \<Rightarrow> nd_text n)"

definition counter_data :: "node \<Rightarrow> string \<Rightarrow> 'z jst_scheme \<Rightarrow> jdata list option outcome" where
  "counter_data ct i t =
     (if i = ''#'' then Ok (Some (counter_rows ct))
      else bind_outcome (findNodeInCounterTree ct (map (key_text t) (id_path t i))) (\<lambda>n. Ok (Some (counter_rows n))))"

section \<open>The reaction to a selected row\<close>

record 'p jst_page = jst +
  w_page :: 'p

record 'p page_ops =
  po_resize :: "'p \<Rightarrow> 'p"
  po_toggle :: "string \<Rightarrow> 'p \<Rightarrow> unit outcome \<times> 'p"

definition rows_env :: "node \<Rightarrow> 'p jst_page jst_env" where
  "rows_env ct = \<lparr>je_data = counter_data ct, je_select = (\<lambda>_. retM ()), je_multiple = True, je_animation = True\<rparr>"

text \<open>The row of a counter, which has a class, toggles the counter; another row opens or closes.\<close>

definition on_select_node :: "'p page_ops \<Rightarrow> node \<Rightarrow> string \<Rightarrow> (unit, 'p jst_page) act" where
  "on_select_node pg ct i t =
     (case node_at t i of
        None \<Rightarrow> retM () t
      | Some n \<Rightarrow>
          if oget (nd_a_attr n) ''class'' \<noteq> None
          then (case po_toggle pg (getCounterName (text_path t i)) (w_page t) of (r, p) \<Rightarrow> Some (r, t\<lparr>w_page := p\<rparr>))
          else if is_open t i then close_node True i t
          else open_node (rows_env ct) True no_callback i t)"

definition tree_env :: "'p page_ops \<Rightarrow> node \<Rightarrow> 'p jst_page jst_env" where
  "tree_env pg ct = (rows_env ct)\<lparr>je_select := on_select_node pg ct\<rparr>"

section \<open>Every level is an object\<close>

function objs_ok :: "node \<Rightarrow> bool" where
  "objs_ok (Node t cs ty) \<longleftrightarrow> wf_obj cs \<and> (\<forall>p\<in>set cs. objs_ok (snd p))"
  by pat_completeness auto

termination
  by (relation "measure size") (auto dest!: child_size simp del: node.size)

lemma objs_ok_iff:
  assumes "wf_obj cs"
  shows "objs_ok (Node t cs ty) \<longleftrightarrow> (\<forall>k c. oget cs k = Some c \<longrightarrow> objs_ok c)"
  using wf_obj_set [OF assms] assms by fastforce

lemma objs_ok_get: "objs_ok n \<Longrightarrow> oget (n_children n) k = Some c \<Longrightarrow> objs_ok c"
  by (cases n) (force simp: oget_def dest: map_of_SomeD)

lemma objs_ok_wf: "objs_ok n \<Longrightarrow> wf_obj (n_children n)"
  by (cases n) simp

lemma objs_ok_parts: "objs_ok (Node t cs ty) = objs_ok (Node t' cs ty')"
  by simp

lemma objs_ok_set:
  assumes "objs_ok (Node t cs ty)" "objs_ok c"
  shows "objs_ok (Node t' (oset f c cs) ty')"
proof -
  have wf: "wf_obj cs" using objs_ok_wf [OF assms(1)] by simp
  have "objs_ok d" if "oget (oset f c cs) k = Some d" for k d
    using that assms(2) objs_ok_get [OF assms(1), of k d] by (auto simp: obj_simps split: if_splits)
  then show ?thesis using objs_ok_iff [OF wf_obj_oset [OF wf, of f c], of t' ty'] by blast
qed

lemma insert_fields_objs: "insert_fields fs ty n = Ok m \<Longrightarrow> objs_ok n \<Longrightarrow> objs_ok m"
proof (induction fs arbitrary: n m)
  case Nil
  then show ?case by (cases n) auto
next
  case (Cons f fs)
  obtain t cs ty0 where n: "n = Node t cs ty0" by (cases n)
  have new: "objs_ok (newNode f)" by (simp add: newNode_def wf_obj_def)
  show ?case
  proof (cases "oget cs f")
    case None
    then show ?thesis
      using Cons.prems Cons.IH [OF _ new] objs_ok_set [of t cs ty0] by (auto simp: n simp del: objs_ok.simps split: if_splits outcome.splits)
  next
    case (Some c)
    then have "objs_ok c" using objs_ok_get [OF Cons.prems(2), of f c] by (simp add: n)
    then show ?thesis
      using Some Cons.prems Cons.IH [of c] objs_ok_set [of t cs ty0] by (auto simp: n simp del: objs_ok.simps split: outcome.splits)
  qed
qed

lemma insert_counters_objs: "insert_counters cs n = Ok m \<Longrightarrow> objs_ok n \<Longrightarrow> objs_ok m"
  by (induction cs arbitrary: n) (auto split: outcome.splits dest: insert_fields_objs)

lemma objs_ok_move:
  assumes "objs_ok (Node t cs ty)" "objs_ok c"
  shows "objs_ok (Node t (maybeMoveUp k c cs) ty)"
proof -
  have wf: "wf_obj cs" using objs_ok_wf [OF assms(1)] by simp
  have w: "wf_obj (maybeMoveUp k c cs)" by (rule maybeMoveUp_wf [OF wf])
  have kids: "objs_ok d" if "n_children c = [(ck, d)]" for ck d using assms(2) that by (cases c) simp
  have old: "objs_ok d" if "oget cs x = Some d" for x d using objs_ok_iff [OF wf] assms(1) that by blast
  have "objs_ok d" if "oget (maybeMoveUp k c cs) x = Some d" for x d
    using that old assms(2) kids
    by (auto simp: maybeMoveUp_get simp del: objs_ok.simps split: list.splits prod.splits if_splits)
      (metis node.exhaust_sel objs_ok_parts)+
  then show ?thesis using objs_ok_iff [OF w] by blast
qed

lemma collapse_objs: "objs_ok n \<Longrightarrow> objs_ok (collapse n)"
proof (induction n rule: collapse.induct)
  case (1 t cs ty)
  have sub: "objs_ok (collapse (snd p))" if "p \<in> set (child_items cs)" for p
    using "1.IH" [OF that] "1.prems" child_items_in [OF that] by auto
  have "objs_ok (Node t (fold (\<lambda>p tree. maybeMoveUp (fst p) (collapse (snd p)) tree) ps tree) ty)"
    if "set ps \<subseteq> set (child_items cs)" "objs_ok (Node t tree ty)" for ps tree
    using that
  proof (induction ps arbitrary: tree)
    case (Cons p ps)
    then show ?case using objs_ok_move [of t tree ty "collapse (snd p)" "fst p"] sub [of p] by (simp del: objs_ok.simps)
  qed simp
  from this [of "child_items cs" cs] show ?case using "1.prems" by (simp del: objs_ok.simps)
qed

text \<open>The tree of a list of counters, when the list has one.\<close>

definition tree_for :: "counter list \<Rightarrow> node" where
  "tree_for cs = (case asCounterTree cs of Ok t \<Rightarrow> t | Throw _ \<Rightarrow> newNode ''#'')"

lemma tree_for_objs: "objs_ok (tree_for cs)"
proof -
  have n: "objs_ok (newNode ''#'')" by (simp add: newNode_def wf_obj_def)
  then show ?thesis
    using insert_counters_objs [of cs "newNode ''#''"] by (auto simp: tree_for_def asCounterTree_def intro: collapse_objs split: outcome.split)
qed

section \<open>The contract of the rows\<close>

lemma findNode_append:
  "findNodeInCounterTree n (p @ q) = bind_outcome (findNodeInCounterTree n p) (\<lambda>m. findNodeInCounterTree m q)"
  by (induction n p rule: findNodeInCounterTree.induct) (auto split: option.split)

lemma findNode_objs: "findNodeInCounterTree n p = Ok m \<Longrightarrow> objs_ok n \<Longrightarrow> objs_ok m"
  by (induction n p rule: findNodeInCounterTree.induct) (auto split: option.splits dest: objs_ok_get)

definition counter_known :: "node \<Rightarrow> string list \<Rightarrow> bool" where
  "counter_known ct p \<longleftrightarrow> is_ok (findNodeInCounterTree ct p)"

definition counter_src :: "node \<Rightarrow> string list \<Rightarrow> jdata list" where
  "counter_src ct p = (case findNodeInCounterTree ct p of Ok n \<Rightarrow> counter_rows n | Throw _ \<Rightarrow> [])"

lemma counter_knownE:
  assumes "counter_known ct p"
  obtains n where "findNodeInCounterTree ct p = Ok n" "counter_src ct p = counter_rows n"
  using assms by (cases "findNodeInCounterTree ct p") (auto simp: counter_known_def counter_src_def)

lemma counter_row:
  assumes "d \<in> set (counter_rows n)" "objs_ok n"
  obtains k c where "oget (n_children n) k = Some c" "row_text d = k" "row_lazy d \<longleftrightarrow> n_children c \<noteq> []" "plain_row d"
    "oget (row_attr d) ''class'' \<noteq> None \<longleftrightarrow> n_children c = []"
proof -
  obtain q where q: "q \<in> set (child_items (n_children n))"
    "d = JObject \<lparr>jd_id = None, jd_text = Some (fst q), jd_state = [], jd_li_attr = [],
           jd_a_attr = (if n_children (snd q) \<noteq> [] then [] else [(''class'', icons (n_type (snd q)))])\<rparr>
         (if n_children (snd q) \<noteq> [] then None else Some [])"
    using assms(1) by (auto simp: counter_rows_def formatTreeLevel_def split: if_splits)
  have "oget (n_children n) (fst q) = Some (snd q)"
    using child_items_in [OF q(1)] wf_obj_set [OF objs_ok_wf [OF assms(2)], of "fst q" "snd q"] by simp
  then show ?thesis
    by (rule that) (auto simp: q(2) row_text_def row_fields_def row_lazy_def plain_row_def row_attr_def assign_attrs_def oget_def)
qed

lemma counter_answers:
  assumes "tree_wf t" "node_at t i \<noteq> None" "counter_known ct (text_path t i)"
  shows "counter_data ct i t = Ok (Some (counter_src ct (text_path t i)))"
proof -
  have "map (key_text t) (id_path t i) = text_path t i"
    using id_path_nodes [OF assms(1)] by (auto simp: text_path_def key_text_def text_at_def split: option.splits)
  moreover obtain n where "findNodeInCounterTree ct (text_path t i) = Ok n" "counter_src ct (text_path t i) = counter_rows n"
    using assms(3) by (rule counter_knownE)
  ultimately show ?thesis using text_path_root [OF assms(1)] by (auto simp: counter_data_def)
qed

interpretation counter_source: row_source "counter_data (tree_for cs)" "counter_src (tree_for cs)" "counter_known (tree_for cs)" for cs
proof
  let ?ct = "tree_for cs"
  show "counter_known ?ct []" by (simp add: counter_known_def)
  fix p d assume k: "counter_known ?ct p" and d: "d \<in> set (counter_src ?ct p)"
  obtain n where n: "findNodeInCounterTree ?ct p = Ok n" "counter_src ?ct p = counter_rows n" using k by (rule counter_knownE)
  obtain c where c: "oget (n_children n) (row_text d) = Some c" "row_lazy d \<longleftrightarrow> n_children c \<noteq> []" "plain_row d"
    using counter_row [of d n] d n(2) findNode_objs [OF n(1) tree_for_objs] by metis
  have f: "findNodeInCounterTree ?ct (p @ [row_text d]) = Ok c" using n(1) c(1) by (simp add: findNode_append)
  show "counter_known ?ct (p @ [row_text d])" using f by (simp add: counter_known_def)
  show "plain_row d" by (rule c(3))
  show "counter_src ?ct (p @ [row_text d]) = []" if "\<not> row_lazy d"
    using that f c(2) by (simp add: counter_src_def counter_rows_def formatTreeLevel_def child_items_def)
qed (rule counter_answers)

abbreviation shows_tree :: "counter list \<Rightarrow> 'z jst_scheme \<Rightarrow> bool" where
  "shows_tree cs \<equiv> rows_ok (counter_src (tree_for cs)) (counter_known (tree_for cs))"

section \<open>The widget of the counter tree\<close>

lemma page_update [simp]:
  "rows_ok src known (t\<lparr>w_page := p\<rparr>) = rows_ok src known t" "sel_covers (t\<lparr>w_page := p\<rparr>) = sel_covers t"
  by (simp_all add: rows_ok_def tree_wf_def text_path_def id_path_def text_at_def [abs_def] node_row_def [abs_def] sel_covers_def)

interpretation rows_widget: row_widget "counter_data (tree_for cs)" "counter_src (tree_for cs)" "counter_known (tree_for cs)" "rows_env (tree_for cs)" for cs
  by unfold_locales (auto simp: rows_env_def)

interpretation rows_covers: widget_invariant sel_covers "rows_env ct" for ct
  by (rule covers_widget) (auto simp: rows_env_def)

interpretation rows_ready: widget_invariant jt_ready "rows_env ct" for ct
  by (rule ready_widget) (auto simp: rows_env_def)

lemma on_select_keeps:
  fixes i :: string
  shows "keeps (shows_tree cs) (on_select_node pg (tree_for cs) i)" and "keeps sel_covers (on_select_node pg ct i)"
    and "keeps jt_ready (on_select_node pg ct i)"
proof -
  have step: "P u" if "P t" "on_select_node pg ct i t = Some (r, u)" "\<And>t p. P (t\<lparr>w_page := p\<rparr>) = P t" "keeps P (close_node True i)"
    "keeps P (open_node (rows_env ct) True no_callback i)" for P ct t r u
    using that(1,2) keepsD [OF that(4,1)] keepsD [OF that(5,1)] that(3)
    by (auto simp: on_select_node_def split: option.splits if_splits prod.splits)
  show "keeps (shows_tree cs) (on_select_node pg (tree_for cs) i)"
    by (rule keepsI) (erule (1) step, auto intro: rows_widget.shown.close_node_keeps rows_widget.shown.open_silently_keeps)
  show "keeps sel_covers (on_select_node pg ct i)"
    by (rule keepsI) (erule (1) step, auto intro: rows_covers.close_node_keeps rows_covers.open_silently_keeps)
  show "keeps jt_ready (on_select_node pg ct i)"
    by (rule keepsI) (erule (1) step, auto intro: rows_ready.close_node_keeps rows_ready.open_silently_keeps)
qed

interpretation tree_widget: row_widget "counter_data (tree_for cs)" "counter_src (tree_for cs)" "counter_known (tree_for cs)" "tree_env pg (tree_for cs)" for cs pg
  by unfold_locales (auto simp: tree_env_def rows_env_def intro: on_select_keeps(1))

interpretation tree_covers: widget_invariant sel_covers "tree_env pg ct" for pg ct
  by (rule covers_widget) (auto simp: tree_env_def intro: on_select_keeps(2))

interpretation tree_ready: widget_invariant jt_ready "tree_env pg ct" for pg ct
  by (rule ready_widget) (auto simp: tree_env_def intro: on_select_keeps(3))

text \<open>A page on which toggling a counter does not throw: the handler of a selected row always returns.\<close>

definition total_page :: "('p \<Rightarrow> 'p) \<Rightarrow> (string \<Rightarrow> 'p \<Rightarrow> 'p) \<Rightarrow> 'p page_ops" where
  "total_page rs tg = \<lparr>po_resize = rs, po_toggle = (\<lambda>n p. (Ok (), tg n p))\<rparr>"

interpretation tree_handler: row_handler "counter_data (tree_for cs)" "counter_src (tree_for cs)" "counter_known (tree_for cs)"
  "tree_env (total_page rs tg) (tree_for cs)" for cs rs tg
proof
  fix t :: "'a jst_page" and i assume t: "shows_tree cs t" "jt_ready t"
  let ?R = "\<lambda>u. shows_tree cs u \<and> keeps_loaded t u \<and> jt_ready u \<and> jt_restore u = jt_restore t"
  have closes: "\<exists>u. close_node True i t = Some (Ok (), u) \<and> ?R u"
  proof -
    obtain u where u: "close_node True i t = Some (Ok (), u)" "same t u" using calm_close_node [of True i t] by (auto simp: calm_def)
    then show ?thesis
      using rows_ok_same [OF t(1) u(2)] same_keeps_loaded [OF u(2)] t(2)
        keepsD [OF stays_opens.close_node_keeps [of "jt_restore t" "jst.more t" True i], of t "Ok ()" u] by (simp add: stays_def)
  qed
  have opens: "\<exists>u. open_node (rows_env (tree_for cs)) True no_callback i t = Some (Ok (), u) \<and> ?R u"
    using counter_source.open_silently_runs [OF t, of "rows_env (tree_for cs)" True i]
    by (auto simp: counter_source.after_def stays_def rows_env_def)
  show "\<exists>u. je_select (tree_env (total_page rs tg) (tree_for cs)) i t = Some (Ok (), u) \<and> ?R u"
    using t opens closes
    by (cases "node_at t i") (auto simp: tree_env_def on_select_node_def total_page_def keeps_loaded_def is_loaded_def with_node_def)
qed

section \<open>Rows of counters\<close>

lemma findNode_leaf_path:
  "findNodeInCounterTree n p = Ok c \<Longrightarrow> n_children c = [] \<Longrightarrow> (p, n_type c) \<in> leaf_paths n"
proof (induction n p rule: findNodeInCounterTree.induct)
  case (1 n)
  then show ?case by (simp add: leaf_paths_below)
next
  case (2 n t ts)
  obtain u cs ty where n: "n = Node u cs ty" by (cases n)
  obtain d where d: "oget cs t = Some d" "findNodeInCounterTree d ts = Ok c" using "2.prems"(1) by (auto simp: n split: option.splits)
  then have "(t, d) \<in> set cs" by (auto simp: oget_def dest: map_of_SomeD)
  moreover have "(ts, n_type c) \<in> leaf_paths d" using "2.IH" [of d] d "2.prems"(2) by (simp add: n)
  ultimately show ?case by (force simp: n)
qed

lemma leaf_in_tree_names:
  assumes "findNodeInCounterTree n p = Ok c" "n_children c = []" "p \<noteq> []"
  shows "(getCounterName p, n_type c) \<in> set (tree_names n)"
proof -
  have "n_children n \<noteq> []" using assms(1,3) by (cases p) (auto simp: oget_def split: option.splits)
  then have "(p, n_type c) \<in> below n" using findNode_leaf_path [OF assms(1,2)] by (simp add: below_def)
  then show ?thesis unfolding tree_names_below getCounterName_def using dotted_join [OF assms(3)] by force
qed

lemma leaf_row_named:
  assumes "shows_tree cs t" "node_at t i = Some n" "i \<noteq> ''#''" "oget (nd_a_attr n) ''class'' \<noteq> None"
  shows "getCounterName (text_path t i) \<in> fst ` set (tree_names (tree_for cs))"
proof -
  have wf: "tree_wf t" by (rule rows_ok_wf [OF assms(1)])
  obtain q qn where q: "node_at t q = Some qn" "nd_parents n = q # nd_parents qn" "i \<in> set (nd_children qn)"
    using wf_parent [OF wf assms(2,3)] by metis
  have "st_loaded (nd_state qn)" using rows_okD(3) [OF assms(1) q(1)] q(3) by (cases "nd_children qn") auto
  from rows_okD(2) [OF assms(1) q(1) this]
  have "node_row t i \<in># mset (map data_row (counter_src (tree_for cs) (text_path t q)))" using q(3) by (metis image_eqI set_image_mset set_mset_mset)
  then obtain d where d: "d \<in> set (counter_src (tree_for cs) (text_path t q))" "node_row t i = data_row d" by auto
  obtain m where m: "findNodeInCounterTree (tree_for cs) (text_path t q) = Ok m" "counter_src (tree_for cs) (text_path t q) = counter_rows m"
    using rows_okD(1) [OF assms(1) q(1)] by (rule counter_knownE)
  obtain c where c: "oget (n_children m) (row_text d) = Some c" "oget (row_attr d) ''class'' \<noteq> None \<longleftrightarrow> n_children c = []"
    using counter_row [of d m] d(1) m(2) findNode_objs [OF m(1) tree_for_objs] by metis
  have r: "nd_text n = row_text d" "nd_a_attr n = row_attr d" using d(2) assms(2) by (simp_all add: node_row_def data_row_def)
  have p: "text_path t i = text_path t q @ [row_text d]" using text_path_child [OF q(1) assms(2) q(2)] r(1) by simp
  have "findNodeInCounterTree (tree_for cs) (text_path t i) = Ok c" using m(1) c(1) by (simp add: p findNode_append)
  then show ?thesis using leaf_in_tree_names [of "tree_for cs" "text_path t i" c] c(2) assms(4) r(2) p by force
qed

end
