(* ===== verification/Tree_View.thy ===== *)
theory Tree_View
  imports Counter_Rows Frame Bb_Model_Props
begin

text \<open>
  The view of the counter tree in src/files/graph.js: \<open>CounterTreeModel\<close>, a Backbone model with
  two attributes, the search field (\<open>CounterTreeFilterView\<close>) and the tree (\<open>CounterTreeView\<close>),
  which listens to the model and is rendered again whenever an attribute changes. To render means to
  refresh the tree widget that is there, to destroy it and to make a new one for the new counter tree.
  The rest of the page is a parameter, with what a resize and toggling a counter do to it. How the
  browser compiles a regular expression is an argument: \<open>None\<close> for a source that is not one. The
  daemon answers with both attributes.
\<close>

section \<open>State\<close>

datatype tree_val = Text string | Names "counter list"

record 'p tree_view = "tree_val models" +
  tv_model :: ref
  tv_tree :: "node option"
  tv_jst :: jst
  tv_inst :: nat
  tv_input :: string
  tv_labelShown :: bool
  tv_page :: 'p

type_synonym regexp = "string \<Rightarrow> (string \<Rightarrow> bool) option"

definition pattern_text :: "tree_val jsval \<Rightarrow> string" where
  "pattern_text v =
     (case v of
        Undefined \<Rightarrow> ''undefined''
      | Null \<Rightarrow> ''null''
      | Val (Text t) \<Rightarrow> t
      | Val (Names cs) \<Rightarrow> join_str '','' (replicate (length cs) ''[object Object]''))"

definition model_url :: "tree_val model \<Rightarrow> string" where
  "model_url m = ''/?q='' @ pattern_text (model_get ''pattern'' m)"

definition counter_class :: "tree_val model_class" where
  "counter_class =
     \<lparr>c_defaults = [(''pattern'', Val (Text ''*'')), (''matching_names'', Val (Names []))], c_validate = None,
      c_parse = id, c_toJSON = id, c_url = (\<lambda>m. Ok (model_url m))\<rparr>"

definition app_env :: sync_env where
  "app_env = \<lparr>e_emulateHTTP = False, e_emulateJSON = False, e_noXhrPatch = False\<rparr>"

text \<open>Making the view: the model fetches as soon as it is made; the view listens only afterwards.\<close>

definition new_tree_view :: "'p \<Rightarrow> 'p tree_view" where
  "new_tree_view page =
     (let v = \<lparr>mods = (\<lambda>_. blank_model [] None), next_mod = 0, cidCounter = 0, requests = [], tv_model = 0, tv_tree = None,
               tv_jst = new_jst 0, tv_inst = 0, tv_input = [], tv_labelShown = True, tv_page = page\<rparr>
      in case new_model ignore_events counter_class (\<lambda>r. model_fetch ignore_events counter_class app_env r no_opts) [] None no_opts v of
           Some (Ok r, v1) \<Rightarrow> v1\<lparr>tv_model := r\<rparr>
         | _ \<Rightarrow> v)"

section \<open>Rendering\<close>

definition pattern_matcher :: "regexp \<Rightarrow> string \<Rightarrow> (string \<Rightarrow> bool) option" where
  "pattern_matcher rx p = (if p = ''*'' then Some (\<lambda>_. True) else rx (pattern_source p))"

definition names_of :: "tree_val jsval \<Rightarrow> counter list" where
  "names_of v = (case v of Val (Names cs) \<Rightarrow> cs | _ \<Rightarrow> [])"

text \<open>The tree for a pattern and the names: the pattern may be no regular expression, and the names no tree.\<close>

definition tree_of :: "regexp \<Rightarrow> tree_val jsval \<Rightarrow> tree_val jsval \<Rightarrow> node outcome" where
  "tree_of rx pat names =
     (case pat of
        Val (Text p) \<Rightarrow>
          (case pattern_matcher rx p of
             None \<Rightarrow> Throw (SyntaxError ''Invalid regular expression'')
           | Some se \<Rightarrow> render_tree (\<lambda>_. se) p (names_of names))
      | _ \<Rightarrow> Throw (TypeError ''indexOf is not a function''))"

text \<open>An operation of the widget, if there is one: it was made for a counter tree, and it may change the page.\<close>

definition attach :: "jst \<Rightarrow> 'p \<Rightarrow> 'p jst_page" where
  "attach j p = jst.extend j (jst_page.fields p)"

definition on_widget :: "(node \<Rightarrow> (unit, 'p jst_page) act) \<Rightarrow> (unit, 'p tree_view) act" where
  "on_widget f v =
     (case tv_tree v of
        None \<Rightarrow> retM () v
      | Some ct \<Rightarrow>
          (case f ct (attach (tv_jst v) (tv_page v)) of
             None \<Rightarrow> None
           | Some (r, w) \<Rightarrow> Some (r, v\<lparr>tv_jst := jst.truncate w, tv_page := w_page w\<rparr>)))"

definition make_widget :: "'p page_ops \<Rightarrow> node \<Rightarrow> (unit, 'p tree_view) act" where
  "make_widget pg ct v =
     on_widget (\<lambda>ct. init_tree (tree_env pg ct))
       (v\<lparr>tv_tree := Some ct, tv_inst := Suc (tv_inst v), tv_jst := new_jst (Suc (tv_inst v))\<rparr>)"

definition render_view :: "regexp \<Rightarrow> 'p page_ops \<Rightarrow> (unit, 'p tree_view) act" where
  "render_view rx pg v =
     (let m = mods v (tv_model v)
      in case tree_of rx (model_get ''pattern'' m) (model_get ''matching_names'' m) of
           Throw e \<Rightarrow> throwM e v
         | Ok t \<Rightarrow>
             bindM (on_widget (\<lambda>ct. refresh_tree (tree_env pg ct))) (\<lambda>_.
             bindM (make_widget pg t) (\<lambda>_.
             modifyM (\<lambda>v. v\<lparr>tv_page := po_resize pg (tv_page v)\<rparr>))) v)"

definition tree_listeners :: "regexp \<Rightarrow> 'p page_ops \<Rightarrow> (tree_val, 'p tree_view) notify" where
  "tree_listeners rx pg r n ev opts v =
     (if r = tv_model v \<and> n = ''change'' then render_view rx pg v else retM () v)"

definition set_pattern :: "regexp \<Rightarrow> 'p page_ops \<Rightarrow> string \<Rightarrow> (bool, 'p tree_view) act" where
  "set_pattern rx pg p v =
     model_set (tree_listeners rx pg) counter_class (tv_model v) [(''pattern'', Val (Text p))] no_opts v"

definition names_fetched :: "regexp \<Rightarrow> 'p page_ops \<Rightarrow> string \<Rightarrow> counter list \<Rightarrow> (unit, 'p tree_view) act" where
  "names_fetched rx pg p cs v =
     fetch_success (tree_listeners rx pg) counter_class (retM ()) (tv_model v)
       (Some [(''pattern'', Val (Text p)), (''matching_names'', Val (Names cs))]) no_opts v"

section \<open>The search field\<close>

definition input_focus :: "'p tree_view \<Rightarrow> 'p tree_view" where
  "input_focus v = v\<lparr>tv_labelShown := False\<rparr>"

definition label_click :: "'p tree_view \<Rightarrow> 'p tree_view" where
  "label_click v = input_focus v"

definition input_blur :: "'p tree_view \<Rightarrow> 'p tree_view" where
  "input_blur v = (if tv_input v = [] then v\<lparr>tv_labelShown := True\<rparr> else v)"

definition input_keydown :: "regexp \<Rightarrow> 'p page_ops \<Rightarrow> nat \<Rightarrow> (unit, 'p tree_view) act" where
  "input_keydown rx pg which v =
     whenM (which = 13)
       (bindM (on_widget (\<lambda>_. modifyM deselect_all)) (\<lambda>_. bindM (set_pattern rx pg (tv_input v)) (\<lambda>_. retM ()))) v"

definition clear_filter :: "regexp \<Rightarrow> 'p page_ops \<Rightarrow> (unit, 'p tree_view) act" where
  "clear_filter rx pg v =
     bindM (set_pattern rx pg []) (\<lambda>_. retM ()) (v\<lparr>tv_input := [], tv_labelShown := True\<rparr>)"

section \<open>Frames\<close>

text \<open>What the widget does leaves the models alone.\<close>

lemma on_widget_frame:
  assumes "on_widget f v = Some (r, v')"
  shows "mods v' = mods v \<and> tv_model v' = tv_model v \<and> tv_tree v' = tv_tree v"
  using assms by (auto simp: on_widget_def split: option.splits)

lemma make_widget_frame:
  assumes "make_widget pg ct v = Some (r, v')"
  shows "mods v' = mods v \<and> tv_model v' = tv_model v \<and> tv_tree v' = Some ct"
  using on_widget_frame [OF assms [unfolded make_widget_def]] by simp

definition model_tree :: "regexp \<Rightarrow> tree_val model \<Rightarrow> node outcome" where
  "model_tree rx m = tree_of rx (model_get ''pattern'' m) (model_get ''matching_names'' m)"

lemma render_frame:
  assumes "render_view rx pg v = Some (r, v')"
  shows "mods v' = mods v \<and> tv_model v' = tv_model v"
    "r = Ok () \<Longrightarrow> \<exists>t. model_tree rx (mods v (tv_model v)) = Ok t \<and> tv_tree v' = Some t"
  using assms
  by (auto simp: render_view_def model_tree_def Let_def bindM_def split: outcome.splits option.splits
      dest!: on_widget_frame make_widget_frame)

lemma render_throws:
  assumes "model_tree rx (mods v (tv_model v)) = Throw e"
  shows "render_view rx pg v = Some (Throw e, v)"
  using assms by (simp add: render_view_def model_tree_def Let_def)

lemma attach_fields [simp]:
  "jt_data (attach j p) = jt_data j" "jt_sel (attach j p) = jt_sel j" "w_page (attach j p) = p" "jt_ready (attach j p) = jt_ready j"
  by (simp_all add: attach_def jst.defs jst_page.defs)

lemma tree_of_counters: "tree_of rx pat names = Ok t \<Longrightarrow> \<exists>cs. t = tree_for cs"
  by (auto simp: tree_of_def render_tree_def split: jsval.splits tree_val.splits option.splits) (metis outcome.simps(5) tree_for_def)

lemma page_more: "jst.more t = jst.more u \<Longrightarrow> w_page t = w_page u"
  by (cases t, cases u) simp

text \<open>The first rendering that finds a tree shows it.\<close>

lemma render_first:
  assumes "tv_tree v = None" "model_tree rx (mods v (tv_model v)) = Ok t"
  defines "w \<equiv> attach (new_jst (Suc (tv_inst v))) (tv_page v)"
  shows "\<exists>u. init_tree (tree_env pg t) w = Some (Ok (), u) \<and> is_loaded u ''#'' \<and>
    render_view rx pg v = Some (Ok (), v\<lparr>tv_tree := Some t, tv_inst := Suc (tv_inst v), tv_jst := jst.truncate u, tv_page := po_resize pg (tv_page v)\<rparr>)"
proof -
  obtain cs where cs: "t = tree_for cs" using tree_of_counters assms(2) unfolding model_tree_def by blast
  have "jt_data w = [(''#'', root_node)]" "jt_sel w = []" by (simp_all add: w_def new_jst_def)
  then obtain u where u: "init_tree (tree_env pg t) w = Some (Ok (), u)" "is_loaded u ''#''" "jst.more u = jst.more w"
    using counter_source.init_works [of "tree_env pg t" cs w] cs by (auto simp: tree_env_def rows_env_def)
  moreover have "w_page u = tv_page v" using u(3) by (metis attach_fields(3) page_more w_def)
  ultimately show ?thesis
    using assms(1,2) by (simp add: w_def render_view_def model_tree_def Let_def bindM_def on_widget_def make_widget_def)
qed

section \<open>Changes of the model\<close>

interpretation tree_listeners: listeners "tree_listeners rx pg" for rx pg
  by unfold_locales
    (auto intro!: keepsI simp: tree_listeners_def changed_ok_def split: if_splits dest!: render_frame(1))

lemma change_event_other: "change_event a \<noteq> ''change''"
  by (simp add: change_event_def)

lemma announce_tree:
  assumes "\<forall>a\<in>set ch. plain_name a"
  shows "announce (tree_listeners rx pg) r ch opts v =
    Some (Ok (), if ch = [] then v else mupd r (\<lambda>m. m\<lparr>pending := Some opts\<rparr>) v)"
proof -
  have "eachM (\<lambda>a v. fire (tree_listeners rx pg) r (change_event a) (ChangeAttr (model_get a (mods v r))) opts v) ch v =
      Some (Ok (), v)" for v
    using assms
    by (induction ch) (simp_all add: bindM_def fire_plain plain_change tree_listeners_def change_event_other)
  then show ?thesis by (simp add: announce_def bindM_def whenM_def)
qed

lemma flush_tree:
  "flush (tree_listeners rx pg) (tv_model v) v =
     (if pending (mods v (tv_model v)) = None then Some (Ok (), v)
      else render_view rx pg (mupd (tv_model v) (\<lambda>m. m\<lparr>pending := None\<rparr>) v))"
proof -
  have tm: "tv_model (mupd r f v) = tv_model v" for r f by (simp add: mupd_def)
  let ?v = "mupd (tv_model v) (\<lambda>m. m\<lparr>pending := None\<rparr>) v"
  have again: "flush (tree_listeners rx pg) (tv_model v) v1 = Some (Ok (), v1)" if "render_view rx pg ?v = Some (r, v1)" for r v1
    using render_frame(1) [OF that] by (subst flush.simps) simp
  show ?thesis
    by (subst flush.simps, cases "render_view rx pg ?v")
      (auto simp: fire_plain plain_change tree_listeners_def tm again split: option.split outcome.split)
qed

abbreviation tree_model :: "'p tree_view \<Rightarrow> tree_val model" where
  "tree_model v \<equiv> mods v (tv_model v)"

text \<open>The attributes that the two ways of changing the model write.\<close>

definition tree_attrs :: "tree_val attrs \<Rightarrow> bool" where
  "tree_attrs attrs \<longleftrightarrow> wf_obj attrs \<and> set (okeys attrs) \<subseteq> {''pattern'', ''matching_names''}"

definition tree_opts :: "mopts \<Rightarrow> bool" where
  "tree_opts opts \<longleftrightarrow> \<not> o_silent opts \<and> \<not> o_unset opts"

lemma tree_attrs_plain: "tree_attrs attrs \<Longrightarrow> a \<in> set (okeys attrs) \<Longrightarrow> plain_name a"
  by (auto simp: tree_attrs_def plain_name_def is_space_def)

lemma no_validation_tree [simp]: "no_validation counter_class opts"
  by (simp add: no_validation_def counter_class_def)

lemma tree_model_mupd [simp]:
  "tv_model (mupd r f v) = tv_model v" "tv_tree (mupd r f v) = tv_tree v" "tv_inst (mupd r f v) = tv_inst v"
  "tv_jst (mupd r f v) = tv_jst v" "tv_page (mupd r f v) = tv_page v"
  by (simp_all add: mupd_def)

text \<open>A change of an idle model: without a difference nothing happens, otherwise the view is rendered.\<close>

lemma model_set_tree:
  assumes "tree_attrs attrs" "tree_opts opts" "\<not> in_change (tv_model v) v" "pending (tree_model v) = None"
  defines "m \<equiv> snd (write_attrs attrs opts (tree_model v))" and "r \<equiv> tv_model v"
  shows "model_set (tree_listeners rx pg) counter_class r attrs opts v =
    (if differing attrs (tree_model v) = [] then Some (Ok True, mupd r (\<lambda>_. m\<lparr>pending := None, changing := False\<rparr>) v)
     else case render_view rx pg (mupd r (\<lambda>_. m\<lparr>pending := None\<rparr>) v) of
            Some (Ok _, v1) \<Rightarrow> Some (Ok True, mupd r (\<lambda>m. m\<lparr>pending := None, changing := False\<rparr>) v1)
          | Some (Throw e, v1) \<Rightarrow> Some (Throw e, v1)
          | None \<Rightarrow> None)"
proof -
  have u: "unset_ok attrs opts" using assms(2) by (simp add: unset_ok_def tree_opts_def)
  have wf: "wf_obj attrs" using assms(1) by (simp add: tree_attrs_def)
  have d: "fst (write_attrs attrs opts (mods v (tv_model v))) = differing attrs (mods v (tv_model v))"
    by (rule write_attrs_result(1) [OF wf u])
  have pl: "\<forall>a\<in>set (differing attrs (mods v (tv_model v))). plain_name a"
    using tree_attrs_plain [OF assms(1)] by (simp add: differing_def)
  have pn: "pending (snd (write_attrs attrs opts (mods v (tv_model v)))) = None" using assms(4) by simp
  show ?thesis
    unfolding r_def m_def model_set_outer [OF no_validation_tree assms(3)] d
    using assms(2) pn flush_tree [of rx pg "mupd (tv_model v) f v" for f]
    by (auto simp: tree_opts_def bindM_def whenM_def announce_tree [OF pl] finish_set_def split: option.split outcome.split)
qed

lemma model_set_frozen:
  assumes "tree_attrs attrs" "tree_opts opts" "in_change (tv_model v) v"
  shows "\<exists>v'. model_set (tree_listeners rx pg) counter_class (tv_model v) attrs opts v = Some (Ok True, v') \<and>
    in_change (tv_model v) v' \<and> tv_model v' = tv_model v \<and> tv_tree v' = tv_tree v \<and> tv_page v' = tv_page v"
proof -
  have u: "unset_ok attrs opts" using assms(2) by (simp add: unset_ok_def tree_opts_def)
  have wf: "wf_obj attrs" using assms(1) by (simp add: tree_attrs_def)
  have pl: "\<forall>a\<in>set (fst (write_attrs attrs opts (mods v (tv_model v)))). plain_name a"
    using tree_attrs_plain [OF assms(1)] by (simp add: write_attrs_result(1) [OF wf u] differing_def)
  show ?thesis
    unfolding model_set_nested [OF no_validation_tree assms(3)]
    by (simp add: bindM_def whenM_def announce_tree [OF pl])
qed

section \<open>The tree follows the model\<close>

text \<open>An idle model has nothing pending, and a tree that is shown is the tree of its attributes.\<close>

definition view_ok :: "regexp \<Rightarrow> 'p tree_view \<Rightarrow> bool" where
  "view_ok rx v \<longleftrightarrow>
     (changing (tree_model v) \<or>
      pending (tree_model v) = None \<and> (\<forall>t. tv_tree v = Some t \<longrightarrow> model_tree rx (tree_model v) = Ok t))"

lemma model_tree_fields [simp]:
  "model_tree rx (m\<lparr>pending := p\<rparr>) = model_tree rx m" "model_tree rx (m\<lparr>changing := c\<rparr>) = model_tree rx m"
  by (simp_all add: model_tree_def model_get_def)

lemma model_tree_same:
  assumes "tree_attrs attrs" "tree_opts opts" "differing attrs m = []"
  shows "model_tree rx (snd (write_attrs attrs opts m)) = model_tree rx m"
proof -
  have "model_get k (snd (write_attrs attrs opts m)) = model_get k m" for k
    using assms(3) write_attrs_result(2) [of attrs opts k m] assms(1,2)
    by (auto simp: tree_attrs_def unset_ok_def tree_opts_def differing_def filter_empty_conv)
  then show ?thesis by (simp add: model_tree_def)
qed

lemma set_keeps_view:
  assumes "tree_attrs attrs" "tree_opts opts" "view_ok rx v"
    and "model_set (tree_listeners rx pg) counter_class (tv_model v) attrs opts v = Some (q, v')"
  shows "view_ok rx v' \<and> tv_model v' = tv_model v"
proof (cases "changing (tree_model v)")
  case True
  then show ?thesis using model_set_frozen [OF assms(1,2) True, of rx pg] assms(4) by (auto simp: view_ok_def)
next
  case False
  then have p: "pending (tree_model v) = None" using assms(3) by (simp add: view_ok_def)
  show ?thesis
  proof (cases "differing attrs (tree_model v) = []")
    case True
    then show ?thesis
      using assms(3,4) False model_tree_same [OF assms(1,2) True, of rx]
      unfolding model_set_tree [OF assms(1,2) False p] by (auto simp: view_ok_def)
  next
    case d: False
    let ?v = "mupd (tv_model v) (\<lambda>_. (snd (write_attrs attrs opts (tree_model v)))\<lparr>pending := None\<rparr>) v"
    obtain r v1 where r: "render_view rx pg ?v = Some (r, v1)"
      using assms(4) d unfolding model_set_tree [OF assms(1,2) False p] by (auto split: option.splits)
    have f: "mods v1 = mods ?v" "tv_model v1 = tv_model v" using render_frame(1) [OF r] by simp_all
    show ?thesis
    proof (cases r)
      case (Ok x)
      obtain t where "model_tree rx (tree_model ?v) = Ok t" "tv_tree v1 = Some t" using render_frame(2) [OF r] Ok by auto
      then show ?thesis
        using assms(4) d r f Ok unfolding model_set_tree [OF assms(1,2) False p] by (auto simp: view_ok_def)
    next
      case (Throw e)
      then show ?thesis
        using assms(4) d r f unfolding model_set_tree [OF assms(1,2) False p] by (auto simp: view_ok_def)
    qed
  qed
qed

lemma pattern_attrs: "tree_attrs [(''pattern'', x)]" "tree_attrs [(''pattern'', x), (''matching_names'', y)]"
  by (simp_all add: tree_attrs_def wf_obj_def okeys_def)

text \<open>What writing a new pattern does to the attributes.\<close>

lemma pattern_differs:
  assumes "model_get ''pattern'' m \<noteq> Val (Text p)"
  shows "differing [(''pattern'', Val (Text p))] m \<noteq> []"
  using assms by (simp add: differing_def okeys_def order_keys_def is_index_def lookup_def oget_def is_digit_def)

lemma pattern_written:
  "model_get k (snd (write_attrs [(''pattern'', Val (Text p))] no_opts m)) = (if k = ''pattern'' then Val (Text p) else model_get k m)"
  using write_attrs_result(2) [of "[(''pattern'', Val (Text p))]" no_opts k m] pattern_attrs(1) [of "Val (Text p)"]
  by (auto simp: tree_attrs_def unset_ok_def no_opts_def okeys_def lookup_def oget_def)

lemma tree_opts_used [simp]: "tree_opts no_opts" "tree_opts (parse_opts opts) = tree_opts opts"
  by (simp_all add: tree_opts_def no_opts_def parse_opts_def)

lemma set_pattern_keeps_view:
  "view_ok rx v \<Longrightarrow> set_pattern rx pg p v = Some (q, v') \<Longrightarrow> view_ok rx v' \<and> tv_model v' = tv_model v"
  unfolding set_pattern_def by (rule set_keeps_view [OF pattern_attrs(1)]) simp_all

lemma fire_sync_tree [simp]: "fire (tree_listeners rx pg) r ''sync'' ev opts v = Some (Ok (), v)"
  by (simp add: fire_plain plain_name_def is_space_def tree_listeners_def)

text \<open>A reply is a change followed by an event nobody listens to.\<close>

lemma names_fetched_eq:
  "names_fetched rx pg p cs v =
     bindM (model_set (tree_listeners rx pg) counter_class (tv_model v)
       [(''pattern'', Val (Text p)), (''matching_names'', Val (Names cs))] (parse_opts no_opts)) (\<lambda>_. retM ()) v"
  by (simp add: names_fetched_def fetch_success_def counter_class_def bindM_def split: option.split outcome.split)

lemma case_Ok: "(case x of Some (Ok u, v) \<Rightarrow> P v | _ \<Rightarrow> False) \<Longrightarrow> \<exists>u v. x = Some (Ok u, v) \<and> P v"
  by (simp split: option.splits prod.splits outcome.splits)

lemma bindM_done:
  assumes "bindM m (\<lambda>_. retM x) w = Some (q, w')"
  obtains q' where "m w = Some (q', w')"
  using assms by (auto simp: bindM_def split: option.splits outcome.splits)

lemma names_fetched_keeps_view:
  assumes "view_ok rx v" "names_fetched rx pg p cs v = Some (q, v')"
  shows "view_ok rx v' \<and> tv_model v' = tv_model v"
  using assms(2) unfolding names_fetched_eq
  by (elim bindM_done) (rule set_keeps_view [OF pattern_attrs(2) _ assms(1)], simp_all)

text \<open>The page of the program, and the steps of the view: replies, the search field, and the widget.\<close>

definition graph_page :: "(frame \<times> app) page_ops" where
  "graph_page =
     \<lparr>po_resize = documentResize,
      po_toggle = (\<lambda>name p. case toggleGraphing name None (snd p) of (r, s) \<Rightarrow> (r, (fst p, s)))\<rparr>"

inductive view_step :: "regexp \<Rightarrow> (frame \<times> app) tree_view \<Rightarrow> (frame \<times> app) tree_view \<Rightarrow> bool" for rx where
  vs_fetched: "names_fetched rx graph_page p cs v = Some (q, v') \<Longrightarrow> view_step rx v v'"
| vs_focus: "view_step rx v (input_focus v)"
| vs_blur: "view_step rx v (input_blur v)"
| vs_type: "view_step rx v (v\<lparr>tv_input := t\<rparr>)"
| vs_keydown: "input_keydown rx graph_page which v = Some (q, v') \<Longrightarrow> view_step rx v v'"
| vs_clear: "clear_filter rx graph_page v = Some (q, v') \<Longrightarrow> view_step rx v v'"
| vs_click: "on_widget (\<lambda>ct. activate_node (tree_env graph_page ct) ev i) v = Some (q, v') \<Longrightarrow> view_step rx v v'"
| vs_toggle: "on_widget (\<lambda>ct. toggle_node (tree_env graph_page ct) i) v = Some (q, v') \<Longrightarrow> view_step rx v v'"
| vs_key: "on_widget (\<lambda>ct. keydown (tree_env graph_page ct) ev which i) v = Some (q, v') \<Longrightarrow> view_step rx v v'"
| vs_timer: "on_widget (\<lambda>ct. timer_opens (tree_env graph_page ct)) v = Some (q, v') \<Longrightarrow> view_step rx v v'"
| vs_slide: "on_widget (\<lambda>_. modifyM (slide_end i)) v = Some (q, v') \<Longrightarrow> view_step rx v v'"
| vs_deselect: "on_widget (\<lambda>_. modifyM deselect_all) v = Some (q, v') \<Longrightarrow> view_step rx v v'"
| vs_page: "view_step rx v (v\<lparr>tv_page := p\<rparr>)"

text \<open>What a step does to the model and the tree: nothing, or one change of the model.\<close>

lemma view_step_cases:
  assumes "view_step rx v v'"
  shows "(mods v' = mods v \<and> tv_model v' = tv_model v \<and> tv_tree v' = tv_tree v) \<or>
    (\<exists>u attrs opts q. mods u = mods v \<and> tv_model u = tv_model v \<and> tv_tree u = tv_tree v \<and> tree_attrs attrs \<and> tree_opts opts \<and>
      model_set (tree_listeners rx graph_page) counter_class (tv_model u) attrs opts u = Some (q, v'))"
  using assms
proof cases
  case (vs_fetched p cs q)
  then show ?thesis
    unfolding names_fetched_eq by (elim bindM_done) (metis pattern_attrs(2) tree_opts_used)
next
  case (vs_keydown which q)
  show ?thesis
  proof (cases "which = 13")
    case True
    then have k: "bindM (on_widget (\<lambda>_. modifyM deselect_all)) (\<lambda>_. bindM (set_pattern rx graph_page (tv_input v)) (\<lambda>_. retM ())) v = Some (q, v')"
      using vs_keydown by (simp add: input_keydown_def whenM_def)
    obtain u where u: "on_widget (\<lambda>_. modifyM deselect_all) v = Some (Ok (), u)" by (cases "tv_tree v") (auto simp: on_widget_def)
    from k have "bindM (set_pattern rx graph_page (tv_input v)) (\<lambda>_. retM ()) u = Some (q, v')" by (simp add: bindM_def u)
    then show ?thesis unfolding set_pattern_def using on_widget_frame [OF u]
      by (elim bindM_done) (metis pattern_attrs(1) tree_opts_used(1))
  qed (use vs_keydown in \<open>simp add: input_keydown_def whenM_def\<close>)
next
  case (vs_clear q)
  let ?u = "v\<lparr>tv_input := [], tv_labelShown := True\<rparr>"
  have u: "mods ?u = mods v" "tv_model ?u = tv_model v" "tv_tree ?u = tv_tree v" by simp_all
  from vs_clear obtain q' where "model_set (tree_listeners rx graph_page) counter_class (tv_model ?u)
      [(''pattern'', Val (Text []))] no_opts ?u = Some (q', v')"
    unfolding clear_filter_def set_pattern_def by (elim bindM_done)
  then show ?thesis using u pattern_attrs(1) tree_opts_used(1) by blast
qed (auto simp: input_focus_def input_blur_def dest!: on_widget_frame)

lemma view_step_ok:
  assumes "view_ok rx v" "view_step rx v v'"
  shows "view_ok rx v'"
  using view_step_cases [OF assms(2)]
proof (elim disjE exE conjE)
  fix u attrs opts q
  assume u: "mods u = mods v" "tv_model u = tv_model v" "tv_tree u = tv_tree v" "tree_attrs attrs" "tree_opts opts"
    and s: "model_set (tree_listeners rx graph_page) counter_class (tv_model u) attrs opts u = Some (q, v')"
  have "view_ok rx u" using assms(1) u by (simp add: view_ok_def)
  then show ?thesis using set_keeps_view [OF u(4,5) _ s] by blast
qed (use assms(1) in \<open>simp add: view_ok_def\<close>)

lemma new_tree_view_fields:
  "tv_tree (new_tree_view page) = None" "pending (tree_model (new_tree_view page)) = None"
  by code_simp+

interpretation tree_machine: machine "\<lambda>v. v = new_tree_view page" "view_step rx" "view_ok rx" for page rx
proof
  fix v w
  show "v = new_tree_view page \<Longrightarrow> view_ok rx v" by (simp add: view_ok_def new_tree_view_fields)
  show "view_ok rx v \<Longrightarrow> view_step rx v w \<Longrightarrow> view_ok rx w" by (rule view_step_ok)
qed

text \<open>A reply with something new that can be drawn is drawn.\<close>

lemma names_fetched_shows:
  assumes "\<not> changing (tree_model v)" "pending (tree_model v) = None" "tree_of rx (Val (Text p)) (Val (Names cs)) = Ok t"
    and "model_get ''matching_names'' (tree_model v) \<noteq> Val (Names cs)"
    and "tv_tree v = None"
  shows "\<exists>v' u. names_fetched rx pg p cs v = Some (Ok (), v') \<and> \<not> changing (tree_model v') \<and> pending (tree_model v') = None \<and>
    tv_tree v' = Some t \<and> init_tree (tree_env pg t) (attach (new_jst (Suc (tv_inst v))) (tv_page v)) = Some (Ok (), u) \<and> is_loaded u ''#'' \<and>
    tv_jst v' = jst.truncate u \<and> tv_page v' = po_resize pg (tv_page v) \<and>
    model_get ''pattern'' (tree_model v') = Val (Text p) \<and> model_get ''matching_names'' (tree_model v') = Val (Names cs)"
proof -
  let ?a = "[(''pattern'', Val (Text p)), (''matching_names'', Val (Names cs))]"
  have l: "lookup ?a ''pattern'' = Val (Text p)" "lookup ?a ''matching_names'' = Val (Names cs)"
    by (simp_all add: lookup_def oget_def)
  have k: "set (okeys ?a) = {''pattern'', ''matching_names''}" by (auto simp: okeys_def)
  have d: "differing ?a (tree_model v) \<noteq> []" using assms(4) k l(2) by (force simp: differing_def filter_empty_conv)
  have w: "model_get k (snd (write_attrs ?a (parse_opts no_opts) (tree_model v))) =
      (if k \<in> {''pattern'', ''matching_names''} then lookup ?a k else model_get k (tree_model v))" for k
    using write_attrs_result(2) [of ?a "parse_opts no_opts" k "tree_model v"] pattern_attrs(2) [of "Val (Text p)" "Val (Names cs)"] k
    by (simp add: tree_attrs_def unset_ok_def no_opts_def parse_opts_def)
  have m: "model_tree rx (snd (write_attrs ?a (parse_opts no_opts) (tree_model v))) = Ok t"
    using assms(3) by (simp add: model_tree_def w l)
  let ?v = "mupd (tv_model v) (\<lambda>_. (snd (write_attrs ?a (parse_opts no_opts) (tree_model v)))\<lparr>pending := None\<rparr>) v"
  obtain u v1 where v1: "render_view rx pg ?v = Some (Ok (), v1)" "tv_tree v1 = Some t" "is_loaded u ''#''"
    "init_tree (tree_env pg t) (attach (new_jst (Suc (tv_inst v))) (tv_page v)) = Some (Ok (), u)" "tv_jst v1 = jst.truncate u"
    "tv_page v1 = po_resize pg (tv_page v)"
    using render_first [of ?v rx t pg] m assms(5) by auto
  have f: "mods v1 = mods ?v" "tv_model v1 = tv_model v" using render_frame(1) [OF v1(1)] by simp_all
  show ?thesis
    unfolding names_fetched_eq bindM_def
    using model_set_tree [OF pattern_attrs(2) _ assms(1,2), of "parse_opts no_opts" rx pg "Val (Text p)" "Val (Names cs)"] d w l v1 f
    by (simp add: model_get_def)
qed

text \<open>C18: whatever the user types, clears, opens, closes and graphs and whatever the server answers,
  as long as no rendering failed the tree that is shown is the tree of the counters that match
  the pattern in force.\<close>

theorem tree_view_follows_model:
  assumes "(view_step rx)\<^sup>*\<^sup>* (new_tree_view page) v" "\<not> changing (tree_model v)" "tv_tree v = Some t"
  shows "\<exists>p se. model_get ''pattern'' (tree_model v) = Val (Text p) \<and> pattern_matcher rx p = Some se \<and>
    asCounterTree (chosen_counters (\<lambda>_. se) p (names_of (model_get ''matching_names'' (tree_model v)))) = Ok t"
proof -
  have "model_tree rx (tree_model v) = Ok t"
    using tree_machine.inv_reach [OF refl assms(1)] assms(2,3) by (simp add: view_ok_def)
  then show ?thesis
    by (auto simp: model_tree_def tree_of_def render_tree_def split: jsval.splits tree_val.splits option.splits)
qed

theorem tree_view_follows_model_witness:
  "\<forall>page. \<exists>v t. (view_step (\<lambda>_. Some (\<lambda>_. True)))\<^sup>*\<^sup>* (new_tree_view page) v \<and> tv_tree v = Some t \<and>
     asCounterTree (chosen_counters (\<lambda>_ _. True) ''*'' demo_counters) = Ok t"
proof
  fix page :: "frame \<times> app"
  let ?rx = "\<lambda>_. Some (\<lambda>_. True)"
  have "asCounterTree (chosen_counters (\<lambda>_ _. True) ''*'' demo_counters) \<noteq> Throw e" for e by code_simp
  then obtain t where t: "asCounterTree (chosen_counters (\<lambda>_ _. True) ''*'' demo_counters) = Ok t"
    by (meson outcome.exhaust)
  have d: "\<not> changing (tree_model (new_tree_view page))" "model_get ''matching_names'' (tree_model (new_tree_view page)) = Val (Names [])"
    by code_simp+
  have "tree_of ?rx (Val (Text ''*'')) (Val (Names demo_counters)) = Ok t"
    using t by (simp add: tree_of_def pattern_matcher_def render_tree_def names_of_def)
  moreover have "model_get ''matching_names'' (tree_model (new_tree_view page)) \<noteq> Val (Names demo_counters)"
    using d(2) by (simp add: demo_counters_def)
  ultimately obtain v where v: "names_fetched ?rx graph_page ''*'' demo_counters (new_tree_view page) = Some (Ok (), v)"
    "\<not> changing (tree_model v)" "tv_tree v = Some t" "model_get ''pattern'' (tree_model v) = Val (Text ''*'')"
    "model_get ''matching_names'' (tree_model v) = Val (Names demo_counters)"
    using names_fetched_shows [OF d(1) new_tree_view_fields(2), of ?rx "''*''" demo_counters t graph_page] new_tree_view_fields(1) [of page] by blast
  have r: "(view_step ?rx)\<^sup>*\<^sup>* (new_tree_view page) v" using vs_fetched [OF v(1)] by (rule r_into_rtranclp)
  show "\<exists>v t. (view_step ?rx)\<^sup>*\<^sup>* (new_tree_view page) v \<and> tv_tree v = Some t \<and>
      asCounterTree (chosen_counters (\<lambda>_ _. True) ''*'' demo_counters) = Ok t"
    using tree_view_follows_model [OF r v(2,3)] v r by (auto simp: pattern_matcher_def names_of_def)
qed

text \<open>C38: a pattern that is no regular expression makes the rendering throw inside the model's
  \<open>set\<close>, which leaves the model changing for ever: from then on neither the search field nor the
  server's answers change the tree that is shown.\<close>

theorem bad_pattern_freezes_tree:
  assumes "(view_step rx)\<^sup>*\<^sup>* (new_tree_view page) v" "\<not> changing (tree_model v)"
    and "rx (pattern_source p) = None" "p \<noteq> ''*''" "model_get ''pattern'' (tree_model v) \<noteq> Val (Text p)"
  shows "\<exists>e v1. set_pattern rx graph_page p v = Some (Throw e, v1) \<and>
    (\<forall>v2. (view_step rx)\<^sup>*\<^sup>* v1 v2 \<longrightarrow> tv_tree v2 = tv_tree v)"
proof -
  let ?a = "[(''pattern'', Val (Text p))]"
  have pn: "pending (tree_model v) = None"
    using tree_machine.inv_reach [OF refl assms(1)] assms(2) by (simp add: view_ok_def)
  note d = pattern_differs [OF assms(5)] and w = pattern_written [of _ p "tree_model v"]
  have t: "model_tree rx (snd (write_attrs ?a no_opts (tree_model v))) = Throw (SyntaxError ''Invalid regular expression'')"
    using assms(3,4) by (simp add: model_tree_def w tree_of_def pattern_matcher_def)
  let ?v1 = "mupd (tv_model v) (\<lambda>_. (snd (write_attrs ?a no_opts (tree_model v)))\<lparr>pending := None\<rparr>) v"
  have s: "set_pattern rx graph_page p v = Some (Throw (SyntaxError ''Invalid regular expression''), ?v1)"
    unfolding set_pattern_def model_set_tree [OF pattern_attrs(1) tree_opts_used(1) assms(2) pn]
    using d render_throws [of rx ?v1] t by simp
  have "changing (tree_model v2) \<and> tv_tree v2 = tv_tree v" if "(view_step rx)\<^sup>*\<^sup>* ?v1 v2" for v2
    using that
  proof (induction rule: rtranclp_induct)
    case (step y z)
    from view_step_cases [OF step.hyps(2)] show ?case
    proof (elim disjE exE conjE)
      fix u attrs opts q
      assume u: "mods u = mods y" "tv_model u = tv_model y" "tv_tree u = tv_tree y" "tree_attrs attrs" "tree_opts opts"
        and m: "model_set (tree_listeners rx graph_page) counter_class (tv_model u) attrs opts u = Some (q, z)"
      then show ?case using model_set_frozen [OF u(4,5), of u rx graph_page] step.IH by auto
    qed (use step.IH in simp)
  qed simp
  then show ?thesis using s by blast
qed

theorem bad_pattern_freezes_tree_witness:
  "\<forall>page :: frame \<times> app. \<exists>e v1.
     set_pattern (\<lambda>src. if CHR ''('' \<in> set src then None else Some (\<lambda>_. True)) graph_page ''('' (new_tree_view page) = Some (Throw e, v1) \<and>
     (\<forall>v2. (view_step (\<lambda>src. if CHR ''('' \<in> set src then None else Some (\<lambda>_. True)))\<^sup>*\<^sup>* v1 v2 \<longrightarrow> tv_tree v2 = None)"
proof
  fix page :: "frame \<times> app"
  let ?rx = "\<lambda>src. if CHR ''('' \<in> set src then None else Some (\<lambda>_. True)"
  have d: "\<not> changing (tree_model (new_tree_view page))" "model_get ''pattern'' (tree_model (new_tree_view page)) \<noteq> Val (Text ''('')"
    by code_simp+
  have "?rx (pattern_source ''('') = None" "''('' \<noteq> ''*''" by (simp_all add: pattern_source_def)
  from bad_pattern_freezes_tree [of ?rx page "new_tree_view page" "''(''", OF rtranclp.rtrancl_refl d(1) this d(2)]
  show "\<exists>e v1. set_pattern ?rx graph_page ''('' (new_tree_view page) = Some (Throw e, v1) \<and>
      (\<forall>v2. (view_step ?rx)\<^sup>*\<^sup>* v1 v2 \<longrightarrow> tv_tree v2 = None)"
    by (simp only: new_tree_view_fields(1))
qed

end
