(* ===== verification/Menus.thy ===== *)
theory Menus
  imports Users Xref Frame Tree_View
begin

text \<open>
  The menus and buttons of src/files/graph.js: the functions that open a prompt, the dropdown
  views (\<open>IstatdDropdownView\<close> with its three instances) and the start of the page (\<open>on_ready\<close>).
  A dropdown's events arrive as the browser sends them: a press on the page ends with a mouse-up,
  which closes every dropdown, and is followed by the click.
\<close>

section \<open>Prompts\<close>

definition size_custom :: "'z ui_scheme \<Rightarrow> nat \<times> 'z ui_scheme" where
  "size_custom s = promptDialog ''Please enter a graph size: (WxH)'' s"

definition regexp_change :: "'z ui_scheme \<Rightarrow> nat \<times> 'z ui_scheme" where
  "regexp_change s =
     promptDialog (''Match counters, and replace them with another (can be substring).'' @ [CHR 0x0A] @ ''[Syntax: match:substitution]'') s"

definition regexp_add :: "'z ui_scheme \<Rightarrow> nat \<times> 'z ui_scheme" where
  "regexp_add s =
     promptDialog (''Match counters, and add their substitution to same graphs (can be substring).'' @ [CHR 0x0A]
       @ ''[Syntax: match:substitution]'') s"

text \<open>The prompt for a dashboard's name comes with the current dashboard's name filled in.\<close>

definition save_dashboard :: "'z dash_app_scheme \<Rightarrow> nat \<times> string \<times> 'z dash_app_scheme" where
  "save_dashboard s =
     (case promptDialog ''Save dashboard as: [Valid characters: A-Z, a-z, 0-9, _]'' s of (i, s1) \<Rightarrow>
        (i, case da_current s of None \<Rightarrow> [] | Some d \<Rightarrow> d, s1))"

text \<open>The OK handlers of the prompts, with the functions that were given to them; these return
  undefined, except the one for sizes.\<close>

definition prompt_change :: "nat \<Rightarrow> string \<Rightarrow> 'z app_scheme \<Rightarrow> unit outcome \<times> 'z app_scheme" where
  "prompt_change i v s = prompt_handler i (\<lambda>v s. (Ok None, change_counters v False s)) v s"

definition prompt_add :: "nat \<Rightarrow> string \<Rightarrow> 'z app_scheme \<Rightarrow> unit outcome \<times> 'z app_scheme" where
  "prompt_add i v s = prompt_handler i (\<lambda>v s. (Ok None, add_counters v s)) v s"

definition prompt_size :: "nat \<Rightarrow> string \<Rightarrow> 'z app_scheme \<Rightarrow> unit outcome \<times> 'z app_scheme" where
  "prompt_size i v s = prompt_handler i (\<lambda>v s. case size_setCustom v s of (ok, s1) \<Rightarrow> (Ok (Some ok), s1)) v s"

definition prompt_save :: "nat \<Rightarrow> string \<Rightarrow> 'z dash_app_scheme \<Rightarrow> unit outcome \<times> 'z dash_app_scheme" where
  "prompt_save i v s = prompt_handler i (\<lambda>v s. (Ok None, save_dashboard_named v s)) v s"

text \<open>Saving a template: the user's variable that it tests is set nowhere, so the answer is always
  the same error.\<close>

definition save_template :: "string \<Rightarrow> 'z dash_app_scheme \<Rightarrow> 'z dash_app_scheme" where
  "save_template fn s =
     (if \<not> proper_name fn then errorDialog proper_name_error s
      else (errorDialog ''You must log in to save templates'' s)\<lparr>da_hash := ''#?template='' @ fn\<rparr>)"

section \<open>Dropdowns\<close>

record 'x item =
  it_text :: string
  it_selected :: bool
  it_action :: 'x

record 'x dropdown =
  dd_items :: "'x item list"
  dd_label :: "string option"
  dd_entries :: "(string \<times> bool) list option"
  dd_open :: bool
  dd_shown :: bool

definition new_dropdown :: "'x item list \<Rightarrow> 'x dropdown" where
  "new_dropdown items = \<lparr>dd_items = items, dd_label = None, dd_entries = None, dd_open = False, dd_shown = False\<rparr>"

definition renderLabel :: "string \<Rightarrow> 'x dropdown \<Rightarrow> 'x dropdown" where
  "renderLabel label d = d\<lparr>dd_label := Some label\<rparr>"

text \<open>The entries are made once; a later rendering leaves them.\<close>

definition renderDropdown :: "'x dropdown \<Rightarrow> 'x dropdown" where
  "renderDropdown d =
     (case dd_entries d of
        None \<Rightarrow> d\<lparr>dd_entries := Some (map (\<lambda>i. (it_text i, it_selected i)) (dd_items d))\<rparr>
      | Some _ \<Rightarrow> d)"

definition render_menu :: "string \<Rightarrow> 'x dropdown \<Rightarrow> 'x dropdown" where
  "render_menu label d = renderDropdown (renderLabel label d)"

definition menu_slideDown :: "string \<Rightarrow> 'x dropdown \<Rightarrow> 'x dropdown" where
  "menu_slideDown label d = (render_menu label d)\<lparr>dd_shown := True\<rparr>"

definition menu_slideUp :: "'x dropdown \<Rightarrow> 'x dropdown" where
  "menu_slideUp d = d\<lparr>dd_shown := False\<rparr>"

definition menu_open :: "'x dropdown \<Rightarrow> 'x dropdown" where
  "menu_open d = d\<lparr>dd_open := \<not> dd_open d\<rparr>"

definition menu_close :: "'x dropdown \<Rightarrow> 'x dropdown" where
  "menu_close d = d\<lparr>dd_open := False\<rparr>"

text \<open>The action of the entry with a text; a text without an item has none to call.\<close>

definition doAction :: "'x dropdown \<Rightarrow> string \<Rightarrow> 'x outcome" where
  "doAction d txt =
     (case find (\<lambda>i. it_text i = txt) (dd_items d) of
        None \<Rightarrow> Throw (TypeError ''action of undefined'')
      | Some i \<Rightarrow> Ok (it_action i))"

text \<open>What a press on the closed part does: the mouse-up reaches the page, then the click the menu.\<close>

definition press_menu :: "'x dropdown \<Rightarrow> 'x dropdown" where
  "press_menu d = menu_open (menu_close d)"

section \<open>The menus of the page\<close>

datatype menu_action =
    Logout
  | Size int int nat
  | SizeCustom
  | RegexChange
  | RegexAdd
  | XrefChange
  | DateRange
  | Bookmark

definition logout_items :: "menu_action item list" where
  "logout_items = [\<lparr>it_text = ''Logout'', it_selected = False, it_action = Logout\<rparr>]"

definition chart_size_items :: "menu_action item list" where
  "chart_size_items =
     [\<lparr>it_text = ''Small (300x120)'', it_selected = False, it_action = Size 300 120 0\<rparr>,
      \<lparr>it_text = ''Medium (600x240)'', it_selected = True, it_action = Size 600 240 1\<rparr>,
      \<lparr>it_text = ''Large (800x480)'', it_selected = False, it_action = Size 800 480 2\<rparr>,
      \<lparr>it_text = ''Custom...'', it_selected = False, it_action = SizeCustom\<rparr>]"

definition advanced_items :: "menu_action item list" where
  "advanced_items =
     [\<lparr>it_text = ''Regex/Replace...'', it_selected = False, it_action = RegexChange\<rparr>,
      \<lparr>it_text = ''Regex/Add...'', it_selected = False, it_action = RegexAdd\<rparr>,
      \<lparr>it_text = ''Cross-reference Counters...'', it_selected = False, it_action = XrefChange\<rparr>,
      \<lparr>it_text = ''Manual Date Range...'', it_selected = False, it_action = DateRange\<rparr>,
      \<lparr>it_text = ''Create Bookmark URL'', it_selected = False, it_action = Bookmark\<rparr>]"

fun run_action :: "'b browser \<Rightarrow> menu_action \<Rightarrow> ('b, 'z) user_app_scheme \<Rightarrow> unit outcome \<times> ('b, 'z) user_app_scheme" where
  "run_action br Logout s = logout br s"
| "run_action br (Size w h i) s = (Ok (), graph_size w h (Some (int i)) s)"
| "run_action br SizeCustom s = (Ok (), snd (size_custom s))"
| "run_action br RegexChange s = (Ok (), snd (regexp_change s))"
| "run_action br RegexAdd s = (Ok (), snd (regexp_add s))"
| "run_action br XrefChange s = (Ok (), snd (xref_change s))"
| "run_action br DateRange s = (Ok (), snd (select_daterange s))"
| "run_action br Bookmark s = (Ok (), packup_state_as_hash s)"

definition menu_click ::
  "'b browser \<Rightarrow> menu_action dropdown \<Rightarrow> string \<Rightarrow> ('b, 'z) user_app_scheme \<Rightarrow> unit outcome \<times> ('b, 'z) user_app_scheme" where
  "menu_click br d txt s = (case doAction d txt of Throw e \<Rightarrow> (Throw e, s) | Ok a \<Rightarrow> run_action br a s)"

section \<open>Start\<close>

text \<open>A button of the tool bar: its action is the text of an attribute, here the function it names.\<close>

definition tbutton_click :: "bool \<Rightarrow> ('z app_scheme \<Rightarrow> unit outcome \<times> 'z app_scheme) \<Rightarrow> 'z app_scheme \<Rightarrow> 'z app_scheme" where
  "tbutton_click disabled act s = guarded [] (\<lambda>s. if disabled then (Ok (), s) else act s) s"

record page =
  pg_tabs :: "tab list \<times> tab_label list"
  pg_widgets :: "widget list"
  pg_tree :: "unit tree_view"
  pg_chartSize :: "menu_action dropdown"
  pg_advanced :: "menu_action dropdown"
  pg_logout :: "menu_action dropdown"
  pg_userRequest :: bool

text \<open>
  The parts in the order the code makes them: the widgets of the tabs, of the list of dashboards
  inside the tabs, of the splitter, the grid and the slider; the views; the slider's default
  marker; the loader. The application state is the one before, with a fresh loader.
\<close>

definition page_widgets :: "widget list" where
  "page_widgets =
     (case Widget None [] of (tabs, w1) \<Rightarrow>
      case Widget (Some tabs) w1 of (dashboards, w2) \<Rightarrow>
        snd (Widget None (snd (Widget None (snd (Widget None w2))))))"

definition start_page :: "tab list \<Rightarrow> page" where
  "start_page ts =
     \<lparr>pg_tabs = TabCollection ts, pg_widgets = page_widgets, pg_tree = new_tree_view (),
      pg_chartSize = render_menu ''Chart Size'' (new_dropdown chart_size_items),
      pg_advanced = render_menu ''Advanced Tools'' (new_dropdown advanced_items),
      pg_logout = new_dropdown logout_items, pg_userRequest = True\<rparr>"

definition on_ready :: "rat \<Rightarrow> tab list \<Rightarrow> 'z slider_app_scheme \<Rightarrow> page option \<times> 'z slider_app_scheme" where
  "on_ready width ts s =
     guard ''_on_ready'' (ap_stack s)
       (\<lambda>s. case begin_progress s of (h, s1) \<Rightarrow>
          (let s2 = setIndex width 2 s1; s3 = s2\<lparr>ap_loader := new_Loader\<rparr>
           in case end_progress h s3 of
                (Throw e, s4) \<Rightarrow> (Throw e, s4)
              | (Ok _, s4) \<Rightarrow> (Ok (start_page ts), s4))) s"

section \<open>Properties\<close>

lemma menu_texts_distinct:
  "distinct (map it_text logout_items)" "distinct (map it_text chart_size_items)"
  "distinct (map it_text advanced_items)"
  by (simp_all add: logout_items_def chart_size_items_def advanced_items_def)

text \<open>Every entry of the three menus runs the action it was given: the text that is shown for
  it finds exactly its own item.\<close>

theorem menu_entries_run:
  assumes "items \<in> {logout_items, chart_size_items, advanced_items}" "i < length items"
  shows "doAction (render_menu label (new_dropdown items)) (fst (the (dd_entries (render_menu label (new_dropdown items))) ! i)) =
    Ok (it_action (items ! i))"
proof -
  have d: "distinct (map it_text items)"
    using assms(1) menu_texts_distinct by (elim insertE emptyE) (simp_all only:)
  have "find (\<lambda>x. it_text x = it_text (items ! i)) items = Some (items ! i)"
    unfolding find_Some_iff
  proof (intro exI [of _ i] conjI allI impI)
    fix j
    assume "j < i"
    then show "it_text (items ! j) \<noteq> it_text (items ! i)"
      using nth_eq_iff_index_eq [OF d, of j i] assms(2) by simp
  qed (use assms(2) in simp_all)
  then show ?thesis
    using assms(2) by (simp add: doAction_def render_menu_def renderLabel_def renderDropdown_def new_dropdown_def)
qed

theorem menu_entries_run_witness:
  "doAction (render_menu ''Chart Size'' (new_dropdown chart_size_items)) ''Large (800x480)'' = Ok (Size 800 480 2)"
  using menu_entries_run [of chart_size_items 2 "''Chart Size''"]
  by (simp add: chart_size_items_def render_menu_def renderLabel_def renderDropdown_def new_dropdown_def)

text \<open>Pressing an open dropdown does not close it: the mouse-up closes it and the click opens it again.\<close>

theorem press_keeps_menu_open: "dd_open (press_menu d)"
  by (simp add: press_menu_def menu_open_def menu_close_def)

text \<open>Nobody can save a template, and the address claims that one was saved.\<close>

theorem template_never_saved:
  "da_saves (save_template fn s) = da_saves s \<and>
   (proper_name fn \<longrightarrow> da_hash (save_template fn s) = ''#?template='' @ fn)"
  by (simp add: save_template_def errorDialog_def)

end
