(* ===== verification/Lone_Counter.thy ===== *)
theory Lone_Counter
  imports Tree_View
begin

text \<open>
  The tree widget of src/files/jstree.js for a single counter, computed: what it is once it is made,
  after a click on its only row, and that refreshing it then selects the row again. Toggling a counter
  does not throw on the page.
\<close>

section \<open>One counter\<close>

definition lone_tree :: "string \<Rightarrow> node" where
  "lone_tree k = Node ''#'' [(k, Node k [] 1)] 2"

definition lone_node :: "string \<Rightarrow> string \<Rightarrow> bool \<Rightarrow> tnode" where
  "lone_node k i s =
     \<lparr>nd_id = i, nd_text = k, nd_parent = Some ''#'', nd_parents = [''#''], nd_children = [], nd_children_d = [],
      nd_state = default_state\<lparr>st_selected := s\<rparr>, nd_li_attr = [(''id'', Some i)],
      nd_a_attr = [(''href'', Some ''#''), (''class'', Some ''istatd-counter'')]\<rparr>"

definition lone_data :: "string \<Rightarrow> string \<Rightarrow> bool \<Rightarrow> tnode jsobj" where
  "lone_data k i s =
     [(''#'', root_node\<lparr>nd_children := [i], nd_children_d := [i], nd_state := no_state\<lparr>st_loaded := True\<rparr>\<rparr>), (i, lone_node k i s)]"

lemma lone_rows: "counter_rows (lone_tree k) =
    [JObject \<lparr>jd_id = None, jd_text = Some k, jd_state = [], jd_li_attr = [], jd_a_attr = [(''class'', Some ''istatd-counter'')]\<rparr> (Some [])]"
  by (simp add: counter_rows_def lone_tree_def formatTreeLevel_def child_items_def okeys_def order_keys_def oget_def icons_def)

section \<open>Making the widget\<close>

lemma bindM_weak: "m = m' \<Longrightarrow> w = w' \<Longrightarrow> bindM m f w = bindM m' f w'"
  by simp

lemma name_not_root [simp]: "node_name a n \<noteq> ''#''" "''#'' \<noteq> node_name a n" by (simp_all add: node_name_def)

lemma free_cnt_next: "oget d (node_name a (Suc c)) = None \<Longrightarrow> free_cnt d a c = Suc c"
  by (subst free_cnt.simps) simp

lemma lone_parse:
  assumes "jt_cnt t = 0" "jt_data t = [(''#'', r)]"
  defines "i \<equiv> node_name (jt_id t) 1"
  shows "parse_rows (counter_rows (lone_tree k)) ''#'' [] t =
    ([i], [i], t\<lparr>jt_cnt := 1, jt_data := [(''#'', r), (i, lone_node k i False)]\<rparr>)"
proof -
  have a: "alloc t = (i, t\<lparr>jt_cnt := 1\<rparr>)" using assms(1,2) by (simp add: alloc_def free_cnt_next oget_def i_def)
  have "i \<noteq> ''#''" "''#'' \<noteq> i" by (simp_all add: i_def)
  then show ?thesis unfolding lone_rows
    using a assms(2) by (simp add: row_id_def truthy_str_def oget_def put_node_def Let_def default_state_def row_li_attr_def assign_attrs_def
      descendants_of_def obj_simps lone_node_def)
qed

lemma lone_draw:
  assumes "node_at t ''#'' = Some r" "nd_children r = [i]" "node_at t i = Some n" "nd_children n = []" "\<not> st_opened (nd_state n)" "jt_dom t = []"
  shows "redraw True t = Some (Ok (), t\<lparr>jt_dom := [Li i []], jt_sliding := [], jt_full := False, jt_changed := []\<rparr>)"
  using assms by (simp add: redraw_def redraw_full_def table_size_def mapM_li_def take_li_out_def finish_li_def bindM_def whenM_def Let_def)

lemma lone_append:
  assumes "jt_cnt t = 0" "jt_data t = [(''#'', r)]" "nd_parents r = []" "jt_dom t = []" "i = node_name (jt_id t) 1"
  shows "append_json_data ''#'' (counter_rows (lone_tree k)) t =
    Some (Ok (), t\<lparr>jt_cnt := 1, jt_data := [(''#'', r\<lparr>nd_children_d := [i], nd_children := [i]\<rparr>), (i, lone_node k i False)],
      jt_dom := [Li i []], jt_sliding := [], jt_full := False, jt_changed := []\<rparr>)"
  using assms(1-4) lone_parse [of "t\<lparr>jt_data := [(''#'', r\<lparr>nd_children := [], nd_children_d := []\<rparr>)]\<rparr>" "r\<lparr>nd_children := [], nd_children_d := []\<rparr>" k]
  by (simp add: assms(5) append_json_data_def bindM_def whenM_def atM_def put_data_def oget_def sort_node_def sort_children_def array_sort_def sort_put_def obj_simps
    lone_draw lone_node_def default_state_def cong: bindM_weak)

definition lone_jst :: "string \<Rightarrow> nat \<Rightarrow> bool \<Rightarrow> jst" where
  "lone_jst k a s =
     (let i = node_name a 1 in (new_jst a)\<lparr>jt_cnt := 1, jt_data := lone_data k i s, jt_sel := (if s then [i] else []), jt_clicked := (if s then Some i else None),
       jt_loaded := True, jt_ready := True, jt_dom := [Li i []]\<rparr>)"

lemmas record_ext = attach_def jst.defs jst_page.defs

lemma lone_load:
  assumes "jt_cnt t = 0" "jt_data t = [(''#'', root_node)]" "jt_dom t = []" "i = node_name (jt_id t) 1" "je_data E = counter_data (lone_tree k)"
  shows "load_node E callback ''#'' t = bindM (on_load_node E ''#'' True) (\<lambda>_. callback ''#'' True)
    (t\<lparr>jt_cnt := 1, jt_dom := [Li i []], jt_sliding := [], jt_full := False, jt_changed := [], jt_data := lone_data k i False\<rparr>)"
proof -
  let ?r = "root_node\<lparr>nd_state := no_state\<lparr>st_loading := True\<rparr>\<rparr>"
  have a: "append_json_data ''#'' (counter_rows (lone_tree k)) (t\<lparr>jt_data := [(''#'', ?r)]\<rparr>) =
      Some (Ok (), t\<lparr>jt_cnt := 1, jt_data := [(''#'', ?r\<lparr>nd_children_d := [i], nd_children := [i]\<rparr>), (i, lone_node k i False)],
      jt_dom := [Li i []], jt_sliding := [], jt_full := False, jt_changed := []\<rparr>)"
    using assms(1,3,4) by (subst lone_append [of _ ?r i]) (simp_all add: root_node_def)
  have "i \<noteq> ''#''" "''#'' \<noteq> i" by (simp_all add: assms(4))
  then show ?thesis
    using assms(1,2,5) a by (simp add: load_node_def load_node_with_def whenM_def bindM_def atM_def oget_def put_data_def root_node_def
      no_state_def counter_data_def load_done_def lone_data_def cong: bindM_weak)
qed

lemma lone_init:
  assumes "je_data E = counter_data (lone_tree k)"
  shows "init_tree E (attach (new_jst a) p) = Some (Ok (), attach (lone_jst k a False) p)"
  unfolding init_tree_def using assms
  by (subst lone_load [of _ "node_name a 1" E k])
    (simp_all add: record_ext new_jst_def on_load_node_def first_load_def bindM_def whenM_def array_unique_def lone_jst_def Let_def)

section \<open>Clicking and refreshing\<close>

lemma lone_select:
  assumes "jt_data t = lone_data k i False" "i \<noteq> ''#''" "''#'' \<noteq> i"
  shows "select_node (tree_env (total_page rs tg) (lone_tree k)) False i t =
    Some (Ok (), t\<lparr>jt_data := lone_data k i True, jt_sel := jt_sel t @ [i], w_page := tg k (w_page t)\<rparr>)"
proof -
  let ?t = "t\<lparr>jt_data := lone_data k i True, jt_sel := jt_sel t @ [i]\<rparr>"
  have "text_path ?t i = [k]"
    using assms(2,3) by (simp add: text_path_def id_path_def text_at_def lone_data_def lone_node_def oget_def)
  then have h: "on_select_node (total_page rs tg) (lone_tree k) i ?t = Some (Ok (), ?t\<lparr>w_page := tg k (w_page t)\<rparr>)"
    using assms(2,3) by (simp add: on_select_node_def lone_data_def lone_node_def oget_def getCounterName_def total_page_def)
  have o: "open_to E i ?t = Some (Ok (), ?t)" for E :: "'a jst_page jst_env"
    using assms(2,3) by (simp add: open_to_def lone_data_def lone_node_def oget_def open_node_def open_node_with_def bindM_def)
  have "select_node (tree_env (total_page rs tg) (lone_tree k)) False i t = on_select_node (total_page rs tg) (lone_tree k) i ?t"
    using assms o by (simp add: select_node_def with_node_def lone_data_def lone_node_def oget_def default_state_def atM_def bindM_def whenM_def
      put_data_def tree_env_def)
  then show ?thesis using h by simp
qed

lemma lone_click:
  "activate_node (tree_env (total_page rs tg) (lone_tree k)) no_keys (node_name a 1) (attach (lone_jst k a False) p) =
     Some (Ok (), attach (lone_jst k a True) (tg k p))"
proof -
  let ?t = "attach (lone_jst k a False) p"
  have d: "\<not> is_disabled ?t (node_name a 1)" "refresh_clicked ?t = ?t" "deselect_all ?t = ?t"
    by (simp_all add: is_disabled_def with_node_def refresh_clicked_def deselect_all_def record_ext lone_jst_def lone_data_def new_jst_def Let_def
        oget_def lone_node_def default_state_def)
  have "jt_data ?t = lone_data k (node_name a 1) False" by (simp add: lone_jst_def Let_def)
  from lone_select [OF this name_not_root, of rs tg] show ?thesis
    using d by (simp add: activate_node_def no_keys_def Let_def bindM_def)
      (simp add: record_ext lone_jst_def new_jst_def lone_data_def oget_def Let_def)
qed

lemma root_not_index [simp]: "\<not> is_index ''#''" by (simp add: is_index_def is_digit_def)
lemma name_not_index [simp]: "\<not> is_index (node_name a n)" by (simp add: is_index_def node_name_def is_digit_def)

lemma lone_restore:
  assumes "jt_data t = lone_data k i False" "jt_sel t = [i]" "jt_restore t = \<lparr>rs_core = True, rs_open = Some [], rs_selected = Some [i]\<rparr>"
    "i \<noteq> ''#''" "''#'' \<noteq> i"
  shows "\<exists>w. set_state (Suc d) (tree_env (total_page rs tg) (lone_tree k)) (retM ()) t = Some (Ok (), w) \<and> w_page w = tg k (w_page t)"
proof -
  let ?t = "deselect_all (t\<lparr>jt_restore := (jt_restore t)\<lparr>rs_open := None\<rparr>\<rparr>)"
  have d: "jt_data ?t = lone_data k i False"
    using assms by (simp add: deselect_all_def mark_selected_def lone_data_def oget_def lone_node_def default_state_def obj_simps)
  have "w_page ?t = w_page t" by (simp add: deselect_all_def)
  with lone_select [OF d assms(4,5), of rs tg] show ?thesis
    using assms(3) by (simp add: restore_selected_def bindM_def)
qed

lemma lone_refresh:
  "\<exists>w. refresh_tree (tree_env (total_page rs tg) (lone_tree k)) (attach (lone_jst k a True) p) = Some (Ok (), w) \<and> w_page w = tg k p"
proof -
  let ?t = "attach (lone_jst k a True) p" and ?i = "node_name a 1" and ?E = "tree_env (total_page rs tg) (lone_tree k)"
  let ?r = "\<lparr>rs_core = True, rs_open = Some [], rs_selected = Some [?i]\<rparr>"
  have g: "get_state ?t = ?r"
    by (simp add: get_state_def Let_def lone_jst_def lone_data_def okeys_def order_keys_def is_open_def with_node_def oget_def
        lone_node_def default_state_def)
  let ?u = "?t\<lparr>jt_cnt := 1, jt_dom := [Li ?i []], jt_sliding := [], jt_full := False, jt_changed := [], jt_data := lone_data k ?i False,
      jt_loaded := True\<rparr>"
  have t: "jt_id ?t = a" "jt_sel ?t = [?i]" "jt_ready ?t" "jt_loaded ?t" "w_page ?t = p"
    by (simp_all add: record_ext lone_jst_def Let_def new_jst_def)
  obtain w where w: "set_state (Suc 0) ?E (retM ()) (?u\<lparr>jt_restore := ?r\<rparr>) = Some (Ok (), w)" "w_page w = tg k p"
    using lone_restore [of "?u\<lparr>jt_restore := ?r\<rparr>" k ?i 0 rs tg] t by auto
  have e: "je_data ?E = counter_data (lone_tree k)" by (simp add: tree_env_def rows_env_def)
  have l: "load_node ?E callback ''#'' (?t\<lparr>jt_cnt := 0, jt_data := [(''#'', root_node)], jt_dom := [], jt_sliding := []\<rparr>) =
      callback ''#'' True ?u" for callback
    using lone_load [of "?t\<lparr>jt_cnt := 0, jt_data := [(''#'', root_node)], jt_dom := [], jt_sliding := []\<rparr>" ?i ?E k callback] e t
    by (simp add: on_load_node_def first_load_def bindM_def whenM_def)
  show ?thesis
    unfolding refresh_tree_def g Let_def l using w by (simp add: whenM_def bindM_def del: set_state.simps)
qed

end
