(* ===== verification/Tree_Clicks.thy ===== *)
theory Tree_Clicks
  imports Lone_Counter
begin

text \<open>
  The tree on the page and the counters behind it. Whatever happens to the view, the widget shows the
  rows of the counter tree it was made for, so a click on the row of a counter toggles the graph of the
  counter that the path of the row names. What the widget restores when it is refreshed is selected
  again, and that toggles a counter again.
\<close>

section \<open>The widget inside the view\<close>

lemma data_only:
  assumes "jt_data t = jt_data u"
  shows "rows_ok src known t = rows_ok src known u" "text_path t i = text_path u i" "text_at t i = text_at u i" "node_row t = node_row u"
proof -
  have p: "text_path t = text_path u" by (rule ext) (simp add: assms text_path_def id_path_def text_at_def [abs_def])
  have r: "node_row t = node_row u" by (rule ext) (simp add: assms node_row_def)
  show "rows_ok src known t = rows_ok src known u" by (simp add: rows_ok_def tree_wf_def assms p r)
  show "text_path t i = text_path u i" by (simp add: p)
  show "text_at t i = text_at u i" by (simp add: assms text_at_def)
  show "node_row t = node_row u" by (rule r)
qed

lemma covers_data: "jt_data t = jt_data u \<Longrightarrow> jt_sel t = jt_sel u \<Longrightarrow> sel_covers t = sel_covers u"
  by (simp add: sel_covers_def)

lemma truncate_fields [simp]:
  "jt_data (jst.truncate w) = jt_data w" "jt_sel (jst.truncate w) = jt_sel w" "jt_ready (jst.truncate w) = jt_ready w"
  by (simp_all add: jst.defs)

lemmas attach_shows [simp] =
  data_only(1) [OF attach_fields(1)] data_only(2) [OF attach_fields(1)] covers_data [OF attach_fields(1,2)]
  data_only(1) [OF truncate_fields(1)] data_only(2) [OF truncate_fields(1)] covers_data [OF truncate_fields(1,2)]

text \<open>The widget shows the counter tree it was made for, marks only nodes that its selection has, and is ready.\<close>

definition view_shows :: "'p tree_view \<Rightarrow> bool" where
  "view_shows v \<longleftrightarrow>
     (\<forall>ct. tv_tree v = Some ct \<longrightarrow> (\<exists>cs. ct = tree_for cs \<and> shows_tree cs (tv_jst v)) \<and> sel_covers (tv_jst v) \<and> jt_ready (tv_jst v))"

lemma view_showsE:
  assumes "view_shows v" "tv_tree v = Some ct"
  obtains cs where "ct = tree_for cs" "shows_tree cs (tv_jst v)" "sel_covers (tv_jst v)" "jt_ready (tv_jst v)"
  using assms by (auto simp: view_shows_def)

lemma view_shows_frame [simp]:
  "view_shows (mupd r f v) = view_shows v" "view_shows (v\<lparr>tv_page := p\<rparr>) = view_shows v"
  "view_shows (v\<lparr>tv_input := s\<rparr>) = view_shows v" "view_shows (v\<lparr>tv_labelShown := b\<rparr>) = view_shows v"
  by (simp_all add: view_shows_def mupd_def)

lemma on_widget_shows:
  assumes "\<And>cs. keeps (shows_tree cs) (f (tree_for cs))" "\<And>ct. keeps sel_covers (f ct)" "\<And>ct. keeps jt_ready (f ct)"
  shows "keeps view_shows (on_widget f)"
proof (rule keepsI)
  fix v r v' assume v: "view_shows v" "on_widget f v = Some (r, v')"
  show "view_shows v'"
  proof (cases "tv_tree v")
    case (Some ct)
    obtain cs where cs: "ct = tree_for cs" "shows_tree cs (tv_jst v)" "sel_covers (tv_jst v)" "jt_ready (tv_jst v)"
      using v(1) Some by (rule view_showsE)
    obtain w where w: "f ct (attach (tv_jst v) (tv_page v)) = Some (r, w)" "v' = v\<lparr>tv_jst := jst.truncate w, tv_page := w_page w\<rparr>"
      using v(2) Some by (auto simp: on_widget_def split: option.splits)
    have a: "shows_tree cs (attach (tv_jst v) (tv_page v))" "sel_covers (attach (tv_jst v) (tv_page v))"
      "jt_ready (attach (tv_jst v) (tv_page v))" using cs by simp_all
    have "shows_tree cs w" by (rule keepsD [OF assms(1) a(1) w(1) [unfolded cs(1)]])
    moreover have "sel_covers w" by (rule keepsD [OF assms(2) a(2) w(1)])
    moreover have "jt_ready w" by (rule keepsD [OF assms(3) a(3) w(1)])
    ultimately show ?thesis using Some cs(1) by (auto simp: w(2) view_shows_def)
  qed (use v in \<open>simp add: on_widget_def\<close>)
qed

lemma make_widget_shows:
  assumes "make_widget pg (tree_for cs) v = Some (r, v')"
  shows "view_shows v'"
proof -
  let ?w = "attach (new_jst (Suc (tv_inst v))) (tv_page v)"
  obtain w where w: "init_tree (tree_env pg (tree_for cs)) ?w = Some (r, w)" "tv_tree v' = Some (tree_for cs)" "tv_jst v' = jst.truncate w"
    using assms by (auto simp: make_widget_def on_widget_def split: option.splits)
  have n: "jt_data ?w = [(''#'', root_node)]" by (simp add: new_jst_def)
  have s: "sel_covers ?w" by (simp add: new_jst_def sel_covers_def oget_def root_node_def no_state_def)
  have "jt_sel ?w = []" by (simp add: new_jst_def)
  then have "shows_tree cs w \<and> jt_ready w"
    using counter_source.init_works [OF _ n, of "tree_env pg (tree_for cs)" cs] w(1) by (auto simp: tree_env_def rows_env_def)
  moreover have "sel_covers w" using tree_covers.init_keeps [OF n s w(1)] .
  ultimately show ?thesis using w(2,3) by (auto simp: view_shows_def)
qed

lemma render_shows: "keeps view_shows (render_view rx pg)"
proof (rule keepsI)
  fix v r v' assume v: "view_shows v" "render_view rx pg v = Some (r, v')"
  show "view_shows v'"
  proof (cases "tree_of rx (model_get ''pattern'' (tree_model v)) (model_get ''matching_names'' (tree_model v))")
    case (Throw e)
    then show ?thesis using v by (simp add: render_view_def Let_def)
  next
    case (Ok t)
    obtain cs where cs: "t = tree_for cs" using tree_of_counters [OF Ok] by blast
    have "keeps view_shows (make_widget pg t)" using make_widget_shows unfolding cs by (rule keepsI)
    then have k: "keeps view_shows (bindM (on_widget (\<lambda>ct. refresh_tree (tree_env pg ct))) (\<lambda>_. bindM (make_widget pg t) (\<lambda>_.
        modifyM (\<lambda>v. v\<lparr>tv_page := po_resize pg (tv_page v)\<rparr>))))"
      by (intro keeps_bindM on_widget_shows tree_widget.shown.refresh_keeps tree_covers.refresh_keeps
        tree_ready.refresh_keeps keeps_modifyM) simp_all
    show ?thesis by (rule keepsD [OF k v(1)]) (use v(2) Ok in \<open>simp add: render_view_def Let_def\<close>)
  qed
qed

lemma model_set_shows: "keeps view_shows (model_set (tree_listeners rx pg) counter_class r attrs opts)"
proof -
  have n: "keeps view_shows (tree_listeners rx pg r n ev opts)" for r n ev opts
    using keepsD [OF render_shows] by (auto intro!: keepsI simp: tree_listeners_def split: if_splits)
  then have "keeps view_shows (fire (tree_listeners rx pg) r n ev opts)" for r n ev opts unfolding fire_def by auto
  then show ?thesis by (rule model_set_keeps) simp_all
qed

lemma deselect_shows: "keeps view_shows (on_widget (\<lambda>_. modifyM deselect_all))"
  by (rule on_widget_shows) (auto intro: tree_covers.unmarks(2) tree_ready.unmarks(2))

lemma set_pattern_shows: "keeps view_shows (set_pattern rx pg p)"
  using keepsD [OF model_set_shows] by (auto intro!: keepsI simp: set_pattern_def)

lemma view_step_shows:
  assumes "view_shows v" "view_step rx v v'"
  shows "view_shows v'"
  using assms(2)
proof cases
  case (vs_fetched p cs q)
  then show ?thesis unfolding names_fetched_eq by (elim bindM_done) (rule keepsD [OF model_set_shows assms(1)])
next
  case (vs_keydown which q)
  have "keeps view_shows (whenM b (bindM (on_widget (\<lambda>_. modifyM deselect_all)) (\<lambda>_. bindM (set_pattern rx graph_page p) (\<lambda>_. retM ()))))" for b p
    by (intro keeps_whenM keeps_bindM deselect_shows set_pattern_shows keeps_retM)
  from keepsD [OF this assms(1)] show ?thesis using vs_keydown unfolding input_keydown_def .
next
  case (vs_clear q)
  have "view_shows (v\<lparr>tv_input := [], tv_labelShown := True\<rparr>)" using assms(1) by simp
  then show ?thesis using vs_clear unfolding clear_filter_def by (elim bindM_done) (rule keepsD [OF set_pattern_shows])
next
  case (vs_slide i q)
  have "keeps view_shows (on_widget (\<lambda>_. modifyM (slide_end i)))"
    by (rule on_widget_shows) (auto intro: keeps_same covers_drawn.dom_ops(3) ready_loads.dom_ops(3))
  from keepsD [OF this assms(1) vs_slide] show ?thesis .
qed (use assms(1) in \<open>auto simp: input_focus_def input_blur_def intro: keepsD [OF deselect_shows] \<close>,
   auto intro: keepsD [OF on_widget_shows, OF tree_widget.shown.activate_node_keeps tree_covers.activate_node_keeps tree_ready.activate_node_keeps assms(1)]
     keepsD [OF on_widget_shows, OF tree_widget.shown.toggle_node_keeps tree_covers.toggle_node_keeps tree_ready.toggle_node_keeps assms(1)]
     keepsD [OF on_widget_shows, OF tree_widget.shown.keydown_keeps tree_covers.keydown_keeps tree_ready.keydown_keeps assms(1)]
     keepsD [OF on_widget_shows, OF tree_widget.shown.timer_keeps tree_covers.timer_keeps tree_ready.timer_keeps assms(1)])

interpretation shows_machine: machine "\<lambda>v. v = new_tree_view page" "view_step rx" view_shows for page rx
proof
  fix v w
  show "v = new_tree_view page \<Longrightarrow> view_shows v" by (simp add: view_shows_def new_tree_view_fields)
  show "view_shows v \<Longrightarrow> view_step rx v w \<Longrightarrow> view_shows w" by (rule view_step_shows)
qed

section \<open>Rows and counters\<close>

lemma counter_rows_texts: "map row_text (counter_rows n) = okeys (n_children n)"
  by (auto simp: counter_rows_def formatTreeLevel_def child_items_def row_text_def row_fields_def intro!: map_idI)

lemma node_row_text: "fst (node_row t c) = text_at t c"
  by (simp add: node_row_def text_at_def split: option.split)

lemma shown_rows:
  assumes "shows_tree cs t" "node_at t i = Some n" "st_loaded (nd_state n)"
  obtains c where "findNodeInCounterTree (tree_for cs) (text_path t i) = Ok c"
    "mset (map (text_at t) (nd_children n)) = mset (okeys (n_children c))"
proof -
  obtain c where c: "findNodeInCounterTree (tree_for cs) (text_path t i) = Ok c" "counter_src (tree_for cs) (text_path t i) = counter_rows c"
    using rows_okD(1) [OF assms(1,2)] by (rule counter_knownE)
  from rows_okD(2) [OF assms] have "mset (map (node_row t) (nd_children n)) = mset (map data_row (counter_rows c))" by (simp add: c(2))
  then have "mset (map fst (map (node_row t) (nd_children n))) = mset (map fst (map data_row (counter_rows c)))" by (simp only: mset_map)
  then have "mset (map (text_at t) (nd_children n)) = mset (map row_text (counter_rows c))"
    by (simp add: comp_def node_row_text data_row_def)
  then show ?thesis using that [OF c(1)] by (simp only: counter_rows_texts)
qed

section \<open>One counter in the view\<close>

definition lone_counter :: "string \<Rightarrow> counter" where
  "lone_counter k = \<lparr>c_name = k, c_type = 1, c_leaf = True\<rparr>"

definition lone_name :: "string \<Rightarrow> bool" where
  "lone_name k \<longleftrightarrow> CHR ''.'' \<notin> set k \<and> \<not> inherited k"

lemma lone_counter_tree:
  assumes "lone_name k"
  shows "asCounterTree [lone_counter k] = Ok (lone_tree k)"
  using assms
  by (simp add: lone_name_def asCounterTree_def lone_counter_def lone_tree_def newNode_def child_items_def okeys_def order_keys_def oget_def split_chr_notin maybeMoveUp_def)

lemma lone_net: "lone_name ''net''"
  by code_simp

lemma lone_tree_of:
  assumes "lone_name k" "pattern_matcher rx p = Some se" "se k"
  shows "tree_of rx (Val (Text p)) (Val (Names [lone_counter k])) = Ok (lone_tree k)"
  using assms lone_counter_tree [OF assms(1)]
  by (simp add: tree_of_def render_tree_def names_of_def chosen_counters_def lone_counter_def)

lemma lone_view:
  assumes "lone_name k"
  shows "\<exists>v. names_fetched rx pg ''*'' [lone_counter k] (new_tree_view page) = Some (Ok (), v) \<and>
    \<not> changing (tree_model v) \<and> pending (tree_model v) = None \<and> tv_tree v = Some (lone_tree k) \<and> tv_jst v = lone_jst k 1 False \<and>
    model_get ''pattern'' (tree_model v) = Val (Text ''*'') \<and> model_get ''matching_names'' (tree_model v) = Val (Names [lone_counter k])"
proof -
  have d: "\<not> changing (tree_model (new_tree_view page))" "model_get ''matching_names'' (tree_model (new_tree_view page)) = Val (Names [])"
    "tv_inst (new_tree_view page) = 0"
    by code_simp+
  have t: "tree_of rx (Val (Text ''*'')) (Val (Names [lone_counter k])) = Ok (lone_tree k)"
    by (rule lone_tree_of [OF assms, of _ _ "\<lambda>_. True"]) (simp_all add: pattern_matcher_def)
  have n: "model_get ''matching_names'' (tree_model (new_tree_view page)) \<noteq> Val (Names [lone_counter k])" using d(2) by simp
  have e: "je_data (tree_env pg (lone_tree k)) = counter_data (lone_tree k)" by (simp add: tree_env_def rows_env_def)
  have a: "jst.truncate (attach j p) = j" for j :: jst and p by (cases j) (simp add: record_ext)
  from names_fetched_shows [OF d(1) new_tree_view_fields(2) t n new_tree_view_fields(1), of pg]
  show ?thesis unfolding d(3) using lone_init [OF e, of "Suc 0"] a by auto
qed

text \<open>C15: whatever happened to the view, the rows below a loaded row of the widget are the children
  of the counter tree at the path of texts that leads to the row, every child once.\<close>

theorem tree_rows_are_counters:
  assumes "(view_step rx)\<^sup>*\<^sup>* (new_tree_view page) v" "tv_tree v = Some ct" "node_at (tv_jst v) i = Some n" "st_loaded (nd_state n)"
  shows "\<exists>c. findNodeInCounterTree ct (text_path (tv_jst v) i) = Ok c \<and>
    distinct (map (text_at (tv_jst v)) (nd_children n)) \<and> set (map (text_at (tv_jst v)) (nd_children n)) = set (okeys (n_children c))"
proof -
  obtain cs where cs: "ct = tree_for cs" "shows_tree cs (tv_jst v)"
    using shows_machine.inv_reach [OF refl assms(1)] assms(2) by (rule view_showsE)
  obtain c where c: "findNodeInCounterTree ct (text_path (tv_jst v) i) = Ok c"
    "mset (map (text_at (tv_jst v)) (nd_children n)) = mset (okeys (n_children c))"
    using shown_rows [OF cs(2) assms(3,4)] cs(1) by metis
  have "wf_obj (n_children c)" using findNode_objs [OF c(1)] tree_for_objs cs(1) objs_ok_wf by blast
  then show ?thesis using c mset_eq_imp_distinct_iff [OF c(2)] mset_eq_setD [OF c(2)] by (auto simp: distinct_okeys)
qed

theorem tree_rows_are_counters_witness:
  "\<forall>page. \<exists>v n c. names_fetched (\<lambda>_. None) graph_page ''*'' [lone_counter ''net''] (new_tree_view page) = Some (Ok (), v) \<and>
     node_at (tv_jst v) ''#'' = Some n \<and> set (map (text_at (tv_jst v)) (nd_children n)) = set (okeys (n_children c)) \<and> c = lone_tree ''net''"
proof
  fix page
  obtain v where v: "names_fetched (\<lambda>_. None) graph_page ''*'' [lone_counter ''net''] (new_tree_view page) = Some (Ok (), v)"
    "tv_tree v = Some (lone_tree ''net'')" "tv_jst v = lone_jst ''net'' 1 False"
    using lone_view [OF lone_net, of "\<lambda>_. None" graph_page page] by auto
  have r: "(view_step (\<lambda>_. None))\<^sup>*\<^sup>* (new_tree_view page) v" using vs_fetched [OF v(1)] by (rule r_into_rtranclp)
  obtain n where n: "node_at (tv_jst v) ''#'' = Some n" "st_loaded (nd_state n)" "nd_parents n = []"
    by (simp add: v(3) lone_jst_def Let_def lone_data_def oget_def root_node_def)
  have "text_path (tv_jst v) ''#'' = []" using n by (simp add: text_path_def id_path_def)
  with tree_rows_are_counters [OF r v(2) n(1,2)] v(1) n(1)
  show "\<exists>v n c. names_fetched (\<lambda>_. None) graph_page ''*'' [lone_counter ''net''] (new_tree_view page) = Some (Ok (), v) \<and>
     node_at (tv_jst v) ''#'' = Some n \<and> set (map (text_at (tv_jst v)) (nd_children n)) = set (okeys (n_children c)) \<and> c = lone_tree ''net''" by auto
qed

section \<open>Clicks\<close>

abbreviation toggled :: "string \<Rightarrow> frame \<times> app \<Rightarrow> frame \<times> app" where
  "toggled name p \<equiv> (fst p, snd (toggleGraphing name None (snd p)))"

lemma graph_page_total: "graph_page = total_page documentResize toggled"
proof -
  have "toggleGraphing name None s = (Ok (), snd (toggleGraphing name None s))" for name and s :: app
    by (simp add: toggleGraphing_def split: option.split prod.split)
  then show ?thesis unfolding graph_page_def total_page_def by (metis (mono_tags, lifting) case_prod_conv)
qed

lemma click_view:
  assumes "view_shows v" "tv_tree v = Some ct" "node_at (tv_jst v) i = Some n" "i \<noteq> ''#''" "oget (nd_a_attr n) ''class'' \<noteq> None"
  defines "name \<equiv> getCounterName (text_path (tv_jst v) i)"
  shows "\<exists>v'. on_widget (\<lambda>ct. activate_node (tree_env (total_page rs tg) ct) no_keys i) v = Some (Ok (), v') \<and>
    tv_page v' = tg name (tv_page v) \<and> name \<in> fst ` set (tree_names ct)"
proof -
  let ?w = "attach (tv_jst v) (tv_page v)" and ?E = "tree_env (total_page rs tg) ct"
  obtain cs where cs: "ct = tree_for cs" "shows_tree cs (tv_jst v)" "sel_covers (tv_jst v)" using assms(1,2) by (rule view_showsE)
  have w: "shows_tree cs ?w" "sel_covers ?w" "node_at ?w i = Some n" using cs assms(3) by simp_all
  obtain u where u: "activate_node ?E no_keys i ?w =
      bindM (je_select ?E i) (\<lambda>_. modifyM (\<lambda>t. t\<lparr>jt_clicked := (if node_at t i = None then None else Some i)\<rparr>)) u" "same ?w u"
    using click_selects [OF w assms(4), of ?E] by blast
  obtain m where m: "node_at u i = Some m" "bare m = bare n" using same_node [OF u(2) w(3)] .
  have p: "w_page u = tv_page v" "text_path u i = text_path (tv_jst v) i"
    using u(2) extends_path [OF rows_ok_wf [OF w(1)] same_extends [OF u(2)]] w(3) page_more [of u ?w] by (simp_all add: same_def)
  have "je_select ?E i u = Some (Ok (), u\<lparr>w_page := tg name (tv_page v)\<rparr>)"
    using assms(5) m bare_fields(7) [OF m(2)] p by (simp add: tree_env_def on_select_node_def total_page_def name_def)
  then show ?thesis
    using assms(2) u(1) leaf_row_named [OF cs(2) assms(3,4,5)] cs(1) by (simp add: on_widget_def bindM_def name_def)
qed

text \<open>C14: whatever happened to the view, a click on a row of a counter toggles that counter, once, and
  no other: its name is the path of texts that leads to the row, and it is one of the names of the counter tree.\<close>

theorem click_toggles_counter:
  assumes "(view_step rx)\<^sup>*\<^sup>* (new_tree_view page) v" "tv_tree v = Some ct"
    and "node_at (tv_jst v) i = Some n" "i \<noteq> ''#''" "oget (nd_a_attr n) ''class'' \<noteq> None"
  shows "\<exists>v'. on_widget (\<lambda>ct. activate_node (tree_env graph_page ct) no_keys i) v = Some (Ok (), v') \<and>
    tv_page v' = (fst (tv_page v), snd (toggleGraphing (getCounterName (text_path (tv_jst v) i)) None (snd (tv_page v)))) \<and>
    getCounterName (text_path (tv_jst v) i) \<in> fst ` set (tree_names ct)"
  using click_view [OF shows_machine.inv_reach [OF refl assms(1)] assms(2-5), of documentResize toggled]
  unfolding graph_page_total .

theorem click_toggles_counter_witness:
  "\<forall>page. \<exists>v v'. names_fetched (\<lambda>_. None) graph_page ''*'' [lone_counter ''net''] (new_tree_view page) = Some (Ok (), v) \<and>
     on_widget (\<lambda>ct. activate_node (tree_env graph_page ct) no_keys (node_name 1 1)) v = Some (Ok (), v') \<and>
     tv_page v' = (fst (tv_page v), snd (toggleGraphing ''net'' None (snd (tv_page v))))"
proof
  fix page
  obtain v where v: "names_fetched (\<lambda>_. None) graph_page ''*'' [lone_counter ''net''] (new_tree_view page) = Some (Ok (), v)"
    "tv_tree v = Some (lone_tree ''net'')" "tv_jst v = lone_jst ''net'' 1 False"
    using lone_view [OF lone_net, of "\<lambda>_. None" graph_page page] by auto
  have r: "(view_step (\<lambda>_. None))\<^sup>*\<^sup>* (new_tree_view page) v" using vs_fetched [OF v(1)] by (rule r_into_rtranclp)
  have n: "node_at (tv_jst v) (node_name 1 1) = Some (lone_node ''net'' (node_name 1 1) False)"
    by (simp add: v(3) lone_jst_def Let_def lone_data_def oget_def)
  have c: "oget (nd_a_attr (lone_node ''net'' (node_name 1 1) False)) ''class'' \<noteq> None" by (simp add: lone_node_def oget_def)
  have "getCounterName (text_path (tv_jst v) (node_name 1 1)) = ''net''"
    by (simp add: v(3) text_path_def id_path_def text_at_def lone_jst_def Let_def lone_data_def lone_node_def oget_def getCounterName_def)
  with click_toggles_counter [OF r v(2) n name_not_root(1) c] v(1)
  show "\<exists>v v'. names_fetched (\<lambda>_. None) graph_page ''*'' [lone_counter ''net''] (new_tree_view page) = Some (Ok (), v) \<and>
     on_widget (\<lambda>ct. activate_node (tree_env graph_page ct) no_keys (node_name 1 1)) v = Some (Ok (), v') \<and>
     tv_page v' = (fst (tv_page v), snd (toggleGraphing ''net'' None (snd (tv_page v))))" by auto
qed

section \<open>A new search\<close>

lemma rows_data: "je_data (tree_env pg ct) = counter_data ct"
  by (simp add: tree_env_def rows_env_def)

text \<open>Making a widget for a tree of counters works and leaves the page alone.\<close>

lemma make_widget_works:
  "\<exists>v'. make_widget pg (tree_for cs) v = Some (Ok (), v') \<and> tv_tree v' = Some (tree_for cs) \<and> tv_page v' = tv_page v"
proof -
  let ?w = "attach (new_jst (Suc (tv_inst v))) (tv_page v)"
  have "jt_data ?w = [(''#'', root_node)]" "jt_sel ?w = []" by (simp_all add: new_jst_def)
  from counter_source.init_works [OF rows_data this]
  obtain u where u: "init_tree (tree_env pg (tree_for cs)) ?w = Some (Ok (), u)" "jst.more u = jst.more ?w" by blast
  then show ?thesis using page_more [OF u(2)] by (simp add: make_widget_def on_widget_def)
qed

definition none_selected :: "'p tree_view \<Rightarrow> bool" where
  "none_selected v \<longleftrightarrow> tv_tree v = None \<or> (\<forall>i. \<not> is_selected (tv_jst v) i)"

lemma attach_selected [simp]: "is_selected (attach j p) i = is_selected j i"
  by (simp add: is_selected_def with_node_def)

lemma refresh_view_ends:
  assumes "view_shows v"
  shows "\<exists>v'. on_widget (\<lambda>ct. refresh_tree (tree_env (total_page rs tg) ct)) v = Some (Ok (), v') \<and>
    (none_selected v \<longrightarrow> tv_page v' = tv_page v)"
proof (cases "tv_tree v")
  case (Some ct)
  let ?w = "attach (tv_jst v) (tv_page v)"
  obtain cs where cs: "ct = tree_for cs" "shows_tree cs (tv_jst v)" "jt_ready (tv_jst v)" using assms Some by (rule view_showsE)
  then obtain u where u: "refresh_tree (tree_env (total_page rs tg) ct) ?w = Some (Ok (), u)"
      "(\<forall>i. \<not> is_selected ?w i) \<longrightarrow> jst.more u = jst.more ?w"
    using tree_handler.refresh_ends [of cs ?w rs tg] by auto
  then show ?thesis using Some page_more [of u ?w] by (simp add: on_widget_def none_selected_def)
qed (simp add: on_widget_def)

lemma render_ends:
  assumes "view_shows v" "model_tree rx (tree_model v) = Ok t"
  shows "\<exists>v'. render_view rx (total_page rs tg) v = Some (Ok (), v') \<and> tv_tree v' = Some t \<and>
    (none_selected v \<longrightarrow> tv_page v' = rs (tv_page v))"
proof -
  obtain cs where cs: "t = tree_for cs" using tree_of_counters assms(2) unfolding model_tree_def by blast
  obtain v1 where v1: "on_widget (\<lambda>ct. refresh_tree (tree_env (total_page rs tg) ct)) v = Some (Ok (), v1)"
    "none_selected v \<longrightarrow> tv_page v1 = tv_page v" using refresh_view_ends [OF assms(1)] by blast
  obtain v2 where v2: "make_widget (total_page rs tg) t v1 = Some (Ok (), v2)" "tv_tree v2 = Some t" "tv_page v2 = tv_page v1"
    using make_widget_works cs by blast
  have p: "po_resize (total_page rs tg) = rs" by (simp add: total_page_def)
  then show ?thesis using assms(2) v1 v2 by (auto simp: render_view_def model_tree_def Let_def bindM_def p)
qed

lemma set_pattern_ends:
  assumes "view_shows v" "view_ok rx v" "\<not> changing (tree_model v)"
    and "model_get ''pattern'' (tree_model v) \<noteq> Val (Text p)"
    and "tree_of rx (Val (Text p)) (model_get ''matching_names'' (tree_model v)) = Ok t"
  shows "\<exists>v'. set_pattern rx (total_page rs tg) p v = Some (Ok True, v') \<and> tv_tree v' = Some t \<and> \<not> changing (tree_model v')"
proof -
  have pn: "pending (tree_model v) = None" using assms(2,3) by (simp add: view_ok_def)
  let ?m = "snd (write_attrs [(''pattern'', Val (Text p))] no_opts (tree_model v))"
  let ?v = "mupd (tv_model v) (\<lambda>_. ?m\<lparr>pending := None\<rparr>) v"
  have "model_tree rx (tree_model ?v) = Ok t"
    using assms(5) by (simp add: model_tree_def pattern_written model_get_def [of _ "?m\<lparr>pending := None\<rparr>"] model_get_def [of _ ?m, symmetric])
  then obtain v1 where v1: "render_view rx (total_page rs tg) ?v = Some (Ok (), v1)" "tv_tree v1 = Some t"
    using render_ends [of ?v rx t rs tg] assms(1) by auto
  have "tv_model v1 = tv_model v" using render_frame(1) [OF v1(1)] by simp
  then show ?thesis
    unfolding set_pattern_def model_set_tree [OF pattern_attrs(1) tree_opts_used(1) assms(3) pn]
    using pattern_differs [OF assms(4)] v1 by simp
qed

text \<open>C16: whatever happened to an idle view, a new pattern that has a tree is shown: refreshing the old
  widget, with whatever was open and selected, comes to an end, and the model is idle again.\<close>

theorem new_search_is_shown:
  assumes "(view_step rx)\<^sup>*\<^sup>* (new_tree_view page) v" "\<not> changing (tree_model v)"
    and "model_get ''pattern'' (tree_model v) \<noteq> Val (Text p)"
    and "tree_of rx (Val (Text p)) (model_get ''matching_names'' (tree_model v)) = Ok t"
  shows "\<exists>v'. set_pattern rx graph_page p v = Some (Ok True, v') \<and> tv_tree v' = Some t \<and> \<not> changing (tree_model v')"
  unfolding graph_page_total
  by (rule set_pattern_ends [OF shows_machine.inv_reach [OF refl assms(1)] tree_machine.inv_reach [OF refl assms(1)] assms(2-4)])

theorem new_search_is_shown_witness:
  "\<forall>page. \<exists>v v'. names_fetched (\<lambda>_. Some (\<lambda>_. True)) graph_page ''*'' [lone_counter ''net''] (new_tree_view page) = Some (Ok (), v) \<and>
     set_pattern (\<lambda>_. Some (\<lambda>_. True)) graph_page ''n'' v = Some (Ok True, v') \<and> tv_tree v' = Some (lone_tree ''net'')"
proof
  fix page
  let ?rx = "\<lambda>_. Some (\<lambda>_. True)"
  obtain v where v: "names_fetched ?rx graph_page ''*'' [lone_counter ''net''] (new_tree_view page) = Some (Ok (), v)"
    "\<not> changing (tree_model v)" "model_get ''pattern'' (tree_model v) = Val (Text ''*'')"
    "model_get ''matching_names'' (tree_model v) = Val (Names [lone_counter ''net''])"
    using lone_view [OF lone_net, of ?rx graph_page page] by auto
  have r: "(view_step ?rx)\<^sup>*\<^sup>* (new_tree_view page) v" using vs_fetched [OF v(1)] by (rule r_into_rtranclp)
  have "model_get ''pattern'' (tree_model v) \<noteq> Val (Text ''n'')" using v(3) by simp
  moreover have "tree_of ?rx (Val (Text ''n'')) (model_get ''matching_names'' (tree_model v)) = Ok (lone_tree ''net'')"
    unfolding v(4) by (rule lone_tree_of [OF lone_net, of _ _ "\<lambda>_. True"]) (simp_all add: pattern_matcher_def)
  ultimately show "\<exists>v v'. names_fetched ?rx graph_page ''*'' [lone_counter ''net''] (new_tree_view page) = Some (Ok (), v) \<and>
     set_pattern ?rx graph_page ''n'' v = Some (Ok True, v') \<and> tv_tree v' = Some (lone_tree ''net'')"
    using new_search_is_shown [OF r v(2)] v(1) by blast
qed

text \<open>Changing the pattern while no row is selected.\<close>

lemma set_pattern_page:
  assumes "view_shows v" "view_ok rx v" "none_selected v" "set_pattern rx (total_page rs tg) p v = Some (q, v')"
  shows "tv_page v' = tv_page v \<or> tv_page v' = rs (tv_page v)"
proof (cases "changing (tree_model v)")
  case True
  then show ?thesis
    using model_set_frozen [OF pattern_attrs(1) tree_opts_used(1) True, of rx "total_page rs tg" "Val (Text p)"] assms(4)
    by (auto simp: set_pattern_def)
next
  case False
  then have pn: "pending (tree_model v) = None" using assms(2) by (simp add: view_ok_def)
  let ?m = "snd (write_attrs [(''pattern'', Val (Text p))] no_opts (tree_model v))"
  let ?v = "mupd (tv_model v) (\<lambda>_. ?m\<lparr>pending := None\<rparr>) v"
  have s: "view_shows ?v" "none_selected ?v" using assms(1,3) by (simp_all add: none_selected_def)
  have "tv_page v1 = tv_page v \<or> tv_page v1 = rs (tv_page v)" if r: "render_view rx (total_page rs tg) ?v = Some (q1, v1)" for q1 v1
  proof (cases "model_tree rx (tree_model ?v)")
    case (Ok t)
    then show ?thesis using render_ends [OF s(1) Ok, of rs tg] s(2) r by auto
  next
    case (Throw e)
    from render_throws [OF this] show ?thesis using r by auto
  qed
  then show ?thesis
    using assms(4) unfolding set_pattern_def model_set_tree [OF pattern_attrs(1) tree_opts_used(1) False pn]
    by (auto split: if_splits option.splits outcome.splits)
qed

text \<open>C17: whatever happened to the view and whatever is typed, a key pressed in the search field never toggles a
  counter: the page is as it was, or as a resize leaves it.\<close>

theorem search_toggles_nothing:
  assumes "(view_step rx)\<^sup>*\<^sup>* (new_tree_view page) v" "input_keydown rx graph_page which v = Some (q, v')"
  shows "tv_page v' = tv_page v \<or> tv_page v' = documentResize (tv_page v)"
proof (cases "which = 13")
  case True
  have sh: "view_shows v" and ok: "view_ok rx v"
    using shows_machine.inv_reach [OF refl assms(1)] tree_machine.inv_reach [OF refl assms(1)] by simp_all
  obtain u where u: "on_widget (\<lambda>_. modifyM deselect_all) v = Some (Ok (), u)" by (cases "tv_tree v") (auto simp: on_widget_def)
  have f: "view_shows u" "view_ok rx u" using keepsD [OF deselect_shows sh u] ok on_widget_frame [OF u] by (simp_all add: view_ok_def)
  have n: "none_selected u \<and> tv_page u = tv_page v"
  proof (cases "tv_tree v")
    case None
    then show ?thesis using u by (simp add: on_widget_def none_selected_def)
  next
    case (Some ct)
    obtain cs where "sel_covers (tv_jst v)" using sh Some by (rule view_showsE)
    then have c: "\<not> is_selected (deselect_all (attach (tv_jst v) (tv_page v))) i" for i by (intro covers_deselect_all(2)) simp
    have e: "u = v\<lparr>tv_jst := jst.truncate (deselect_all (attach (tv_jst v) (tv_page v)))\<rparr>"
      using u Some by (auto simp: on_widget_def deselect_all_def)
    have "\<not> is_selected (tv_jst u) i" for i using c [of i] by (simp add: e is_selected_def with_node_def)
    then show ?thesis by (simp add: e none_selected_def)
  qed
  have "bindM (set_pattern rx graph_page (tv_input v)) (\<lambda>_. retM ()) u = Some (q, v')"
    using assms(2) True u by (simp add: input_keydown_def whenM_def bindM_def)
  then obtain q' where "set_pattern rx graph_page (tv_input v) u = Some (q', v')" by (elim bindM_done)
  then show ?thesis using set_pattern_page [OF f, of documentResize toggled] n by (simp add: graph_page_total)
qed (use assms(2) in \<open>simp add: input_keydown_def whenM_def\<close>)

theorem search_toggles_nothing_witness:
  "\<forall>page. \<exists>v'. input_keydown (\<lambda>_. Some (\<lambda>_. True)) graph_page 13 (new_tree_view page) = Some (Ok (), v') \<and>
     (tv_page v' = tv_page (new_tree_view page) \<or> tv_page v' = documentResize (tv_page (new_tree_view page)))"
proof
  fix page :: "frame \<times> app"
  let ?rx = "\<lambda>_. Some (\<lambda>_. True)" and ?v = "new_tree_view page"
  have d: "\<not> changing (tree_model ?v)" "model_get ''pattern'' (tree_model ?v) = Val (Text ''*'')"
    "model_get ''matching_names'' (tree_model ?v) = Val (Names [])" "tv_input ?v = []" by code_simp+
  have i: "view_shows ?v" "view_ok ?rx ?v"
    by (simp_all add: view_shows_def view_ok_def new_tree_view_fields)
  have "asCounterTree [] = Ok (newNode ''#'')" by code_simp
  then have t: "tree_of ?rx (Val (Text [])) (model_get ''matching_names'' (tree_model ?v)) = Ok (newNode ''#'')"
    by (simp add: d(3) tree_of_def pattern_matcher_def render_tree_def names_of_def chosen_counters_def)
  obtain v' where "set_pattern ?rx graph_page [] ?v = Some (Ok True, v')"
    using set_pattern_ends [OF i d(1) _ t, of documentResize toggled] d(2) unfolding graph_page_total by auto
  then have "input_keydown ?rx graph_page 13 ?v = Some (Ok (), v')"
    using d(4) new_tree_view_fields(1) [of page] by (simp add: input_keydown_def whenM_def bindM_def on_widget_def)
  with search_toggles_nothing [OF rtranclp.rtrancl_refl this]
  show "\<exists>v'. input_keydown ?rx graph_page 13 ?v = Some (Ok (), v') \<and>
     (tv_page v' = tv_page ?v \<or> tv_page v' = documentResize (tv_page ?v))" by blast
qed

section \<open>A second toggle\<close>

text \<open>The pattern of an idle view with a widget is changed: the widget is refreshed before it is replaced.\<close>

lemma set_pattern_refreshes:
  assumes "\<not> changing (tree_model v)" "pending (tree_model v) = None" "tv_tree v = Some ct"
    and "model_get ''pattern'' (tree_model v) \<noteq> Val (Text p)"
    and "tree_of rx (Val (Text p)) (model_get ''matching_names'' (tree_model v)) = Ok t"
    and "refresh_tree (tree_env pg ct) (attach (tv_jst v) (tv_page v)) = Some (Ok (), w)"
  shows "\<exists>v'. set_pattern rx pg p v = Some (Ok True, v') \<and> tv_page v' = po_resize pg (w_page w)"
proof -
  let ?m = "snd (write_attrs [(''pattern'', Val (Text p))] no_opts (tree_model v))"
  note d = pattern_differs [OF assms(4)] and m = pattern_written [of _ p "tree_model v"]
  let ?v = "mupd (tv_model v) (\<lambda>_. ?m\<lparr>pending := None\<rparr>) v"
  obtain cs where cs: "t = tree_for cs" using tree_of_counters [OF assms(5)] by blast
  let ?n = "attach (new_jst (Suc (tv_inst v))) (w_page w)"
  have "jt_data ?n = [(''#'', root_node)]" "jt_sel ?n = []" by (simp_all add: new_jst_def)
  then obtain u where u: "init_tree (tree_env pg t) ?n = Some (Ok (), u)" "jst.more u = jst.more ?n"
    using counter_source.init_works [of "tree_env pg t" cs ?n] cs by (auto simp: tree_env_def rows_env_def)
  have "w_page u = w_page w" using page_more [OF u(2)] by simp
  then have "\<exists>v1. render_view rx pg ?v = Some (Ok (), v1) \<and> tv_page v1 = po_resize pg (w_page w)"
    using assms(3,5,6) u(1) m by (simp add: render_view_def Let_def bindM_def on_widget_def make_widget_def model_get_def)
  then show ?thesis
    unfolding set_pattern_def model_set_tree [OF pattern_attrs(1) tree_opts_used(1) assms(1,2)] using d by auto
qed



end
