(* ===== verification/Spec2Isabelle.thy ===== *)
theory Spec2Isabelle
  imports Loader Calendar Repaint Page_Props Hash_State Counter_Tree_Props Sha256_Props
    Cookie_Props Legend_Props Bb_Events_Props Users_Store Menus Tree_Clicks
begin

text \<open>
  A verification library for the counter browser of istatd, the JavaScript application under
  src/files. The browser shows a tree of counters; a click on a counter toggles its graph; the
  graphs read their data from the daemon through one batching loader and are drawn by Dygraph; the
  page can be saved as a dashboard and written into its own address; users log in with a cookie.

  \<^bold>\<open>The program and its theories.\<close> Each theory opens with what it holds; the names of the definitions
  are those of the source wherever Isabelle allows.

  \<^item> The language: \<open>Js_Prelude\<close> (exceptions as values of \<open>outcome\<close>, strings, \<open>parseInt\<close>, the locale
    \<open>machine\<close> of states, steps and an invariant), \<open>Js_Object\<close> (objects as dictionaries in the order of
    \<open>for in\<close>, with the locale \<open>js_dict\<close> interpreted for keys that are strings and keys that are numbers) and
    \<open>Js_Action\<close> (operations on a world that may throw or not return).
  \<^item> graph.js, helpers: \<open>Util\<close>, \<open>Ui\<close> (guard, dialogs, progress bar), \<open>Calendar\<close> (\<open>Date\<close>, \<open>parseDate\<close>),
    \<open>Timeline\<close> (date range, automatic refresh).
  \<^item> graph.js, graphs: \<open>Loader\<close> (callback table, timer, one request in flight), \<open>Repaint\<close> (what is handed to
    Dygraph), \<open>Grid\<close> (\<open>GraphSurface\<close> and \<open>GraphGrid\<close>: one record of the page's state, one function per
    handler), \<open>Page\<close> and \<open>Page_Props\<close> (the events of user, timers and network as one step relation).
  \<^item> graph.js, saving: \<open>Slider\<close>, \<open>Dashboard\<close> with \<open>Dashboard_Props\<close>, \<open>Hash_State\<close>.
  \<^item> graph.js, counters: \<open>Counter_Tree\<close> with \<open>Counter_Tree_Props\<close> (\<open>asCounterTree\<close>), \<open>Counter_Rows\<close> (what the
    widget is given), \<open>Tree_View\<close> (\<open>CounterTreeModel\<close>, \<open>CounterTreeFilterView\<close>, \<open>CounterTreeView\<close>),
    \<open>Lone_Counter\<close> and \<open>Tree_Clicks\<close> (view, widget and page together).
  \<^item> graph.js, the rest of the page: \<open>Xref\<close> (cross references), \<open>Frame\<close> (visibility, tabs, layout),
    \<open>Menus\<close> (dropdowns, buttons, \<open>on_ready\<close>), \<open>Users\<close>, \<open>Users_Props\<close> and \<open>Users_Store\<close>.
  \<^item> jstree.js: \<open>Jstree\<close> (table of nodes, rows become nodes, sorting, drawing) and \<open>Jstree_Ops\<close> (loading,
    opening, selecting, clicks, saving, restoring, refreshing); \<open>Jstree_Wf\<close>, \<open>Jstree_Rows\<close>,
    \<open>Jstree_Invariants\<close>, \<open>Jstree_Props\<close>, \<open>Jstree_Select\<close>, \<open>Jstree_Click\<close> and
    \<open>Jstree_Restore\<close> for their properties.
  \<^item> backbone.js: \<open>Bb_Events\<close>, \<open>Bb_Model\<close> (with \<open>Backbone.sync\<close>), \<open>Bb_Collection\<close>, each with its \<open>_Props\<close>.
  \<^item> sha256.js, jquery-cookie-1.4.1.js and istatd-legend.js: \<open>Sha256\<close>, \<open>Cookie\<close> and \<open>Legend\<close>, each with its
    \<open>_Props\<close>.

  \<^bold>\<open>How the parts meet.\<close> A selected row of the widget calls \<open>toggleGraphing\<close> on the page, which makes or
  changes a graph, which asks the loader; a reply reaches the graph through the callbacks of the
  request. The search field and the server's answers change a Backbone model; its change event
  renders the tree. The login reads and writes cookies, hashes passwords with \<open>Sha256\<close>, and
  keeps the users in a Backbone collection. The interfaces are locales: \<open>listeners\<close> (what a model
  relies on from its listeners; interpreted for the tree view), \<open>row_source\<close> and \<open>row_widget\<close> (what the widget
  relies on from the function that gives it rows and from the handler of a selected row;
  interpreted for the counter tree), \<open>draw_invariant\<close>, \<open>open_invariant\<close>, \<open>load_invariant\<close> and
  \<open>widget_invariant\<close> (which steps a property of the widget has to survive), \<open>machine\<close> (interpreted for the page,
  the legend and the tree view).

  \<^bold>\<open>What is shown.\<close> The page invariant of every reachable state; batching, the single timer and the
  progress of the loader; the exact effect of toggling and renaming counters; alignment and value range
  of what is drawn; round trips of dashboards, addresses, cookies, UTF-8 and dates; the digest
  against the standard on 32 bit words; the arrays of \<open>Backbone.Events\<close> against lists of
  subscriptions, \<open>changed\<close> of a model against the difference of its attributes, collections
  against lists; the counter tree against the names it was made of; that the widget shows the rows of
  the counter tree whatever happens to it, that a click toggles the counter its row stands for, that
  drawing, restoring and a new search come to an end; login and creation of users; the table of cross references;
  the legend's HTML. Theorems also pin down where the code does not do what it means to: a
  pattern that is no regular expression, clearing the search field, renaming to a name that is
  plotted already, and others that are lemmas of their theories.

  \<^bold>\<open>Bounds, fuel and time.\<close> Loops that need not end are \<open>partial_function (option)\<close>: the grid of times (\<open>plot_loop\<close>)
  and the loop of \<open>Model.set\<close> over pending changes (\<open>flush\<close>), with theorems that say when they return. Two recursions
  of the widget carry a bound: \<open>redraw_li\<close> the length of the table, which no branch exceeds
  in a well formed table, and \<open>set_state\<close> the number of nodes to open, because every nested call has
  loaded one more of them. Running out of either is an error value, and the lemmas \<open>calm_redraw_node\<close> and
  \<open>refresh_ends\<close> show that it does not happen. Numbers are \<open>int\<close>, or reals in \<open>Repaint\<close> and \<open>Legend\<close>, where the code stays
  far below 2^53; the 32 bit operators of \<open>Sha256\<close> are written out. Local time is UTC with a constant offset.

  \<^bold>\<open>Arguments of the model.\<close> The daemon's replies, the browser's clock, cookies, regular
  expressions and timers, jQuery's animations (their ends are steps of their own), Dygraph's accessors, and the
  listeners of Backbone's events where a theory does not fix them. What is required of one of these is a
  hypothesis of the theorem.

  \<^bold>\<open>Not modelled.\<close> jQuery, underscore and Dygraph, third-party code that the application calls;
  \<open>Backbone.View\<close>, \<open>Router\<close> and \<open>History\<close>, a wrapper of the document and two classes that the application does
  not use; of jstree.js the formats of rows other than objects given by a function, creating,
  renaming, deleting, moving, copying and editing nodes, themes, classes and attributes, focus and the plugins but
  sort, none of which the application uses; pixels, styles and markup; the daemon and its
  tools in C++, the scripts and the tests.
\<close>

end
